(* ===== verification/Prelude.thy ===== *)
theory Prelude
  imports Main "HOL-Library.Word"
begin

text \<open>
  Types, collections of rewrite rules and generic facts that every component of the
  development shares: the machine integers of the Go program, error values, calls that
  may panic, and a few facts on lists, folds and words.
\<close>

unbundle bit_operations_syntax

section \<open>Machine integers and byte strings\<close>

text \<open>
  Go's \<^verbatim>\<open>uint\<close> and \<^verbatim>\<open>int64\<close> are 64 bits wide on the platforms the program supports; both
  are \<^typ>\<open>64 word\<close>, read with \<open>unat\<close> or \<open>sint\<close>. A Go string or byte slice is a list of
  bytes, and \<^typ>\<open>char\<close> is exactly one byte.
\<close>

type_synonym uint = "64 word"
type_synonym int64 = "64 word"
type_synonym uint8 = "8 word"
type_synonym bytes = string

section \<open>Collections of rewrite rules\<close>

named_theorems cache_simps \<open>what the level caches return\<close>
named_theorems writer_simps \<open>what the writing routines do on an in-memory buffer\<close>

section \<open>Errors\<close>

text \<open>
  \<open>TimeoutError\<close> is the type \<^verbatim>\<open>timeoutError\<close> of \<^verbatim>\<open>timeout.go\<close>. \<open>MError es\<close> stands for a
  \<^verbatim>\<open>*merror.MError\<close> (a third-party type) whose method \<^verbatim>\<open>Errors()\<close> returns \<open>es\<close>.
  \<open>ErrorText\<close> is what \<^verbatim>\<open>errors.New\<close>, or \<^verbatim>\<open>fmt.Errorf\<close> without \<^verbatim>\<open>%w\<close>, returns; \<open>WrapError\<close> is
  what \<^verbatim>\<open>fmt.Errorf\<close> with \<^verbatim>\<open>%w\<close> returns: a text and the error it wraps. \<open>ForeignError\<close> is an
  error made outside the program, such as by a socket or an encoder. A result of Go's type
  \<^verbatim>\<open>error\<close> is a \<open>go_error option\<close>; \<open>None\<close> is \<^verbatim>\<open>nil\<close>.
\<close>

datatype go_error =
    TimeoutError string
  | MError "go_error list"
  | ErrorText string
  | WrapError string go_error
  | ForeignError string

text \<open>A call that returns a value, or panics with a message.\<close>

datatype 'a outcome = Ret 'a | Panics string

fun bind_outcome :: "'a outcome \<Rightarrow> ('a \<Rightarrow> 'b outcome) \<Rightarrow> 'b outcome" where
  "bind_outcome (Ret x) f = f x"
| "bind_outcome (Panics m) f = Panics m"

lemma bind_outcome_Ret_iff:
  "bind_outcome x f = Ret y \<longleftrightarrow> (\<exists>v. x = Ret v \<and> f v = Ret y)"
  by (cases x) auto

section \<open>Generic facts\<close>

lemma find_append:
  "find P (xs @ ys) = (case find P xs of None \<Rightarrow> find P ys | Some x \<Rightarrow> Some x)"
  by (induction xs) auto

lemma find_SomeD: "find P xs = Some x \<Longrightarrow> x \<in> set xs \<and> P x"
  by (auto simp: find_Some_iff)

lemma word_le_6_cases:
  fixes w :: uint
  shows "w \<le> 6 \<longleftrightarrow> w = 0 \<or> w = 1 \<or> w = 2 \<or> w = 3 \<or> w = 4 \<or> w = 5 \<or> w = 6"
  by (auto simp: word_le_nat_alt word_unat_eq_iff)

lemma word_gt_6_cases:
  fixes w :: uint
  shows "6 < w \<longleftrightarrow> w \<noteq> 0 \<and> w \<noteq> 1 \<and> w \<noteq> 2 \<and> w \<noteq> 3 \<and> w \<noteq> 4 \<and> w \<noteq> 5 \<and> w \<noteq> 6"
  using word_le_6_cases [of w] by (simp add: not_le [symmetric])

end
