(* ===== verification/GoStrings.thy ===== *)
theory GoStrings
  imports Prelude
begin

text \<open>
  What the program uses of Go's string handling: iteration over the runes of a string
  (\<^verbatim>\<open>for _, c := range s\<close>, the decoder of \<^verbatim>\<open>unicode/utf8\<close>), decimal and hexadecimal numbers
  (\<^verbatim>\<open>strconv\<close>, \<^verbatim>\<open>%d\<close>, \<^verbatim>\<open>%X\<close>), and the searches of \<^verbatim>\<open>strings\<close> and \<^verbatim>\<open>path/filepath\<close>.
  Strings are lists of bytes.
\<close>

section \<open>Decimal and hexadecimal numbers\<close>

definition digit_char :: "nat \<Rightarrow> char" where
  "digit_char d = char_of (48 + d)"

fun dec_nat :: "nat \<Rightarrow> string" where
  "dec_nat n = (if n < 10 then [digit_char n] else dec_nat (n div 10) @ [digit_char (n mod 10)])"

declare dec_nat.simps [simp del]

definition dec_int :: "int \<Rightarrow> string" where
  "dec_int i = (if i < 0 then CHR ''-'' # dec_nat (nat (- i)) else dec_nat (nat i))"

text \<open>\<^verbatim>\<open>strconv.FormatInt(v, 10)\<close> and \<^verbatim>\<open>strconv.FormatUint(v, 10)\<close>.\<close>

definition FormatInt :: "int64 \<Rightarrow> string" where
  "FormatInt v = dec_int (sint v)"

definition FormatUint :: "64 word \<Rightarrow> string" where
  "FormatUint v = dec_nat (unat v)"

text \<open>Reading a decimal number back, the inverse used to state that nothing is lost.\<close>

definition digit_val :: "char \<Rightarrow> nat" where
  "digit_val c = of_char c - 48"

definition read_nat :: "string \<Rightarrow> nat" where
  "read_nat s = foldl (\<lambda>a c. 10 * a + digit_val c) 0 s"

definition read_int :: "string \<Rightarrow> int" where
  "read_int s = (case s of c # t \<Rightarrow> if c = CHR ''-'' then - int (read_nat t) else int (read_nat s)
                 | [] \<Rightarrow> 0)"

lemma of_char_digit_char: "d < 10 \<Longrightarrow> of_char (digit_char d) = 48 + d"
  by (simp add: digit_char_def of_char_of)

lemma digit_val_digit_char [simp]: "d < 10 \<Longrightarrow> digit_val (digit_char d) = d"
  by (simp add: digit_val_def of_char_digit_char)

lemma read_nat_append: "read_nat (s @ [c]) = 10 * read_nat s + digit_val c"
  by (simp add: read_nat_def)

lemma read_nat_dec_nat: "read_nat (dec_nat n) = n"
proof (induction n rule: dec_nat.induct)
  case (1 n)
  show ?case
  proof (cases "n < 10")
    case True
    then show ?thesis by (simp add: dec_nat.simps [of n] read_nat_def)
  next
    case False
    with 1 show ?thesis by (simp add: dec_nat.simps [of n] read_nat_append)
  qed
qed

text \<open>A decimal number is made of digits, so it never needs quotes and never starts with a sign.\<close>

definition is_digit :: "char \<Rightarrow> bool" where
  "is_digit c \<longleftrightarrow> (48::nat) \<le> of_char c \<and> of_char c \<le> (57::nat)"

lemma is_digit_digit_char: "d < 10 \<Longrightarrow> is_digit (digit_char d)"
  by (simp add: is_digit_def of_char_digit_char)

lemma dec_nat_digits: "\<forall>c \<in> set (dec_nat n). is_digit c"
proof (induction n rule: dec_nat.induct)
  case (1 n)
  then show ?case
    by (cases "n < 10") (auto simp: dec_nat.simps [of n] is_digit_digit_char)
qed

lemma dec_nat_nonempty [simp]: "dec_nat n \<noteq> []"
  by (simp add: dec_nat.simps [of n])

lemma not_is_digit_minus [simp]: "\<not> is_digit CHR ''-''"
  by (simp add: is_digit_def)

lemma read_int_dec_int: "read_int (dec_int i) = i"
proof (cases "i < 0")
  case True
  then show ?thesis by (simp add: dec_int_def read_int_def read_nat_dec_nat)
next
  case False
  obtain c t where ct: "dec_nat (nat i) = c # t" by (cases "dec_nat (nat i)") auto
  with dec_nat_digits [of "nat i"] have "c \<noteq> CHR ''-''" by auto
  with False ct read_nat_dec_nat [of "nat i"] show ?thesis
    by (simp add: dec_int_def read_int_def)
qed

text \<open>\<^verbatim>\<open>%X\<close> on a byte slice: two upper-case hexadecimal digits for each byte.\<close>

definition hex_char :: "nat \<Rightarrow> char" where
  "hex_char d = (if d < 10 then char_of (48 + d) else char_of (55 + d))"

definition hex_byte :: "char \<Rightarrow> string" where
  "hex_byte c = [hex_char (of_char c div 16), hex_char (of_char c mod 16)]"

definition hex_bytes :: "bytes \<Rightarrow> string" where
  "hex_bytes b = concat (map hex_byte b)"

definition FormatBool :: "bool \<Rightarrow> string" where
  "FormatBool b = (if b then ''true'' else ''false'')"

section \<open>Runes\<close>

text \<open>
  \<^verbatim>\<open>utf8.DecodeRuneInString\<close>: the first rune of a non-empty string and the number of bytes
  it takes. A byte that starts no valid encoding gives \<^verbatim>\<open>utf8.RuneError\<close> and takes one byte.
\<close>

definition RuneError :: nat where "RuneError = 0xFFFD"

definition cont_byte :: "nat \<Rightarrow> bool" where
  "cont_byte b \<longleftrightarrow> 0x80 \<le> b \<and> b \<le> 0xBF"

text \<open>The range that the second byte must be in, for each first byte.\<close>

definition accept2 :: "nat \<Rightarrow> nat \<Rightarrow> bool" where
  "accept2 b0 b1 \<longleftrightarrow>
     (if b0 = 0xE0 then 0xA0 \<le> b1 \<and> b1 \<le> 0xBF
      else if b0 = 0xED then 0x80 \<le> b1 \<and> b1 \<le> 0x9F
      else if b0 = 0xF0 then 0x90 \<le> b1 \<and> b1 \<le> 0xBF
      else if b0 = 0xF4 then 0x80 \<le> b1 \<and> b1 \<le> 0x8F
      else cont_byte b1)"

definition decode_rune :: "nat list \<Rightarrow> nat \<times> nat" where
  "decode_rune s =
     (case s of
        [] \<Rightarrow> (RuneError, 0)
      | b0 # s1 \<Rightarrow>
          if b0 < 0x80 then (b0, 1)
          else if b0 < 0xC2 \<or> 0xF4 < b0 then (RuneError, 1)
          else case s1 of
            [] \<Rightarrow> (RuneError, 1)
          | b1 # s2 \<Rightarrow>
              if b0 < 0xE0 then
                (if accept2 b0 b1 then (b0 mod 32 * 64 + b1 mod 64, 2) else (RuneError, 1))
              else case s2 of
                [] \<Rightarrow> (RuneError, 1)
              | b2 # s3 \<Rightarrow>
                  if b0 < 0xF0 then
                    (if accept2 b0 b1 \<and> cont_byte b2
                     then (b0 mod 16 * 4096 + b1 mod 64 * 64 + b2 mod 64, 3) else (RuneError, 1))
                  else case s3 of
                    [] \<Rightarrow> (RuneError, 1)
                  | b3 # _ \<Rightarrow>
                      if accept2 b0 b1 \<and> cont_byte b2 \<and> cont_byte b3
                      then (b0 mod 8 * 262144 + b1 mod 64 * 4096 + b2 mod 64 * 64 + b3 mod 64, 4)
                      else (RuneError, 1))"

lemma decode_rune_size: "s \<noteq> [] \<Longrightarrow> 0 < snd (decode_rune s)"
  by (auto simp: decode_rune_def split: list.splits)

text \<open>The runes that a \<^verbatim>\<open>range\<close> loop visits.\<close>

function runes_of :: "nat list \<Rightarrow> nat list" where
  "runes_of s =
     (if s = [] then []
      else fst (decode_rune s) # runes_of (drop (snd (decode_rune s)) s))"
  by pat_completeness auto
termination
  by (relation "measure length") (simp_all add: decode_rune_size)

declare runes_of.simps [simp del]

definition runes :: "string \<Rightarrow> nat list" where
  "runes s = runes_of (map of_char s)"

lemma decode_rune_ascii: "b < 0x80 \<Longrightarrow> decode_rune (b # s) = (b, 1)"
  by (simp add: decode_rune_def)

text \<open>What a leading or second byte contributes to the rune it encodes.\<close>

lemma mod_of_range:
  fixes b k :: nat
  shows "k * n \<le> b \<Longrightarrow> b < Suc k * n \<Longrightarrow> b mod n = b - k * n"
  by (metis add_diff_inverse_nat less_diff_conv2 mod_less mod_mult_self3 mult_Suc not_le)

lemma lead2: "0xC2 \<le> b \<Longrightarrow> b < 0xE0 \<Longrightarrow> b mod 32 = b - (192::nat)"
  using mod_of_range [of 6 32 b] by simp

lemma lead3: "0xE0 \<le> b \<Longrightarrow> b < 0xF0 \<Longrightarrow> b mod 16 = b - (224::nat)"
  using mod_of_range [of 14 16 b] by simp

lemma lead4: "0xF0 \<le> b \<Longrightarrow> b \<le> 0xF4 \<Longrightarrow> b mod 8 = b - (240::nat)"
  using mod_of_range [of 30 8 b] by simp

lemma cont: "0x80 \<le> b \<Longrightarrow> b \<le> 0xBF \<Longrightarrow> b mod 64 = b - (128::nat)"
  using mod_of_range [of 2 64 b] by simp

lemma rune2_beyond_ascii:
  "0xC2 \<le> b0 \<Longrightarrow> b0 < 0xE0 \<Longrightarrow> 0x80 \<le> b0 mod 32 * 64 + (b1::nat) mod 64"
  by (simp add: lead2)

lemma rune3_beyond_ascii:
  assumes "0xE0 \<le> b0" and "b0 < 0xF0" and "accept2 b0 b1"
  shows "0x80 \<le> b0 mod 16 * 4096 + b1 mod 64 * 64 + (b2::nat) mod 64"
proof (cases "b0 = 0xE0")
  case True
  with assms have "160 \<le> b1" "b1 \<le> 0xBF" by (simp_all add: accept2_def)
  then have "32 \<le> b1 mod 64" by (simp add: cont)
  then show ?thesis by linarith
next
  case False
  with assms have "1 \<le> b0 mod 16" by (simp add: lead3)
  then show ?thesis by linarith
qed

lemma rune4_beyond_ascii:
  assumes "0xF0 \<le> b0" and "b0 \<le> 0xF4" and "accept2 b0 b1"
  shows "0x80 \<le> b0 mod 8 * 262144 + b1 mod 64 * 4096 + b2 mod 64 * 64 + (b3::nat) mod 64"
proof (cases "b0 = 0xF0")
  case True
  with assms have "144 \<le> b1" "b1 \<le> 0xBF" by (simp_all add: accept2_def)
  then have "16 \<le> b1 mod 64" by (simp add: cont)
  then show ?thesis by linarith
next
  case False
  with assms have "1 \<le> b0 mod 8" by (simp add: lead4)
  then show ?thesis by linarith
qed

lemma decode_rune_beyond_ascii:
  "0x80 \<le> b \<Longrightarrow> 0x80 \<le> fst (decode_rune (b # s))"
  by (simp add: decode_rune_def RuneError_def not_less rune2_beyond_ascii rune3_beyond_ascii
        rune4_beyond_ascii split: list.split)

section \<open>Searches\<close>

text \<open>\<^verbatim>\<open>strings.LastIndex\<close> for a string of one byte: \<open>-1\<close> when it does not occur.\<close>

fun LastIndex :: "string \<Rightarrow> char \<Rightarrow> int" where
  "LastIndex [] c = -1"
| "LastIndex (x # xs) c =
     (let r = LastIndex xs c in if 0 \<le> r then r + 1 else if x = c then 0 else -1)"

text \<open>\<^verbatim>\<open>strings.HasPrefix(s, prefix)\<close>.\<close>

definition HasPrefix :: "string \<Rightarrow> string \<Rightarrow> bool" where
  "HasPrefix s p \<longleftrightarrow> length p \<le> length s \<and> take (length p) s = p"

text \<open>\<^verbatim>\<open>strings.Repeat\<close>; a negative count panics.\<close>

definition Repeat :: "string \<Rightarrow> int \<Rightarrow> string outcome" where
  "Repeat s n = (if n < 0 then Panics ''strings: negative Repeat count''
                 else Ret (concat (replicate (nat n) s)))"

lemma LastIndex_bounds: "- 1 \<le> LastIndex s c \<and> LastIndex s c < int (length s)"
  by (induction s) (auto simp: Let_def)

lemma LastIndex_neg_iff: "LastIndex s c < 0 \<longleftrightarrow> c \<notin> set s"
  by (induction s) (auto simp: Let_def)

lemma LastIndex_append:
  "LastIndex (s @ t) c =
     (if c \<in> set t then int (length s) + LastIndex t c else LastIndex s c)"
proof (induction s)
  case Nil
  then show ?case
    using LastIndex_neg_iff [of t c] LastIndex_bounds [of t c] by auto
next
  case (Cons x s)
  then show ?case
    using LastIndex_neg_iff [of t c] by (auto simp: Let_def)
qed

lemma LastIndex_notin: "c \<notin> set s \<Longrightarrow> LastIndex s c = -1"
  using LastIndex_bounds [of s c] LastIndex_neg_iff [of s c] by linarith

text \<open>\<^verbatim>\<open>filepath.Split\<close> and \<^verbatim>\<open>filepath.Base\<close>, with \<^verbatim>\<open>/\<close> as the separator.\<close>

definition path_Split :: "string \<Rightarrow> string \<times> string" where
  "path_Split p =
     (let i = nat (LastIndex p CHR ''/'' + 1) in (take i p, drop i p))"

fun strip_slashes :: "string \<Rightarrow> string" where
  "strip_slashes p = rev (dropWhile (\<lambda>c. c = CHR ''/'') (rev p))"

definition path_Base :: "string \<Rightarrow> string" where
  "path_Base p =
     (if p = [] then ''.''
      else let q = strip_slashes p;
               r = drop (nat (LastIndex q CHR ''/'' + 1)) q
           in if r = [] then ''/'' else r)"

text \<open>Splitting at the last slash loses nothing, and the file part has no slash.\<close>

lemma path_Split_append: "fst (path_Split p) @ snd (path_Split p) = p"
  by (simp add: path_Split_def Let_def)

lemma LastIndex_split:
  obtains (none) "c \<notin> set s" | (some) a b where "s = a @ c # b" "c \<notin> set b" "LastIndex s c = int (length a)"
proof (cases "c \<in> set s")
  case True
  then obtain a b where ab: "s = a @ c # b" "c \<notin> set b" by (meson split_list_last)
  then have "LastIndex s c = int (length a)"
    by (simp add: LastIndex_append LastIndex_notin)
  with ab show ?thesis by (rule some)
qed (rule none)

lemma path_Split_eq:
  "CHR ''/'' \<notin> set b \<Longrightarrow> path_Split (a @ CHR ''/'' # b) = (a @ ''/'', b)"
  by (simp add: path_Split_def LastIndex_append LastIndex_notin nat_add_distrib)

lemma path_Split_no_slash: "CHR ''/'' \<notin> set (snd (path_Split p))"
proof (rule LastIndex_split [of "CHR ''/''" p])
  assume "CHR ''/'' \<notin> set p"
  then show ?thesis by (simp add: path_Split_def LastIndex_notin)
next
  fix a b
  assume "p = a @ CHR ''/'' # b" and "CHR ''/'' \<notin> set b"
  then show ?thesis using path_Split_eq [of b a] by simp
qed

section \<open>Trimming white space\<close>

text \<open>
  The encodings of the runes for which \<^verbatim>\<open>unicode.IsSpace\<close> holds. A string that begins or ends with
  one of them begins or ends with that rune, whatever stands beside it.
\<close>

definition bytes_of :: "nat list \<Rightarrow> string" where
  "bytes_of ns = map char_of ns"

definition space_encodings :: "string list" where
  "space_encodings =
     map bytes_of
       ([[0x09], [0x0A], [0x0B], [0x0C], [0x0D], [0x20], [0xC2, 0x85], [0xC2, 0xA0], [0xE1, 0x9A, 0x80]] @
        map (\<lambda>k. [0xE2, 0x80, 0x80 + k]) [0..<11] @
        [[0xE2, 0x80, 0xA8], [0xE2, 0x80, 0xA9], [0xE2, 0x80, 0xAF], [0xE2, 0x81, 0x9F],
         [0xE3, 0x80, 0x80]])"

lemma shorter_rest: "take (length e) s = e \<Longrightarrow> e \<noteq> [] \<Longrightarrow> length (drop (length e) s) < length s"
  by (metis diff_less length_drop length_greater_0_conv take_eq_Nil)

function strip :: "string list \<Rightarrow> string \<Rightarrow> string" where
  "strip es s =
     (case find (\<lambda>e. e \<noteq> [] \<and> take (length e) s = e) es of
        None \<Rightarrow> s
      | Some e \<Rightarrow> strip es (drop (length e) s))"
  by pat_completeness auto

termination
  by (relation "measure (\<lambda>(es, s). length s)") (auto dest!: find_SomeD shorter_rest)

declare strip.simps [simp del]

text \<open>\<^verbatim>\<open>strings.TrimSpace\<close>.\<close>

definition TrimSpace :: "string \<Rightarrow> string" where
  "TrimSpace s =
     rev (strip (map rev space_encodings) (rev (strip space_encodings s)))"

text \<open>Stripping takes a run of the given strings off the front, and leaves none of them there.\<close>

lemma strip_run:
  "\<exists>p. s = concat p @ strip es s \<and> set p \<subseteq> set es"
proof (induction es s rule: strip.induct)
  case (1 es s)
  show ?case
  proof (cases "find (\<lambda>e. e \<noteq> [] \<and> take (length e) s = e) es")
    case None
    then show ?thesis
      by (intro exI [of _ "[]"]) (simp add: strip.simps)
  next
    case (Some e)
    then have e: "e \<in> set es" "take (length e) s = e"
      by (auto dest!: find_SomeD)
    from 1 [OF Some] obtain p where "drop (length e) s = concat p @ strip es (drop (length e) s)"
        "set p \<subseteq> set es"
      by blast
    with e Some show ?thesis
      by (intro exI [of _ "e # p"]) (simp add: strip.simps [of es s], metis append_take_drop_id)
  qed
qed

lemma strip_none: "e \<in> set es \<Longrightarrow> e \<noteq> [] \<Longrightarrow> take (length e) (strip es s) \<noteq> e"
proof (induction es s rule: strip.induct)
  case (1 es s)
  show ?case
  proof (cases "find (\<lambda>e. e \<noteq> [] \<and> take (length e) s = e) es")
    case None
    then have "take (length e) s \<noteq> e"
      using 1(2,3) by (auto simp: find_None_iff)
    with None show ?thesis by (simp add: strip.simps [of es s])
  next
    case (Some e')
    then show ?thesis
      using 1(1) [OF Some 1(2,3)] by (simp add: strip.simps [of es s])
  qed
qed

lemma strip_fixed: "\<forall>e\<in>set es. e \<noteq> [] \<longrightarrow> take (length e) s \<noteq> e \<Longrightarrow> strip es s = s"
  by (subst strip.simps) (auto simp: find_None_iff split: option.split dest!: find_SomeD)

text \<open>What is left has no white space at its end.\<close>

lemma TrimSpace_end: "e \<in> set space_encodings \<Longrightarrow> e \<noteq> [] \<Longrightarrow> TrimSpace s \<noteq> p @ e"
proof
  assume e: "e \<in> set space_encodings" "e \<noteq> []" and "TrimSpace s = p @ e"
  then have "strip (map rev space_encodings) (rev (strip space_encodings s)) = rev e @ rev p"
    by (metis TrimSpace_def rev_append rev_rev_ident)
  with strip_none [of "rev e" "map rev space_encodings" "rev (strip space_encodings s)"] e
  show False by simp
qed

end
