(* ===== verification/Levels.thy ===== *)
theory Levels
  imports Prelude
begin

text \<open>
  Log levels and the filters that enable them (\<^verbatim>\<open>level.go\<close>, \<^verbatim>\<open>filter.go\<close>,
  \<^verbatim>\<open>filterstd.go\<close>, \<^verbatim>\<open>filtercustom.go\<close>): the seven standard levels, \<^verbatim>\<open>StdFilter\<close> with its
  severity threshold, \<^verbatim>\<open>CustomFilter\<close> with its map of discrete levels, and the interface
  \<^verbatim>\<open>Filter\<close> as the locale \<open>level_filter\<close>, interpreted on both filters and on the dispatching
  type the engine uses.
\<close>

section \<open>Levels\<close>

text \<open>\<^verbatim>\<open>LevelID\<close> is a \<^verbatim>\<open>uint\<close> and \<^verbatim>\<open>Color\<close> a \<^verbatim>\<open>uint8\<close>.\<close>

record level =
  ID :: uint
  Name :: string
  Stacktrace :: bool
  Color :: uint8

definition NoColor :: uint8 where "NoColor = 0"
definition Red :: uint8 where "Red = 31"
definition Green :: uint8 where "Green = 32"
definition Yellow :: uint8 where "Yellow = 33"
definition Blue :: uint8 where "Blue = 34"
definition Magenta :: uint8 where "Magenta = 35"
definition Cyan :: uint8 where "Cyan = 36"
definition White :: uint8 where "White = 37"

lemmas color_defs = NoColor_def Red_def Green_def Yellow_def Blue_def Magenta_def Cyan_def
  White_def

text \<open>The zero value \<^verbatim>\<open>Level{}\<close>, and the method \<^verbatim>\<open>String\<close>.\<close>

definition zero_level :: level where
  "zero_level = \<lparr>ID = 0, Name = [], Stacktrace = False, Color = NoColor\<rparr>"

definition Level_String :: "level \<Rightarrow> string" where
  "Level_String l = Name l"

definition std_level :: "uint \<Rightarrow> string \<Rightarrow> uint8 \<Rightarrow> level" where
  "std_level i n c = \<lparr>ID = i, Name = n, Stacktrace = False, Color = c\<rparr>"

definition Panic :: level where "Panic = std_level 0 ''panic'' Red"
definition Fatal :: level where "Fatal = std_level 1 ''fatal'' Red"
definition Error :: level where "Error = std_level 2 ''error'' Red"
definition Warn :: level where "Warn = std_level 3 ''warn'' Yellow"
definition Info :: level where "Info = std_level 4 ''info'' Cyan"
definition Debug :: level where "Debug = std_level 5 ''debug'' NoColor"
definition Trace :: level where "Trace = std_level 6 ''trace'' NoColor"

lemmas std_level_defs = Panic_def Fatal_def Error_def Warn_def Info_def Debug_def Trace_def
  std_level_def

lemma std_level_IDs [simp]:
  "ID Panic = 0" "ID Fatal = 1" "ID Error = 2" "ID Warn = 3" "ID Info = 4" "ID Debug = 5"
  "ID Trace = 6"
  by (simp_all add: std_level_defs)

lemma std_level_Stacktrace [simp]:
  "\<not> Stacktrace Panic" "\<not> Stacktrace Fatal" "\<not> Stacktrace Error" "\<not> Stacktrace Warn"
  "\<not> Stacktrace Info" "\<not> Stacktrace Debug" "\<not> Stacktrace Trace"
  by (simp_all add: std_level_defs)

section \<open>StdFilter\<close>

text \<open>
  The fields \<^verbatim>\<open>Lvl\<close> and \<^verbatim>\<open>Stacktrace\<close> of \<^verbatim>\<open>StdFilter\<close>; the second is called \<open>StackLvl\<close> here,
  because \<open>Stacktrace\<close> is a field of \<open>level\<close>.
\<close>

record std_filter =
  Lvl :: level
  StackLvl :: level

text \<open>The \<^verbatim>\<open>switch\<close> of \<^verbatim>\<open>GetEnabledLevel\<close>: the seven standard IDs give the standard levels.\<close>

definition std_level_of :: "level \<Rightarrow> level" where
  "std_level_of l =
     (if ID l = ID Panic then Panic
      else if ID l = ID Fatal then Fatal
      else if ID l = ID Error then Error
      else if ID l = ID Warn then Warn
      else if ID l = ID Info then Info
      else if ID l = ID Debug then Debug
      else if ID l = ID Trace then Trace
      else l)"

definition StdFilter_GetEnabledLevel :: "std_filter \<Rightarrow> level \<Rightarrow> level \<times> bool" where
  "StdFilter_GetEnabledLevel lt l =
     (let enabled = ID l \<le> ID (Lvl lt);
          stackTrace = ID l \<le> ID (StackLvl lt);
          levelEnabled = (if enabled then std_level_of l else zero_level);
          levelEnabled = (if stackTrace then levelEnabled\<lparr>Stacktrace := True\<rparr> else levelEnabled)
      in (levelEnabled, enabled))"

definition StdFilter_IsEnabled :: "std_filter \<Rightarrow> level \<Rightarrow> bool" where
  "StdFilter_IsEnabled lt l \<longleftrightarrow> ID l \<le> ID (Lvl lt)"

definition StdFilter_IsStacktraceEnabled :: "std_filter \<Rightarrow> level \<Rightarrow> bool" where
  "StdFilter_IsStacktraceEnabled lt l \<longleftrightarrow> ID l \<le> ID (StackLvl lt)"

lemma ID_std_level_of [simp]: "ID (std_level_of l) = ID l"
  by (simp add: std_level_of_def)

lemma snd_StdFilter [simp]:
  "snd (StdFilter_GetEnabledLevel lt l) = StdFilter_IsEnabled lt l"
  by (simp add: StdFilter_GetEnabledLevel_def StdFilter_IsEnabled_def Let_def)

lemma ID_fst_StdFilter:
  "StdFilter_IsEnabled lt l \<Longrightarrow> ID (fst (StdFilter_GetEnabledLevel lt l)) = ID l"
  by (simp add: StdFilter_GetEnabledLevel_def StdFilter_IsEnabled_def Let_def)

lemma Stacktrace_std_level_of:
  "Stacktrace (std_level_of l) \<longleftrightarrow> Stacktrace l \<and> ID Trace < ID l"
  by (simp add: word_gt_6_cases) (simp add: std_level_of_def)

section \<open>CustomFilter\<close>

text \<open>
  The field \<^verbatim>\<open>levels\<close>; \<open>None\<close> is the nil map of a fresh \<^verbatim>\<open>CustomFilter{}\<close>. The mutex makes each
  operation atomic.
\<close>

record custom_filter =
  levels :: "(uint \<rightharpoonup> level) option"

definition zero_CustomFilter :: custom_filter where
  "zero_CustomFilter = \<lparr>levels = None\<rparr>"

text \<open>A lookup in a nil map finds nothing, as in an empty one.\<close>

definition levels_get :: "custom_filter \<Rightarrow> uint \<Rightarrow> level option" where
  "levels_get cf i = (case levels cf of None \<Rightarrow> None | Some m \<Rightarrow> m i)"

definition CustomFilter_GetEnabledLevel :: "custom_filter \<Rightarrow> level \<Rightarrow> level \<times> bool" where
  "CustomFilter_GetEnabledLevel cf l =
     (case levels_get cf (ID l) of
        None \<Rightarrow> (zero_level, False)
      | Some levelEnabled \<Rightarrow>
          (if Name levelEnabled = [] then levelEnabled\<lparr>Name := Name l\<rparr> else levelEnabled, True))"

fun add_levels :: "(uint \<rightharpoonup> level) \<Rightarrow> level list \<Rightarrow> (uint \<rightharpoonup> level)" where
  "add_levels m [] = m"
| "add_levels m (s # ss) = add_levels (m(ID s \<mapsto> s)) ss"

definition CustomFilter_Add :: "custom_filter \<Rightarrow> level list \<Rightarrow> custom_filter" where
  "CustomFilter_Add cf ls =
     cf\<lparr>levels := Some (add_levels (case levels cf of None \<Rightarrow> Map.empty | Some m \<Rightarrow> m) ls)\<rparr>"

definition NewCustomFilter :: "level list \<Rightarrow> custom_filter" where
  "NewCustomFilter ls = CustomFilter_Add zero_CustomFilter ls"

text \<open>The filter's map sends each ID to a level with that ID: every filter starts so, and stays so.\<close>

definition custom_filter_inv :: "custom_filter \<Rightarrow> bool" where
  "custom_filter_inv cf \<longleftrightarrow> (\<forall>i l. levels_get cf i = Some l \<longrightarrow> ID l = i)"

text \<open>The last level added under an ID is the one the map holds.\<close>

lemma add_levels_apply:
  "add_levels m ls i =
     (case find (\<lambda>l. ID l = i) (rev ls) of None \<Rightarrow> m i | Some l \<Rightarrow> Some l)"
  by (induction ls arbitrary: m) (auto simp: find_append split: option.splits)

lemma levels_get_Add:
  "levels_get (CustomFilter_Add cf ls) i =
     (case find (\<lambda>l. ID l = i) (rev ls) of None \<Rightarrow> levels_get cf i | Some l \<Rightarrow> Some l)"
  by (simp add: levels_get_def CustomFilter_Add_def add_levels_apply split: option.splits)

lemma levels_get_zero [simp]: "levels_get zero_CustomFilter i = None"
  by (simp add: levels_get_def zero_CustomFilter_def)

lemma custom_filter_inv_zero: "custom_filter_inv zero_CustomFilter"
  by (simp add: custom_filter_inv_def)

lemma custom_filter_inv_Add: "custom_filter_inv cf \<Longrightarrow> custom_filter_inv (CustomFilter_Add cf ls)"
  by (auto simp: custom_filter_inv_def levels_get_Add dest!: find_SomeD split: option.splits)

lemma snd_CustomFilter [simp]:
  "snd (CustomFilter_GetEnabledLevel cf l) \<longleftrightarrow> levels_get cf (ID l) \<noteq> None"
  by (auto simp: CustomFilter_GetEnabledLevel_def split: option.splits)

lemma ID_fst_CustomFilter:
  "custom_filter_inv cf \<Longrightarrow> levels_get cf (ID l) \<noteq> None \<Longrightarrow>
   ID (fst (CustomFilter_GetEnabledLevel cf l)) = ID l"
  by (auto simp: CustomFilter_GetEnabledLevel_def custom_filter_inv_def split: option.splits)

lemma levels_get_Add_None_iff:
  "levels_get (CustomFilter_Add cf ls) i = None \<longleftrightarrow> i \<notin> ID ` set ls \<and> levels_get cf i = None"
  by (auto simp: levels_get_Add find_None_iff image_iff split: option.splits dest!: find_SomeD)

section \<open>The interface Filter\<close>

text \<open>
  What the engine relies on from a \<^verbatim>\<open>Filter\<close>: whether a level is enabled depends on its ID
  alone (the level cache is keyed by ID), and the level an enabled filter returns carries
  that ID.
\<close>

locale level_filter =
  fixes get_enabled :: "'f \<Rightarrow> level \<Rightarrow> level \<times> bool"
    and inv :: "'f \<Rightarrow> bool"
  assumes id_only: "inv f \<Longrightarrow> ID a = ID b \<Longrightarrow> snd (get_enabled f a) = snd (get_enabled f b)"
    and same_id: "inv f \<Longrightarrow> snd (get_enabled f l) \<Longrightarrow> ID (fst (get_enabled f l)) = ID l"
begin

text \<open>
  Whether any of several filters enables a level is a function of the ID, so a cache keyed
  by ID can hold the answer.
\<close>

lemma any_enabled_id_only:
  "\<forall>f \<in> set fs. inv f \<Longrightarrow> ID a = ID b \<Longrightarrow>
   (\<exists>f \<in> set fs. snd (get_enabled f a)) \<longleftrightarrow> (\<exists>f \<in> set fs. snd (get_enabled f b))"
  using id_only by blast

text \<open>Asking a filter again about the level it returned gives the same answer.\<close>

lemma enabled_again:
  "inv f \<Longrightarrow> snd (get_enabled f l) \<Longrightarrow> snd (get_enabled f (fst (get_enabled f l)))"
  using id_only same_id by metis

end

interpretation stdf: level_filter StdFilter_GetEnabledLevel "\<lambda>_. True"
  by unfold_locales (auto simp: ID_fst_StdFilter StdFilter_IsEnabled_def)

interpretation cusf: level_filter CustomFilter_GetEnabledLevel custom_filter_inv
  by unfold_locales (auto simp: ID_fst_CustomFilter)

text \<open>
  A value of the interface type: one of the two filters, or a filter the application
  supplies, which is a parameter: its method is the function \<open>ExtFilter\<close> holds.
\<close>

datatype filter_obj =
    StdFilter std_filter
  | CustomFilter custom_filter
  | ExtFilter "level \<Rightarrow> level \<times> bool"

fun GetEnabledLevel :: "filter_obj \<Rightarrow> level \<Rightarrow> level \<times> bool" where
  "GetEnabledLevel (StdFilter lt) l = StdFilter_GetEnabledLevel lt l"
| "GetEnabledLevel (CustomFilter cf) l = CustomFilter_GetEnabledLevel cf l"
| "GetEnabledLevel (ExtFilter f) l = f l"

text \<open>The contract of an application's own filter is a hypothesis on it.\<close>

definition ext_filter_ok :: "(level \<Rightarrow> level \<times> bool) \<Rightarrow> bool" where
  "ext_filter_ok f \<longleftrightarrow>
     (\<forall>a b. ID a = ID b \<longrightarrow> snd (f a) = snd (f b)) \<and> (\<forall>l. snd (f l) \<longrightarrow> ID (fst (f l)) = ID l)"

fun filter_obj_inv :: "filter_obj \<Rightarrow> bool" where
  "filter_obj_inv (StdFilter lt) = True"
| "filter_obj_inv (CustomFilter cf) = custom_filter_inv cf"
| "filter_obj_inv (ExtFilter f) = ext_filter_ok f"

lemma ext_filter_id_only:
  "ext_filter_ok f \<Longrightarrow> ID a = ID b \<Longrightarrow> snd (f a) = snd (f b)"
  unfolding ext_filter_ok_def by blast

lemma ext_filter_same_id: "ext_filter_ok f \<Longrightarrow> snd (f l) \<Longrightarrow> ID (fst (f l)) = ID l"
  unfolding ext_filter_ok_def by blast

lemma GetEnabledLevel_id_only:
  assumes "filter_obj_inv f" and "ID a = ID b"
  shows "snd (GetEnabledLevel f a) = snd (GetEnabledLevel f b)"
proof (cases f)
  case (ExtFilter g)
  with assms show ?thesis using ext_filter_id_only [of g a b] by simp
qed (use assms in \<open>simp_all add: StdFilter_IsEnabled_def\<close>)

lemma GetEnabledLevel_same_id:
  assumes "filter_obj_inv f" and "snd (GetEnabledLevel f l)"
  shows "ID (fst (GetEnabledLevel f l)) = ID l"
proof (cases f)
  case (ExtFilter g)
  with assms show ?thesis using ext_filter_same_id [of g l] by simp
qed (use assms in \<open>simp_all add: ID_fst_StdFilter ID_fst_CustomFilter\<close>)

interpretation filt: level_filter GetEnabledLevel filter_obj_inv
  by unfold_locales (erule (1) GetEnabledLevel_id_only, erule (1) GetEnabledLevel_same_id)

section \<open>Properties of the filters\<close>

text \<open>
  A \<^verbatim>\<open>StdFilter\<close> enables a level exactly if its ID is at most the threshold's, returns a level of
  the same ID, and asks for a stack trace exactly if the ID is at most the second threshold, or
  the level is a custom one (ID above \<^verbatim>\<open>trace\<close>) that asks for it itself.
\<close>

theorem std_filter_threshold:
  "snd (StdFilter_GetEnabledLevel lt l) = (unat (ID l) \<le> unat (ID (Lvl lt))) \<and>
   ID (fst (StdFilter_GetEnabledLevel lt l)) = (if unat (ID l) \<le> unat (ID (Lvl lt)) then ID l else 0) \<and>
   Stacktrace (fst (StdFilter_GetEnabledLevel lt l)) =
     (unat (ID l) \<le> unat (ID (StackLvl lt)) \<or>
      unat (ID l) \<le> unat (ID (Lvl lt)) \<and> Stacktrace l \<and> 6 < unat (ID l))"
proof -
  have "Stacktrace (std_level_of l) \<longleftrightarrow> Stacktrace l \<and> 6 < unat (ID l)"
    by (simp add: Stacktrace_std_level_of word_less_nat_alt)
  then show ?thesis
    by (auto simp: StdFilter_GetEnabledLevel_def Let_def word_le_nat_alt zero_level_def)
qed

text \<open>
  After \<^verbatim>\<open>Add\<close>, a \<^verbatim>\<open>CustomFilter\<close> answers with the last level added under the ID, under the name
  of the level asked about if it was added without a name; for IDs not added it answers as
  before.
\<close>

theorem custom_filter_last_added:
  "CustomFilter_GetEnabledLevel (CustomFilter_Add cf ls) l =
     (case find (\<lambda>x. ID x = ID l) (rev ls) of
        None \<Rightarrow> CustomFilter_GetEnabledLevel cf l
      | Some x \<Rightarrow> (if Name x = [] then x\<lparr>Name := Name l\<rparr> else x, True))"
  by (simp add: CustomFilter_GetEnabledLevel_def levels_get_Add split: option.split)

end
