(* ===== verification/Writers.thy ===== *)
theory Writers
  imports GoStrings Levels "HOL-Library.Sublist"
begin

text \<open>
  Output to an \<^verbatim>\<open>io.Writer\<close> (\<^verbatim>\<open>formatter.go\<close>, \<^verbatim>\<open>quoteString\<close> of \<^verbatim>\<open>field.go\<close>, \<^verbatim>\<open>buffer.go\<close>): the
  truncation of long values, the quoting rule, colours and stack traces. The interface
  \<^verbatim>\<open>io.Writer\<close> is the locale \<open>io_writer\<close>; inside it every routine is shown to append its
  whole rendering when it returns nil, and a prefix of it when it returns an error. The
  interpretation is on the in-memory buffer that the engine formats into.
\<close>

section \<open>Truncation\<close>

text \<open>\<^verbatim>\<open>LimitByteSlice\<close> and \<^verbatim>\<open>LimitString\<close>; the limit is a Go \<^verbatim>\<open>int\<close> and may be negative.\<close>

definition LimitByteSlice :: "bytes \<Rightarrow> int \<Rightarrow> bytes" where
  "LimitByteSlice b limit =
     (if 0 < limit \<and> limit < int (length b) then take (nat limit) b @ ''...'' else b)"

definition LimitString :: "string \<Rightarrow> int \<Rightarrow> string" where
  "LimitString b limit = LimitByteSlice b limit"

lemma LimitString_unlimited: "limit \<le> 0 \<Longrightarrow> LimitString s limit = s"
  by (simp add: LimitString_def LimitByteSlice_def)

lemma LimitString_short: "int (length s) \<le> limit \<Longrightarrow> LimitString s limit = s"
  by (simp add: LimitString_def LimitByteSlice_def)

lemma LimitString_long:
  "0 < limit \<Longrightarrow> limit < int (length s) \<Longrightarrow> LimitString s limit = take (nat limit) s @ ''...''"
  by (simp add: LimitString_def LimitByteSlice_def)

lemma length_LimitString_le: "0 < limit \<Longrightarrow> int (length (LimitString s limit)) \<le> limit + 3"
  by (auto simp: LimitString_def LimitByteSlice_def)

lemma LimitString_idem: "LimitString (LimitString s limit) limit = LimitString s limit"
  by (auto simp: LimitString_def LimitByteSlice_def)

section \<open>Writers\<close>

text \<open>
  \<^verbatim>\<open>Write(p)\<close> of a writer with state \<open>'s\<close>: the count and the error it returns, and the new
  state. An action on the writer returns an error or nil.
\<close>

type_synonym 's writer = "bytes \<Rightarrow> 's \<Rightarrow> (int \<times> go_error option) \<times> 's"
type_synonym 's io = "'s \<Rightarrow> go_error option \<times> 's"

text \<open>\<^verbatim>\<open>if _, err := w.Write(p); err != nil { return err }\<close>, and its sequencing.\<close>

definition write_io :: "'s writer \<Rightarrow> bytes \<Rightarrow> 's io" where
  "write_io w p st = (case w p st of ((n, err), st') \<Rightarrow> (err, st'))"

definition skip_io :: "'s io" where
  "skip_io st = (None, st)"

definition seq_io :: "'s io \<Rightarrow> 's io \<Rightarrow> 's io" where
  "seq_io a b st = (case a st of (Some e, st') \<Rightarrow> (Some e, st') | (None, st') \<Rightarrow> b st')"

text \<open>The method \<^verbatim>\<open>Writes\<close> of the type \<^verbatim>\<open>Writer\<close>: it also adds up the counts.\<close>

fun Writes_loop :: "'s writer \<Rightarrow> int \<Rightarrow> bytes list \<Rightarrow> 's \<Rightarrow> (int \<times> go_error option) \<times> 's" where
  "Writes_loop w count [] st = ((count, None), st)"
| "Writes_loop w count (e # elems) st =
     (case w e st of
        ((c, Some err), st') \<Rightarrow> ((count + c, Some err), st')
      | ((c, None), st') \<Rightarrow> Writes_loop w (count + c) elems st')"

definition Writes :: "'s writer \<Rightarrow> bytes list \<Rightarrow> 's \<Rightarrow> (int \<times> go_error option) \<times> 's" where
  "Writes w elems st = Writes_loop w 0 elems st"

definition writes_io :: "'s writer \<Rightarrow> bytes list \<Rightarrow> 's io" where
  "writes_io w elems st = (case Writes w elems st of ((n, err), st') \<Rightarrow> (err, st'))"

section \<open>Quotes\<close>

text \<open>
  \<^verbatim>\<open>shouldQuote\<close> looks at the runes of the value until one is not in the safe set.
\<close>

definition safe_rune :: "nat \<Rightarrow> bool" where
  "safe_rune c \<longleftrightarrow>
     (48 \<le> c \<and> c \<le> 57) \<or> (97 \<le> c \<and> c \<le> 122) \<or> (65 \<le> c \<and> c \<le> 90) \<or>
     c = 45 \<or> c = 46 \<or> c = 95 \<or> c = 47 \<or> c = 64 \<or> c = 94 \<or> c = 43"

fun shouldQuote_loop :: "nat list \<Rightarrow> bool" where
  "shouldQuote_loop [] = False"
| "shouldQuote_loop (c # cs) = (if \<not> safe_rune c then True else shouldQuote_loop cs)"

definition shouldQuote :: "string \<Rightarrow> bool" where
  "shouldQuote val = shouldQuote_loop (runes val)"

text \<open>The same test on bytes: every byte outside ASCII makes a rune that is not safe.\<close>

definition safe_char :: "char \<Rightarrow> bool" where
  "safe_char c \<longleftrightarrow> safe_rune (of_char c)"

lemma safe_rune_ascii: "safe_rune c \<Longrightarrow> c < 0x80"
  by (auto simp: safe_rune_def)

lemma shouldQuote_loop_runes_of:
  "shouldQuote_loop (runes_of s) \<longleftrightarrow> (\<exists>b \<in> set s. \<not> safe_rune b)"
proof (induction s rule: runes_of.induct)
  case (1 s)
  show ?case
  proof (cases s)
    case Nil
    then show ?thesis by (simp add: runes_of.simps)
  next
    case (Cons b t)
    show ?thesis
    proof (cases "b < 0x80")
      case True
      with 1 Cons show ?thesis
        by (simp add: runes_of.simps [of "b # t"] decode_rune_ascii)
    next
      case False
      then have "\<not> safe_rune b" and "\<not> safe_rune (fst (decode_rune (b # t)))"
        using safe_rune_ascii decode_rune_beyond_ascii [of b t] by force+
      with Cons show ?thesis by (simp add: runes_of.simps [of "b # t"])
    qed
  qed
qed

lemma shouldQuote_iff: "shouldQuote val \<longleftrightarrow> \<not> (\<forall>c \<in> set val. safe_char c)"
  by (simp add: shouldQuote_def runes_def shouldQuote_loop_runes_of safe_char_def)

lemma digits_safe: "is_digit c \<Longrightarrow> safe_char c"
  by (simp add: is_digit_def safe_char_def safe_rune_def)

definition Quote :: bytes where "Quote = [CHR 0x22]"
definition Space :: bytes where "Space = '' ''"
definition Newline :: bytes where "Newline = [CHR 0x0A]"
definition Equals :: bytes where "Equals = ''=''"
definition Comma :: bytes where "Comma = '',''"
definition Colon :: bytes where "Colon = '':''"

lemmas token_defs = Quote_def Space_def Newline_def Equals_def Comma_def Colon_def

definition quoteString :: "'s writer \<Rightarrow> string \<Rightarrow> (string \<Rightarrow> bool) \<Rightarrow> 's io" where
  "quoteString w s sq =
     (let b = sq s
      in seq_io (if b then write_io w Quote else skip_io)
           (seq_io (write_io w s)
              (if b then write_io w Quote else skip_io)))"

definition quoted :: "(string \<Rightarrow> bool) \<Rightarrow> string \<Rightarrow> bytes" where
  "quoted sq s = (if sq s then Quote @ s @ Quote else s)"

section \<open>Colours\<close>

definition AnsiColorPrefix :: bytes where "AnsiColorPrefix = CHR 0x1B # ''[''"
definition AnsiColorSuffix :: bytes where "AnsiColorSuffix = ''m''"

text \<open>The closure \<^verbatim>\<open>writer\<close> of \<^verbatim>\<open>WriteWithColor\<close>: it does nothing once \<^verbatim>\<open>err\<close> is set.\<close>

definition color_writer :: "'s writer \<Rightarrow> bytes \<Rightarrow> go_error option \<times> 's \<Rightarrow> go_error option \<times> 's" where
  "color_writer w buf p = (case p of (Some e, st) \<Rightarrow> (Some e, st) | (None, st) \<Rightarrow> write_io w buf st)"

definition color_code :: "uint8 \<Rightarrow> bytes" where
  "color_code c = dec_nat (unat c)"

definition WriteWithColor :: "'s writer \<Rightarrow> string \<Rightarrow> uint8 \<Rightarrow> 's io" where
  "WriteWithColor w s color st =
     (let p = (None, st);
          p = (if color \<noteq> NoColor
               then color_writer w AnsiColorSuffix
                      (color_writer w (color_code color) (color_writer w AnsiColorPrefix p))
               else p);
          p = (if fst p = None then write_io w s (snd p) else p)
      in if color \<noteq> NoColor
         then color_writer w AnsiColorSuffix
                (color_writer w (color_code NoColor) (color_writer w AnsiColorPrefix p))
         else p)"

definition colored :: "uint8 \<Rightarrow> string \<Rightarrow> bytes" where
  "colored c s =
     (if c \<noteq> NoColor
      then AnsiColorPrefix @ color_code c @ AnsiColorSuffix @ s @
           AnsiColorPrefix @ color_code NoColor @ AnsiColorSuffix
      else s)"

section \<open>Stack traces\<close>

text \<open>The fields of a \<^verbatim>\<open>runtime.Frame\<close> that the program reads.\<close>

record frame =
  Function :: string
  File :: string
  Line :: int

definition write_frame :: "'s writer \<Rightarrow> frame \<Rightarrow> 's io" where
  "write_frame w f =
     seq_io
       (if Function f \<noteq> [] then writes_io w [Space, Space, Function f, Newline] else skip_io)
       (if File f \<noteq> []
        then writes_io w [''      '', File f, Colon, dec_int (Line f), Newline] else skip_io)"

fun WriteStacktrace :: "'s writer \<Rightarrow> frame list \<Rightarrow> 's io" where
  "WriteStacktrace w [] = skip_io"
| "WriteStacktrace w (f # fs) = seq_io (write_frame w f) (WriteStacktrace w fs)"

definition frame_text :: "frame \<Rightarrow> bytes" where
  "frame_text f =
     (if Function f \<noteq> [] then ''  '' @ Function f @ Newline else []) @
     (if File f \<noteq> [] then ''      '' @ File f @ '':'' @ dec_int (Line f) @ Newline else [])"

section \<open>The interface io.Writer\<close>

text \<open>
  \<open>emits out_of a out\<close>: the action \<open>a\<close> appends \<open>out\<close> and returns nil, or appends a prefix of
  \<open>out\<close> and returns an error.
\<close>

definition emits :: "('s \<Rightarrow> bytes) \<Rightarrow> 's io \<Rightarrow> bytes \<Rightarrow> bool" where
  "emits out_of a out \<longleftrightarrow>
     (\<forall>st. case a st of
             (None, st') \<Rightarrow> out_of st' = out_of st @ out
           | (Some e, st') \<Rightarrow> \<exists>p. prefix p out \<and> out_of st' = out_of st @ p)"

lemma emitsI:
  assumes "\<And>st st'. a st = (None, st') \<Longrightarrow> out_of st' = out_of st @ out"
    and "\<And>st e st'. a st = (Some e, st') \<Longrightarrow> \<exists>p. prefix p out \<and> out_of st' = out_of st @ p"
  shows "emits out_of a out"
  unfolding emits_def by (auto split: prod.splits option.splits intro: assms)

lemma emits_None: "emits out_of a out \<Longrightarrow> a st = (None, st') \<Longrightarrow> out_of st' = out_of st @ out"
  unfolding emits_def by (drule spec [of _ st]) simp

lemma emits_Some:
  "emits out_of a out \<Longrightarrow> a st = (Some e, st') \<Longrightarrow>
   \<exists>p. prefix p out \<and> out_of st' = out_of st @ p"
  unfolding emits_def by (drule spec [of _ st]) simp

lemma emits_skip: "emits out_of skip_io []"
  by (rule emitsI) (simp_all add: skip_io_def)

lemma emits_seq:
  assumes "emits out_of a x" and "emits out_of b y"
  shows "emits out_of (seq_io a b) (x @ y)"
proof (rule emitsI)
  fix st st'
  assume "seq_io a b st = (None, st')"
  then obtain st1 where "a st = (None, st1)" and "b st1 = (None, st')"
    by (auto simp: seq_io_def split: prod.splits option.splits)
  with assms show "out_of st' = out_of st @ x @ y" by (simp add: emits_None)
next
  fix st e st'
  assume *: "seq_io a b st = (Some e, st')"
  show "\<exists>p. prefix p (x @ y) \<and> out_of st' = out_of st @ p"
  proof (cases "fst (a st)")
    case None
    then obtain st1 where st1: "a st = (None, st1)" by (cases "a st") auto
    with * have "b st1 = (Some e, st')" by (simp add: seq_io_def)
    with assms(2) obtain q where "prefix q y" "out_of st' = out_of st1 @ q"
      by (meson emits_Some)
    with assms(1) st1 show ?thesis by (intro exI [of _ "x @ q"]) (simp add: emits_None)
  next
    case (Some e')
    with * have "a st = (Some e, st')"
      by (cases "a st") (auto simp: seq_io_def)
    with assms(1) obtain p where "prefix p x" "out_of st' = out_of st @ p"
      by (meson emits_Some)
    then show ?thesis by (meson prefix_order.trans prefixI)
  qed
qed

lemma emits_if:
  "(c \<Longrightarrow> emits out_of a x) \<Longrightarrow> (\<not> c \<Longrightarrow> emits out_of b y) \<Longrightarrow>
   emits out_of (if c then a else b) (if c then x else y)"
  by simp

text \<open>The closure's error threading is the sequencing of the actions.\<close>

lemma WriteWithColor_seq:
  "WriteWithColor w s c =
     (if c \<noteq> NoColor
      then seq_io (write_io w AnsiColorPrefix)
             (seq_io (write_io w (color_code c))
               (seq_io (write_io w AnsiColorSuffix)
                 (seq_io (write_io w s)
                   (seq_io (write_io w AnsiColorPrefix)
                     (seq_io (write_io w (color_code NoColor)) (write_io w AnsiColorSuffix))))))
      else write_io w s)"
  by (rule ext)
     (auto simp: WriteWithColor_def seq_io_def color_writer_def Let_def
        split: prod.splits option.splits)

locale io_writer =
  fixes w :: "'s writer"
    and out_of :: "'s \<Rightarrow> bytes"
  assumes write_ok: "w p st = ((n, None), st') \<Longrightarrow> n = int (length p) \<and> out_of st' = out_of st @ p"
    and write_err: "w p st = ((n, Some e), st') \<Longrightarrow>
          0 \<le> n \<and> n \<le> int (length p) \<and> out_of st' = out_of st @ take (nat n) p"
begin

lemma emits_write: "emits out_of (write_io w p) p"
proof (rule emitsI)
  fix st st'
  assume "write_io w p st = (None, st')"
  then show "out_of st' = out_of st @ p"
    by (auto simp: write_io_def split: prod.splits dest: write_ok)
next
  fix st e st'
  assume "write_io w p st = (Some e, st')"
  then obtain n where "w p st = ((n, Some e), st')"
    by (auto simp: write_io_def split: prod.splits)
  then show "\<exists>q. prefix q p \<and> out_of st' = out_of st @ q"
    by (auto dest!: write_err intro: take_is_prefix)
qed

lemma Writes_loop_spec:
  "case Writes_loop w count elems st of
     ((n, None), st') \<Rightarrow> n = count + int (length (concat elems)) \<and> out_of st' = out_of st @ concat elems
   | ((n, Some e), st') \<Rightarrow>
       \<exists>p. prefix p (concat elems) \<and> n = count + int (length p) \<and> out_of st' = out_of st @ p"
proof (induction elems arbitrary: count st)
  case Nil
  show ?case by simp
next
  case (Cons e elems)
  obtain c err st1 where w: "w e st = ((c, err), st1)" by (cases "w e st") auto
  show ?case
  proof (cases err)
    case None
    with w have c: "c = int (length e)" "out_of st1 = out_of st @ e" by (simp_all add: write_ok)
    from Cons.IH [of "count + c" st1] None w c show ?thesis
      by (auto split: prod.splits option.splits simp: prefix_def)
  next
    case (Some er)
    with w write_err [of e st c er st1] show ?thesis
      by (auto intro!: exI [of _ "take (nat c) e"] prefix_prefix take_is_prefix)
  qed
qed

lemma emits_writes: "emits out_of (writes_io w elems) (concat elems)"
  using Writes_loop_spec [of 0 elems]
  by (intro emitsI) (force simp: writes_io_def Writes_def split: prod.splits option.splits)+

lemma emits_quoteString: "emits out_of (quoteString w s sq) (quoted sq s)"
  using emits_seq [OF emits_write [of Quote] emits_seq [OF emits_write [of s] emits_write [of Quote]]]
    emits_seq [OF emits_skip emits_seq [OF emits_write [of s] emits_skip]]
  by (simp add: quoteString_def quoted_def Let_def)

lemma emits_WriteWithColor: "emits out_of (WriteWithColor w s c) (colored c s)"
  unfolding WriteWithColor_seq colored_def
  by (intro emits_if emits_seq emits_write)

lemma emits_write_frame: "emits out_of (write_frame w f) (frame_text f)"
  unfolding write_frame_def frame_text_def
  by (rule emits_seq; rule emits_if)
     (use emits_writes [of "[Space, Space, Function f, Newline]"]
          emits_writes [of "[''      '', File f, Colon, dec_int (Line f), Newline]"]
      in \<open>simp_all add: emits_skip token_defs\<close>)

lemma emits_WriteStacktrace: "emits out_of (WriteStacktrace w fs) (concat (map frame_text fs))"
  by (induction fs) (simp_all add: emits_skip emits_seq emits_write_frame)

end

section \<open>In-memory buffers\<close>

text \<open>
  A \<^verbatim>\<open>bytes.Buffer\<close>: what was written and not yet read. Its \<^verbatim>\<open>Write\<close> never fails. The type
  \<^verbatim>\<open>Buffer\<close> of \<^verbatim>\<open>buffer.go\<close> guards each call with a mutex, which makes it atomic.
\<close>

definition buffer_Write :: "bytes writer" where
  "buffer_Write p b = ((int (length p), None), b @ p)"

definition buffer_Read :: "nat \<Rightarrow> bytes \<Rightarrow> (bytes \<times> go_error option) \<times> bytes" where
  "buffer_Read n b =
     (if b = [] then (([], if n = 0 then None else Some (ForeignError ''EOF'')), [])
      else ((take n b, None), drop n b))"

definition buffer_String :: "bytes \<Rightarrow> string" where
  "buffer_String b = b"

interpretation buf: io_writer buffer_Write "\<lambda>b. b"
  by unfold_locales (auto simp: buffer_Write_def)

text \<open>A routine that never fails on a buffer appends its rendering.\<close>

lemma buffer_write_io [writer_simps]: "write_io buffer_Write p b = (None, b @ p)"
  by (simp add: write_io_def buffer_Write_def)

lemma buffer_seq_io [writer_simps]:
  "a b = (None, b') \<Longrightarrow> seq_io a c b = c b'"
  by (simp add: seq_io_def)

lemma buffer_skip_io [writer_simps]: "skip_io b = (None, b)"
  by (simp add: skip_io_def)

lemma buffer_Writes_loop:
  "Writes_loop buffer_Write n ps b = ((n + int (length (concat ps)), None), b @ concat ps)"
  by (induction ps arbitrary: n b) (simp_all add: buffer_Write_def)

lemma buffer_writes_io [writer_simps]: "writes_io buffer_Write ps b = (None, b @ concat ps)"
  by (simp add: writes_io_def Writes_def buffer_Writes_loop)

lemma buffer_quoteString [writer_simps]:
  "quoteString buffer_Write s sq b = (None, b @ quoted sq s)"
  by (simp add: quoteString_def quoted_def writer_simps Let_def)

lemma buffer_WriteWithColor [writer_simps]:
  "WriteWithColor buffer_Write s c b = (None, b @ colored c s)"
  by (simp add: WriteWithColor_seq colored_def writer_simps)

lemma buffer_write_frame [writer_simps]:
  "write_frame buffer_Write f b = (None, b @ frame_text f)"
  by (simp add: write_frame_def frame_text_def writer_simps token_defs)

lemma buffer_WriteStacktrace [writer_simps]:
  "WriteStacktrace buffer_Write fs b = (None, b @ concat (map frame_text fs))"
  by (induction fs arbitrary: b) (simp_all add: writer_simps)

section \<open>Properties of limits and quotes\<close>

text \<open>
  \<^verbatim>\<open>LimitString\<close> keeps a string within a positive limit, cuts a longer one to the limit and three
  dots, never limits with a limit that is not positive, and limiting again changes nothing.
\<close>

theorem limit_string_spec:
  "LimitString s limit =
     (if 0 < limit \<and> limit < int (length s) then take (nat limit) s @ ''...'' else s) \<and>
   LimitString (LimitString s limit) limit = LimitString s limit \<and>
   int (length (LimitString s limit)) \<le> max (limit + 3) (if limit \<le> 0 then int (length s) else 0)"
  using length_LimitString_le [of limit s] LimitString_unlimited [of limit s]
  by (auto simp: LimitString_idem) (auto simp: LimitString_def LimitByteSlice_def)

text \<open>
  Whether \<^verbatim>\<open>shouldQuote\<close> asks for quotes, which it decides rune by rune, depends on the bytes
  alone: it does unless every byte is a digit, an ASCII letter or one of \<^verbatim>\<open>- . _ / @ ^ +\<close>; malformed
  UTF-8 is always quoted.
\<close>

theorem should_quote_bytes:
  "shouldQuote val \<longleftrightarrow>
     (\<exists>c\<in>set val. c \<notin> set ''0123456789abcdefghijklmnopqrstuvwxyzABCDEFGHIJKLMNOPQRSTUVWXYZ-._/@^+'')"
proof -
  define S where
    "S = ''0123456789abcdefghijklmnopqrstuvwxyzABCDEFGHIJKLMNOPQRSTUVWXYZ-._/@^+''"
  have "map of_char S = [48..<58] @ [97..<123] @ [65..<91] @ [45, 46, 95, 47, 64, 94, 43::nat]"
    unfolding S_def by (simp add: upt_rec_numeral)
  then have codes: "(of_char ` set S :: nat set) =
      set ([48..<58] @ [97..<123] @ [65..<91] @ [45, 46, 95, 47, 64, 94, 43])"
    by (simp only: list.set_map [symmetric])
  have safe: "safe_rune n \<longleftrightarrow>
      n \<in> set ([48..<58] @ [97..<123] @ [65..<91] @ [45, 46, 95, 47, 64, 94, 43])" for n
    unfolding safe_rune_def set_append set_upt by auto
  have "safe_char c \<longleftrightarrow> c \<in> set S" for c
  proof -
    have "c \<in> set S \<longleftrightarrow> (of_char c :: nat) \<in> of_char ` set S"
      by (auto simp: of_char_eq_iff)
    then show ?thesis
      unfolding codes safe_char_def safe by blast
  qed
  then show ?thesis
    unfolding S_def [symmetric] by (simp add: shouldQuote_iff)
qed

end
