(* ===== verification/LogFields.thy ===== *)
theory LogFields
  imports Writers "HOL-Library.Multiset"
begin

text \<open>
  Log fields (\<^verbatim>\<open>field.go\<close>, \<^verbatim>\<open>fieldapi.go\<close>): the dynamic values a field may hold, the typed
  constructors, the type switch of \<^verbatim>\<open>Any\<close>, and \<^verbatim>\<open>ValueString\<close>, which renders a field on a
  writer.
\<close>

section \<open>Dynamic values\<close>

text \<open>
  An instant, as seconds and nanoseconds since the Unix epoch, and the offset of its
  location in seconds.
\<close>

record gotime =
  secs :: int
  nanos :: int
  zone :: int

text \<open>
  A value of type \<^verbatim>\<open>interface{}\<close>, by the types that the program tells apart. Floats are
  their IEEE bit patterns (a \<^verbatim>\<open>float32\<close> is held as the \<^verbatim>\<open>float64\<close> it converts to). \<open>PtrVal\<close> is a
  pointer to a basic value, a \<^verbatim>\<open>time.Time\<close> or a \<^verbatim>\<open>time.Duration\<close>, the pointers that the switch of
  \<^verbatim>\<open>fieldForAny\<close> lists; \<open>None\<close> is the nil pointer. \<open>PtrCloner\<close>, \<open>PtrWriter\<close> and \<open>PtrStringer\<close> are
  pointers to variables of the three interface types. \<open>ObjVal\<close> is a value of a type the
  application defines, by the methods it has: what \<^verbatim>\<open>LogClone\<close> returns, the chunks that
  \<^verbatim>\<open>LogWrite\<close> writes and the error it ends with, and the texts of \<^verbatim>\<open>Error\<close> and \<^verbatim>\<open>String\<close>; the
  last component names the type. \<open>LimitedStringer\<close> is the wrapper of \<^verbatim>\<open>formatter.go\<close>.
\<close>

datatype goval =
    NilVal
  | BoolVal bool
  | Float64Val "64 word"
  | Float32Val "64 word"
  | IntVal "64 word"
  | Int64Val "64 word"
  | Int32Val "32 word"
  | Int16Val "16 word"
  | Int8Val "8 word"
  | StringVal string
  | UintVal "64 word"
  | Uint64Val "64 word"
  | Uint32Val "32 word"
  | Uint16Val "16 word"
  | Uint8Val "8 word"
  | BytesVal "bytes option"
  | TimeVal gotime
  | DurationVal int64
  | PtrVal "goval option"
  | PtrCloner "goval option"
  | PtrWriter "goval option"
  | PtrStringer "goval option"
  | SliceVal "goval list"
  | MapVal "(goval \<times> goval) list"
  | LimitedStringer goval int
  | ObjVal (objClone: "goval option") (objWrite: "(bytes list \<times> go_error option) option")
      (objError: "string option") (objString: "string option") (objType: string)

text \<open>
  The renderings of the standard library that stay parameters: \<^verbatim>\<open>%v\<close>, the shortest decimal
  form of a float of a given size, a time in a layout, a duration, and \<^verbatim>\<open>time.Time.String\<close>.
\<close>

record fmt_env =
  sprint_v :: "goval \<Rightarrow> string"
  format_float :: "64 word \<Rightarrow> nat \<Rightarrow> string"
  format_time :: "gotime \<Rightarrow> string \<Rightarrow> string"
  duration_string :: "int64 \<Rightarrow> string"
  time_string :: "gotime \<Rightarrow> string"

text \<open>A renderer as simple as can be, for the concrete runs of the development.\<close>

definition demo_env :: fmt_env where
  "demo_env = \<lparr>sprint_v = (\<lambda>v. ''?''), format_float = (\<lambda>w b. ''0''), format_time = (\<lambda>t l. ''now''),
     duration_string = (\<lambda>d. ''0s''), time_string = (\<lambda>t. ''now'')\<rparr>"

text \<open>The method \<^verbatim>\<open>String\<close> of a \<^verbatim>\<open>LimitedStringer\<close>, on the text of the \<^verbatim>\<open>Stringer\<close> it embeds.\<close>

definition LimitedStringer_String :: "string \<Rightarrow> int \<Rightarrow> string" where
  "LimitedStringer_String s limit = LimitString s limit"

text \<open>The type assertions \<^verbatim>\<open>v.(LogWriter)\<close> and \<^verbatim>\<open>v.(fmt.Stringer)\<close>, the latter with the text it gives.\<close>

fun as_LogWriter :: "goval \<Rightarrow> (bytes list \<times> go_error option) option" where
  "as_LogWriter (ObjVal c wr e s ty) = wr"
| "as_LogWriter _ = None"

fun as_Stringer :: "fmt_env \<Rightarrow> goval \<Rightarrow> string option" where
  "as_Stringer env (ObjVal c wr e s ty) = s"
| "as_Stringer env (TimeVal t) = Some (time_string env t)"
| "as_Stringer env (DurationVal d) = Some (duration_string env d)"
| "as_Stringer env (LimitedStringer v limit) =
     map_option (\<lambda>s. LimitedStringer_String s limit) (as_Stringer env v)"
| "as_Stringer env _ = None"

section \<open>Fields\<close>

datatype field_type =
    UnknownType | StringType | StringerType | StructType | ErrorType | BoolType
  | TimestampMillisType | TimeType | DurationType | Int64Type | Int32Type | IntType
  | Uint64Type | Uint32Type | UintType | Float64Type | Float32Type | BinaryType
  | ArrayType | MapType
  | OtherType uint8 \<comment> \<open>a value of the underlying \<^verbatim>\<open>uint8\<close> that names no type\<close>

record field =
  Key :: string
  FType :: field_type
  Integer :: int64
  Float :: "64 word"
  FString :: string
  Interface :: goval

definition zero_field :: field where
  "zero_field = \<lparr>Key = [], FType = UnknownType, Integer = 0, Float = 0, FString = [],
     Interface = NilVal\<rparr>"

definition int_field :: "field_type \<Rightarrow> string \<Rightarrow> int64 \<Rightarrow> field" where
  "int_field t k v = zero_field\<lparr>Key := k, FType := t, Integer := v\<rparr>"

definition iface_field :: "field_type \<Rightarrow> string \<Rightarrow> goval \<Rightarrow> field" where
  "iface_field t k v = zero_field\<lparr>Key := k, FType := t, Interface := v\<rparr>"

text \<open>
  The constructors of \<^verbatim>\<open>fieldapi.go\<close>. A conversion \<^verbatim>\<open>int64(val)\<close> extends the sign of a signed
  value, extends an unsigned one with zeros, and keeps the bits of a \<^verbatim>\<open>uint64\<close>.
\<close>

definition Int64 :: "string \<Rightarrow> int64 \<Rightarrow> field" where
  "Int64 k v = int_field Int64Type k v"

definition Int32 :: "string \<Rightarrow> 32 word \<Rightarrow> field" where
  "Int32 k v = int_field Int32Type k (scast v)"

definition IntOf :: "string \<Rightarrow> 'a::len word \<Rightarrow> field" where
  "IntOf k v = int_field IntType k (scast v)"

definition Uint64 :: "string \<Rightarrow> 64 word \<Rightarrow> field" where
  "Uint64 k v = int_field Uint64Type k v"

definition Uint32 :: "string \<Rightarrow> 32 word \<Rightarrow> field" where
  "Uint32 k v = int_field Uint32Type k (ucast v)"

definition UintOf :: "string \<Rightarrow> 'a::len word \<Rightarrow> field" where
  "UintOf k v = int_field UintType k (ucast v)"

definition Float64 :: "string \<Rightarrow> 64 word \<Rightarrow> field" where
  "Float64 k v = zero_field\<lparr>Key := k, FType := Float64Type, Float := v\<rparr>"

definition Float32 :: "string \<Rightarrow> 64 word \<Rightarrow> field" where
  "Float32 k v = zero_field\<lparr>Key := k, FType := Float32Type, Float := v\<rparr>"

text \<open>The generic \<^verbatim>\<open>Float\<close> sets \<^verbatim>\<open>Float32Type\<close>, whatever the size of its argument.\<close>

definition FloatOf :: "string \<Rightarrow> 64 word \<Rightarrow> field" where
  "FloatOf k v = zero_field\<lparr>Key := k, FType := Float32Type, Float := v\<rparr>"

definition StringOf :: "string \<Rightarrow> string \<Rightarrow> field" where
  "StringOf k v = zero_field\<lparr>Key := k, FType := StringType, FString := v\<rparr>"

definition Stringer :: "string \<Rightarrow> goval \<Rightarrow> field" where
  "Stringer k v = iface_field StringerType k v"

definition NamedErr :: "string \<Rightarrow> goval \<Rightarrow> field" where
  "NamedErr k e = iface_field ErrorType k e"

definition Err :: "goval \<Rightarrow> field" where
  "Err e = NamedErr ''error'' e"

definition Bool :: "string \<Rightarrow> bool \<Rightarrow> field" where
  "Bool k v = int_field BoolType k (if v then 1 else 0)"

definition Time :: "string \<Rightarrow> gotime \<Rightarrow> field" where
  "Time k v = iface_field TimeType k (TimeVal v)"

definition Duration :: "string \<Rightarrow> int64 \<Rightarrow> field" where
  "Duration k v = int_field DurationType k v"

definition Millis :: "string \<Rightarrow> int64 \<Rightarrow> field" where
  "Millis k v = int_field TimestampMillisType k v"

definition Array :: "string \<Rightarrow> goval \<Rightarrow> field" where
  "Array k v = iface_field ArrayType k v"

definition Map :: "string \<Rightarrow> goval \<Rightarrow> field" where
  "Map k v = iface_field MapType k v"

definition nilField :: "string \<Rightarrow> field" where
  "nilField k = StringOf k []"

lemmas field_defs = zero_field_def int_field_def iface_field_def Int64_def Int32_def IntOf_def
  Uint64_def Uint32_def UintOf_def Float64_def Float32_def FloatOf_def StringOf_def Stringer_def
  NamedErr_def Err_def Bool_def Time_def Duration_def Millis_def Array_def Map_def nilField_def

section \<open>The type switch of Any\<close>

text \<open>
  \<^verbatim>\<open>int16\<close> and \<^verbatim>\<open>int8\<close> go through \<^verbatim>\<open>int32\<close>, \<^verbatim>\<open>uint16\<close> and \<^verbatim>\<open>uint8\<close> through \<^verbatim>\<open>uint32\<close>. A value matches the
  first case whose type or interface it has, so \<open>ObjVal\<close> is taken apart in the order
  \<^verbatim>\<open>LogCloner\<close>, \<^verbatim>\<open>LogWriter\<close>, \<^verbatim>\<open>error\<close>, \<^verbatim>\<open>fmt.Stringer\<close>. The nil checks of the interface cases never
  fire: a nil interface matches no case but the default. \<^verbatim>\<open>*LogCloner\<close> of a variable that
  holds nil panics on the call; \<open>PtrVal\<close> of \<open>Some v\<close> is \<^verbatim>\<open>*v\<close>, handled like \<open>v\<close>. (The listed
  type \<^verbatim>\<open>*time.Time\<close> is a \<open>PtrVal\<close>: it also has the method \<^verbatim>\<open>String\<close>, but its case comes first.)
\<close>

fun fieldForAny :: "string \<Rightarrow> goval \<Rightarrow> field outcome" where
  "fieldForAny k (ObjVal c wr e s ty) =
     (case c of Some cl \<Rightarrow> Ret (iface_field StructType k cl)
      | None \<Rightarrow> (case wr of Some _ \<Rightarrow> Ret (iface_field StructType k (ObjVal c wr e s ty))
      | None \<Rightarrow> (case e of Some _ \<Rightarrow> Ret (NamedErr k (ObjVal c wr e s ty))
      | None \<Rightarrow> (case s of Some _ \<Rightarrow> Ret (iface_field StringerType k (ObjVal c wr e s ty))
      | None \<Rightarrow> Ret (iface_field UnknownType k (ObjVal c wr e s ty))))))"
| "fieldForAny k (PtrCloner None) = Ret (nilField k)"
| "fieldForAny k (PtrCloner (Some v)) =
     (case v of ObjVal (Some cl) wr e s ty \<Rightarrow> Ret (iface_field StructType k cl)
      | _ \<Rightarrow> Panics ''invalid memory address or nil pointer dereference'')"
| "fieldForAny k (PtrWriter None) = Ret (nilField k)"
| "fieldForAny k (PtrWriter (Some v)) = Ret (iface_field StructType k v)"
| "fieldForAny k (BoolVal b) = Ret (Bool k b)"
| "fieldForAny k (Float64Val x) = Ret (FloatOf k x)"
| "fieldForAny k (Float32Val x) = Ret (FloatOf k x)"
| "fieldForAny k (IntVal i) = Ret (IntOf k i)"
| "fieldForAny k (Int64Val i) = Ret (IntOf k i)"
| "fieldForAny k (Int32Val i) = Ret (IntOf k i)"
| "fieldForAny k (Int16Val i) = Ret (IntOf k (scast i :: 32 word))"
| "fieldForAny k (Int8Val i) = Ret (IntOf k (scast i :: 32 word))"
| "fieldForAny k (StringVal s) = Ret (StringOf k s)"
| "fieldForAny k (UintVal i) = Ret (UintOf k i)"
| "fieldForAny k (Uint64Val i) = Ret (UintOf k i)"
| "fieldForAny k (Uint32Val i) = Ret (UintOf k i)"
| "fieldForAny k (Uint16Val i) = Ret (UintOf k (ucast i :: 32 word))"
| "fieldForAny k (Uint8Val i) = Ret (UintOf k (ucast i :: 32 word))"
| "fieldForAny k (BytesVal None) = Ret (nilField k)"
| "fieldForAny k (BytesVal (Some b)) = Ret (iface_field BinaryType k (BytesVal (Some b)))"
| "fieldForAny k (TimeVal t) = Ret (Time k t)"
| "fieldForAny k (DurationVal d) = Ret (Duration k d)"
| "fieldForAny k (PtrVal None) = Ret (nilField k)"
| "fieldForAny k (PtrVal (Some v)) = fieldForAny k v"
| "fieldForAny k (LimitedStringer v n) = Ret (iface_field StringerType k (LimitedStringer v n))"
| "fieldForAny k (PtrStringer None) = Ret (nilField k)"
| "fieldForAny k (PtrStringer (Some v)) = Ret (iface_field StringerType k v)"
| "fieldForAny k NilVal = Ret (iface_field UnknownType k NilVal)"
| "fieldForAny k (SliceVal vs) = Ret (iface_field UnknownType k (SliceVal vs))"
| "fieldForAny k (MapVal kvs) = Ret (iface_field UnknownType k (MapVal kvs))"

definition Any :: "string \<Rightarrow> goval \<Rightarrow> field outcome" where
  "Any k v = fieldForAny k v"

section \<open>ValueString\<close>

text \<open>
  What \<^verbatim>\<open>reflect\<close> does with the value of an array or map field. The items of a slice; a value
  of another kind makes \<^verbatim>\<open>a.Len()\<close> panic. The entries of a map, in the order its iterator
  visits them; \<^verbatim>\<open>reflect.Value.String\<close> of a key is its text only if the key is a string.
\<close>

fun reflect_items :: "goval \<Rightarrow> goval list outcome" where
  "reflect_items (SliceVal vs) = Ret vs"
| "reflect_items (BytesVal b) = Ret (map (\<lambda>c. Uint8Val (of_char c)) (case b of None \<Rightarrow> [] | Some cs \<Rightarrow> cs))"
| "reflect_items (StringVal s) = Ret (map (\<lambda>c. Uint8Val (of_char c)) s)"
| "reflect_items _ = Panics ''reflect: call of reflect.Value.Len on zero Value or scalar''"

fun reflect_entries :: "goval \<Rightarrow> (goval \<times> goval) list outcome" where
  "reflect_entries (MapVal kvs) = Ret kvs"
| "reflect_entries _ = Panics ''reflect: call of reflect.Value.MapRange on a value that is no map''"

fun type_name :: "goval \<Rightarrow> string" where
  "type_name NilVal = ''invalid''"
| "type_name (BoolVal _) = ''bool''"
| "type_name (Float64Val _) = ''float64''"
| "type_name (Float32Val _) = ''float32''"
| "type_name (IntVal _) = ''int''"
| "type_name (Int64Val _) = ''int64''"
| "type_name (Int32Val _) = ''int32''"
| "type_name (Int16Val _) = ''int16''"
| "type_name (Int8Val _) = ''int8''"
| "type_name (StringVal _) = ''string''"
| "type_name (UintVal _) = ''uint''"
| "type_name (Uint64Val _) = ''uint64''"
| "type_name (Uint32Val _) = ''uint32''"
| "type_name (Uint16Val _) = ''uint16''"
| "type_name (Uint8Val _) = ''uint8''"
| "type_name (BytesVal _) = ''[]uint8''"
| "type_name (TimeVal _) = ''time.Time''"
| "type_name (DurationVal _) = ''time.Duration''"
| "type_name (PtrVal _) = ''*T''"
| "type_name (PtrCloner _) = ''*logr.LogCloner''"
| "type_name (PtrWriter _) = ''*logr.LogWriter''"
| "type_name (PtrStringer _) = ''*fmt.Stringer''"
| "type_name (SliceVal _) = ''[]T''"
| "type_name (MapVal _) = ''map''"
| "type_name (LimitedStringer _ _) = ''*logr.LimitedStringer''"
| "type_name (ObjVal _ _ _ _ ty) = ty"

fun reflect_String :: "goval \<Rightarrow> string" where
  "reflect_String (StringVal s) = s"
| "reflect_String v = ''<'' @ type_name v @ '' Value>''"

text \<open>A \<^verbatim>\<open>LogWriter\<close> writes its chunks in order and then returns its error.\<close>

fun chunks_io :: "'s writer \<Rightarrow> bytes list \<Rightarrow> go_error option \<Rightarrow> 's io" where
  "chunks_io w [] err = (\<lambda>st. (err, st))"
| "chunks_io w (c # cs) err = seq_io (write_io w c) (chunks_io w cs err)"

definition LogWrite :: "'s writer \<Rightarrow> bytes list \<times> go_error option \<Rightarrow> 's io" where
  "LogWrite w lw = chunks_io w (fst lw) (snd lw)"

text \<open>The inner switch of the array and map cases.\<close>

definition item_io :: "fmt_env \<Rightarrow> 's writer \<Rightarrow> (string \<Rightarrow> bool) \<Rightarrow> goval \<Rightarrow> 's io" where
  "item_io env w sq v =
     (case as_LogWriter v of
        Some lw \<Rightarrow> LogWrite w lw
      | None \<Rightarrow> (case as_Stringer env v of
          Some s \<Rightarrow> quoteString w s sq
        | None \<Rightarrow> quoteString w (sprint_v env v) sq))"

text \<open>The loops: a comma after every item but the last.\<close>

fun array_io :: "fmt_env \<Rightarrow> 's writer \<Rightarrow> (string \<Rightarrow> bool) \<Rightarrow> goval list \<Rightarrow> 's io" where
  "array_io env w sq [] = skip_io"
| "array_io env w sq (v # vs) =
     seq_io (item_io env w sq v)
       (if vs = [] then skip_io else seq_io (write_io w Comma) (array_io env w sq vs))"

fun map_io :: "fmt_env \<Rightarrow> 's writer \<Rightarrow> (string \<Rightarrow> bool) \<Rightarrow> (goval \<times> goval) list \<Rightarrow> 's io" where
  "map_io env w sq [] = skip_io"
| "map_io env w sq ((k, v) # kvs) =
     seq_io (write_io w (reflect_String k))
       (seq_io (write_io w Equals)
         (seq_io (item_io env w sq v)
           (if kvs = [] then skip_io else seq_io (write_io w Comma) (map_io env w sq kvs))))"

definition fail_io :: "go_error \<Rightarrow> 's io" where
  "fail_io e st = (Some e, st)"

definition TimestampMillisFormat :: string where
  "TimestampMillisFormat = ''Jan _2 15:04:05.000''"

definition DefTimestampFormat :: string where
  "DefTimestampFormat = ''2006-01-02 15:04:05.000 Z07:00''"

text \<open>
  \<^verbatim>\<open>time.Unix(sec, nsec)\<close> moves the nanoseconds into their range. Go's division of integers
  truncates towards zero, and so \<^verbatim>\<open>%\<close> has the sign of the dividend.
\<close>

definition time_Unix :: "int \<Rightarrow> int \<Rightarrow> gotime" where
  "time_Unix sec nsec =
     \<lparr>secs = sec + nsec div 1000000000, nanos = nsec mod 1000000000, zone = 0\<rparr>"

definition go_quot :: "int \<Rightarrow> int \<Rightarrow> int" where
  "go_quot a b = sgn a * sgn b * (\<bar>a\<bar> div \<bar>b\<bar>)"

definition go_rem :: "int \<Rightarrow> int \<Rightarrow> int" where
  "go_rem a b = a - b * go_quot a b"

definition millis_time :: "int64 \<Rightarrow> gotime" where
  "millis_time ms =
     time_Unix (go_quot (sint ms) 1000)
       (sint (word_of_int (go_rem (sint ms) 1000) * 1000000 :: int64))"

text \<open>
  \<^verbatim>\<open>ValueString\<close>; \<open>None\<close> for \<open>shouldQuote\<close> is the nil callback. The type switch is on the field's
  type tag; the value is then asserted to be of a matching kind.
\<close>

definition ValueString ::
  "fmt_env \<Rightarrow> field \<Rightarrow> 's writer \<Rightarrow> (string \<Rightarrow> bool) option \<Rightarrow> 's io outcome" where
  "ValueString env f w shouldQuote_opt =
     (let sq = (case shouldQuote_opt of None \<Rightarrow> (\<lambda>s. False) | Some q \<Rightarrow> q)
      in case FType f of
        StringType \<Rightarrow> Ret (quoteString w (FString f) sq)
      | StringerType \<Rightarrow>
          Ret (case as_Stringer env (Interface f) of
                 Some s \<Rightarrow> quoteString w s sq
               | None \<Rightarrow>
                   if Interface f = NilVal then quoteString w [] sq
                   else fail_io (ErrorText (''invalid fmt.Stringer for key '' @ Key f)))
      | StructType \<Rightarrow>
          Ret (case as_LogWriter (Interface f) of
                 Some lw \<Rightarrow> LogWrite w lw
               | None \<Rightarrow> write_io w (sprint_v env (Interface f)))
      | ErrorType \<Rightarrow> Ret (quoteString w (sprint_v env (Interface f)) sq)
      | BoolType \<Rightarrow> Ret (write_io w (FormatBool (Integer f \<noteq> 0)))
      | TimestampMillisType \<Rightarrow>
          Ret (quoteString w (format_time env (millis_time (Integer f)) TimestampMillisFormat) sq)
      | TimeType \<Rightarrow>
          Ret (case Interface f of
                 TimeVal t \<Rightarrow> quoteString w (format_time env t DefTimestampFormat) sq
               | _ \<Rightarrow> fail_io (ErrorText ''invalid time''))
      | DurationType \<Rightarrow> Ret (write_io w (duration_string env (Integer f)))
      | Int64Type \<Rightarrow> Ret (write_io w (FormatInt (Integer f)))
      | Int32Type \<Rightarrow> Ret (write_io w (FormatInt (Integer f)))
      | IntType \<Rightarrow> Ret (write_io w (FormatInt (Integer f)))
      | Uint64Type \<Rightarrow> Ret (write_io w (FormatUint (Integer f)))
      | Uint32Type \<Rightarrow> Ret (write_io w (FormatUint (Integer f)))
      | UintType \<Rightarrow> Ret (write_io w (FormatUint (Integer f)))
      | Float64Type \<Rightarrow> Ret (quoteString w (format_float env (Float f) 64) sq)
      | Float32Type \<Rightarrow> Ret (quoteString w (format_float env (Float f) 32) sq)
      | BinaryType \<Rightarrow>
          Ret (case Interface f of
                 BytesVal b \<Rightarrow>
                   write_io w (''['' @ hex_bytes (case b of None \<Rightarrow> [] | Some bs \<Rightarrow> bs) @ '']'')
               | v \<Rightarrow> write_io w (''['' @ sprint_v env v @ '']''))
      | ArrayType \<Rightarrow>
          bind_outcome (reflect_items (Interface f)) (\<lambda>vs. Ret (array_io env w sq vs))
      | MapType \<Rightarrow>
          bind_outcome (reflect_entries (Interface f)) (\<lambda>kvs. Ret (map_io env w sq kvs))
      | UnknownType \<Rightarrow> Ret (write_io w (sprint_v env (Interface f)))
      | OtherType n \<Rightarrow> Ret (fail_io (ErrorText (''invalid type '' @ dec_nat (unat n)))))"

section \<open>FieldSorter\<close>

text \<open>The methods that \<^verbatim>\<open>sort.Sort\<close> calls; Go compares strings byte by byte.\<close>

fun string_less :: "string \<Rightarrow> string \<Rightarrow> bool" where
  "string_less xs [] = False"
| "string_less [] (y # ys) = True"
| "string_less (x # xs) (y # ys) =
     (if (of_char x :: nat) < of_char y then True
      else if of_char x = (of_char y :: nat) then string_less xs ys else False)"

definition FieldSorter_Len :: "field list \<Rightarrow> nat" where
  "FieldSorter_Len fs = length fs"

definition FieldSorter_Less :: "field list \<Rightarrow> nat \<Rightarrow> nat \<Rightarrow> bool outcome" where
  "FieldSorter_Less fs i j =
     (if i < length fs \<and> j < length fs then Ret (string_less (Key (fs ! i)) (Key (fs ! j)))
      else Panics ''index out of range'')"

definition FieldSorter_Swap :: "field list \<Rightarrow> nat \<Rightarrow> nat \<Rightarrow> field list outcome" where
  "FieldSorter_Swap fs i j =
     (if i < length fs \<and> j < length fs then Ret (fs[i := fs ! j, j := fs ! i])
      else Panics ''index out of range'')"

section \<open>Properties of the fields\<close>

text \<open>
  \<^verbatim>\<open>Millis\<close> means the milliseconds it was given, negative ones included: the time that is
  formatted is the instant \<open>sint ms\<close> milliseconds after the epoch, with nanoseconds in range;
  none of the intermediate products overflows.
\<close>

theorem millis_time_exact:
  "secs (millis_time ms) * 1000 + nanos (millis_time ms) div 1000000 = sint ms \<and>
   nanos (millis_time ms) mod 1000000 = 0 \<and> 0 \<le> nanos (millis_time ms) \<and>
   nanos (millis_time ms) < 1000000000"
proof -
  let ?q = "go_quot (sint ms) 1000" and ?r = "go_rem (sint ms) 1000"
  have r: "- 1000 < ?r" "?r < 1000"
    by (auto simp: go_rem_def go_quot_def sgn_if minus_mult_div_eq_mod abs_if)
  have qr: "sint ms = 1000 * ?q + ?r"
    by (simp add: go_rem_def)
  have "(word_of_int ?r * 1000000 :: int64) = word_of_int (?r * 1000000)"
    by simp
  moreover have "sint (word_of_int (?r * 1000000) :: int64) = ?r * 1000000"
    by (subst signed_of_int, subst signed_take_bit_int_eq_self) (use r in simp_all)
  ultimately have "sint (word_of_int ?r * 1000000 :: int64) = ?r * 1000000"
    by (simp only:)
  then have t: "secs (millis_time ms) = ?q + ?r div 1000"
      "nanos (millis_time ms) = ?r mod 1000 * 1000000"
    using div_mult_mult2 [of 1000000 ?r 1000] mod_mult_mult2 [of ?r 1000000 1000]
    by (simp_all add: millis_time_def time_Unix_def)
  show ?thesis unfolding t using qr by simp
qed

text \<open>A pointer to a \<^verbatim>\<open>LogCloner\<close> that holds nil, possibly behind further pointers.\<close>

fun nil_cloner :: "goval \<Rightarrow> bool" where
  "nil_cloner (PtrCloner (Some (ObjVal (Some cl) wr e s ty))) = False"
| "nil_cloner (PtrCloner (Some v)) = True"
| "nil_cloner (PtrVal (Some v)) = nil_cloner v"
| "nil_cloner _ = False"

text \<open>
  \<^verbatim>\<open>Any\<close> makes a field of the given key of every value, and panics on one kind of value only: a
  pointer to a variable of type \<^verbatim>\<open>LogCloner\<close> that holds nil.
\<close>

theorem Any_total:
  "case Any k v of Panics e \<Rightarrow> nil_cloner v | Ret f \<Rightarrow> Key f = k \<and> \<not> nil_cloner v"
proof (unfold Any_def, induction k v rule: fieldForAny.induct)
  case (3 k v)
  show ?case
  proof (cases v)
    case (ObjVal c wr e s ty)
    then show ?thesis by (cases c) (simp_all add: field_defs)
  qed simp_all
qed (simp_all add: field_defs split: option.split outcome.splits)

end
