(* ===== verification/LogRecs.thy ===== *)
theory LogRecs
  imports LogFields
begin

text \<open>
  Loggers and log records (\<^verbatim>\<open>logger.go\<close>, \<^verbatim>\<open>logrec.go\<close>, \<^verbatim>\<open>pkg.go\<close>): the fields a logger carries,
  the record made for a call, and \<^verbatim>\<open>prep\<close>, which merges the fields, resolves and filters the
  stack and finds the caller.
\<close>

section \<open>Package names\<close>

lemma LastIndex_beyond_length:
  "LastIndex f d < LastIndex f c \<Longrightarrow> nat (LastIndex f c) < length f"
  using LastIndex_bounds [of f c] LastIndex_bounds [of f d] by linarith

text \<open>\<^verbatim>\<open>ResolvePackageName\<close>: while the last period is behind the last slash, cut the name there.\<close>

function ResolvePackageName :: "string \<Rightarrow> string" where
  "ResolvePackageName f =
     (let lastPeriod = LastIndex f CHR ''.'';
          lastSlash = LastIndex f CHR ''/''
      in if lastPeriod > lastSlash then ResolvePackageName (take (nat lastPeriod) f) else f)"
  by pat_completeness auto

termination
  by (relation "measure length") (auto dest: LastIndex_beyond_length)

declare ResolvePackageName.simps [simp del]

text \<open>What the loop computes: the directory part, then the base name up to its first period.\<close>

lemma ResolvePackageName_base:
  "CHR ''/'' \<notin> set b \<Longrightarrow> a = [] \<or> last a = CHR ''/'' \<Longrightarrow>
   ResolvePackageName (a @ b) = a @ takeWhile (\<lambda>c. c \<noteq> CHR ''.'') b"
proof (induction "length b" arbitrary: b rule: less_induct)
  case less
  have slash: "LastIndex (a @ b) CHR ''/'' < int (length a)"
    using less.prems(1) LastIndex_bounds [of a "CHR ''/''"] by (simp add: LastIndex_append)
  show ?case
  proof (cases "CHR ''.'' \<in> set b")
    case True
    then obtain p q where b: "b = p @ CHR ''.'' # q" "CHR ''.'' \<notin> set q"
      by (meson split_list_last)
    have period: "LastIndex (a @ b) CHR ''.'' = int (length a + length p)"
      using b by (simp add: LastIndex_append LastIndex_notin)
    have "LastIndex (a @ b) CHR ''/'' < LastIndex (a @ b) CHR ''.''"
      using slash period by linarith
    then have "ResolvePackageName (a @ b) =
        ResolvePackageName (take (nat (LastIndex (a @ b) CHR ''.'')) (a @ b))"
      by (simp add: ResolvePackageName.simps [of "a @ b"] Let_def)
    also have "take (nat (LastIndex (a @ b) CHR ''.'')) (a @ b) = a @ p"
      unfolding period by (simp add: b(1))
    also have "ResolvePackageName (a @ p) = a @ takeWhile (\<lambda>c. c \<noteq> CHR ''.'') p"
      using less b(1) by simp
    also have "takeWhile (\<lambda>c. c \<noteq> CHR ''.'') p = takeWhile (\<lambda>c. c \<noteq> CHR ''.'') b"
      unfolding b(1) by (induction p) auto
    finally show ?thesis .
  next
    case False
    have "LastIndex (a @ b) CHR ''.'' \<le> LastIndex (a @ b) CHR ''/''"
    proof (cases "a = []")
      case True
      with False less.prems(1) show ?thesis by (simp add: LastIndex_notin)
    next
      case a: False
      with less.prems(2) obtain a' where "a = a' @ ''/''" by (metis append_butlast_last_id)
      then show ?thesis
        using False less.prems(1) LastIndex_bounds [of a' "CHR ''.''"]
        by (simp add: LastIndex_append LastIndex_notin)
    qed
    then have "ResolvePackageName (a @ b) = a @ b"
      by (simp add: ResolvePackageName.simps [of "a @ b"] Let_def)
    moreover have "takeWhile (\<lambda>c. c \<noteq> CHR ''.'') b = b"
      using False by (intro takeWhile_eq_all_conv [THEN iffD2]) blast
    ultimately show ?thesis by (simp only:)
  qed
qed

lemma path_Split_dir: "fst (path_Split p) = [] \<or> last (fst (path_Split p)) = CHR ''/''"
proof (rule LastIndex_split [of "CHR ''/''" p])
  assume "CHR ''/'' \<notin> set p"
  then show ?thesis by (simp add: path_Split_def LastIndex_notin)
next
  fix a b
  assume "p = a @ CHR ''/'' # b" and "CHR ''/'' \<notin> set b"
  then show ?thesis using path_Split_eq [of b a] by simp
qed

lemma ResolvePackageName_eq:
  "ResolvePackageName f =
     fst (path_Split f) @ takeWhile (\<lambda>c. c \<noteq> CHR ''.'') (snd (path_Split f))"
  using ResolvePackageName_base [OF path_Split_no_slash path_Split_dir, of f f]
  by (simp add: path_Split_append)

text \<open>
  \<^verbatim>\<open>GetPackageName\<close>: the package of the first function on the stack whose name contains the
  given one. \<open>names\<close> are the names of the functions on the stack.
\<close>

fun GetPackageName :: "string list \<Rightarrow> string \<Rightarrow> string" where
  "GetPackageName [] callingFuncName = []"
| "GetPackageName (funcName # names) callingFuncName =
     (if sublist callingFuncName funcName then ResolvePackageName funcName
      else GetPackageName names callingFuncName)"

text \<open>
  \<^verbatim>\<open>GetLogrPackageName\<close> computes the name once: the state of \<^verbatim>\<open>pkgCalcOnce\<close> and of \<^verbatim>\<open>logrPkg\<close> is \<open>None\<close>
  before the first call. \<open>names\<close> is the stack of the calling goroutine, cut at \<open>maximumStackDepth\<close>.
\<close>

definition maximumStackDepth :: nat where
  "maximumStackDepth = 30"

definition GetLogrPackageName :: "string list \<Rightarrow> string option \<Rightarrow> string \<times> string option" where
  "GetLogrPackageName names logrPkg =
     (let pkg = (case logrPkg of
            None \<Rightarrow> GetPackageName (take maximumStackDepth names) ''GetLogrPackageName''
          | Some pkg \<Rightarrow> pkg)
      in (pkg, Some pkg))"

text \<open>Whoever calls it later, the answer is the first one.\<close>

lemma GetLogrPackageName_once:
  "GetLogrPackageName names st = (pkg, st') \<Longrightarrow> GetLogrPackageName names' st' = (pkg, st')"
  by (auto simp: GetLogrPackageName_def Let_def)

section \<open>Loggers\<close>

text \<open>A logger's pointer to its \<^verbatim>\<open>Logr\<close> is implicit: there is one engine.\<close>

record logger =
  lgFields :: "field list"

definition NewLogger :: logger where
  "NewLogger = \<lparr>lgFields = []\<rparr>"

definition Logger_With :: "logger \<Rightarrow> field list \<Rightarrow> logger" where
  "Logger_With lg fs =
     (let l = \<lparr>lgFields = []\<rparr>;
          size = length (lgFields lg) + length fs
      in if size > 0 then l\<lparr>lgFields := (lgFields l @ lgFields lg) @ fs\<rparr> else l)"

lemma lgFields_With [simp]: "lgFields (Logger_With lg fs) = lgFields lg @ fs"
  by (auto simp: Logger_With_def Let_def)

section \<open>Log records\<close>

text \<open>
  A \<^verbatim>\<open>LogRec\<close>. Its mutex makes \<^verbatim>\<open>prep\<close> atomic. \<open>flush\<close> names the channel of a flush record; a
  program counter is a number.
\<close>

record log_rec =
  recTime :: gotime
  recLevel :: level
  recLogger :: logger
  recMsg :: string
  recNewline :: bool
  recFields :: "field list"
  stackPC :: "nat list"
  stackCount :: nat
  flush :: "nat option"
  frames :: "frame list"
  fieldsAll :: "field list"
  caller :: string

definition DefaultMaxStackFrames :: nat where
  "DefaultMaxStackFrames = 30"

definition zero_time :: gotime where
  "zero_time = \<lparr>secs = -62135596800, nanos = 0, zone = 0\<rparr>"

definition zero_LogRec :: log_rec where
  "zero_LogRec =
     \<lparr>recTime = zero_time, recLevel = zero_level, recLogger = NewLogger, recMsg = [],
      recNewline = False, recFields = [], stackPC = [], stackCount = 0, flush = None,
      frames = [], fieldsAll = [], caller = []\<rparr>"

text \<open>
  \<^verbatim>\<open>NewLogRec\<close>: \<open>now\<close> is what \<^verbatim>\<open>time.Now\<close> returns, \<open>stack\<close> the program counters of the calling
  goroutine above \<^verbatim>\<open>NewLogRec\<close>; \<^verbatim>\<open>runtime.Callers\<close> fills at most the slice it is given.
\<close>

definition NewLogRec ::
  "gotime \<Rightarrow> nat list \<Rightarrow> level \<Rightarrow> logger \<Rightarrow> string \<Rightarrow> field list \<Rightarrow> bool \<Rightarrow> log_rec" where
  "NewLogRec now stack lvl lg msg flds incStacktrace =
     (let r = zero_LogRec\<lparr>recTime := now, recLogger := lg, recLevel := lvl, recMsg := msg,
                          recFields := flds\<rparr>
      in if incStacktrace
         then let n = min DefaultMaxStackFrames (length stack)
              in r\<lparr>stackPC := take n stack @ replicate (DefaultMaxStackFrames - n) 0,
                   stackCount := n\<rparr>
         else r)"

definition newFlushLogRec :: "logger \<Rightarrow> nat \<Rightarrow> log_rec" where
  "newFlushLogRec lg ch = zero_LogRec\<lparr>recLogger := lg, flush := Some ch\<rparr>"

text \<open>The loop of \<^verbatim>\<open>prep\<close> over the resolved frames: keep those of packages not filtered out.\<close>

fun keep_frames :: "string set \<Rightarrow> frame list \<Rightarrow> frame list" where
  "keep_frames flt [] = []"
| "keep_frames flt (f # fs) =
     (let pkg = ResolvePackageName (Function f)
      in if pkg \<notin> flt \<and> pkg \<noteq> [] then f # keep_frames flt fs else keep_frames flt fs)"

fun calcCaller :: "frame list \<Rightarrow> string" where
  "calcCaller [] = []"
| "calcCaller (f # fs) =
     (if File f = [] then calcCaller fs
      else let (dir, file) = path_Split (File f);
               base = path_Base dir
           in base @ ''/'' @ file @ '':'' @ dec_int (Line f))"

text \<open>
  \<^verbatim>\<open>prep\<close>, with the engine's stack filter and \<open>resolve\<close> for \<^verbatim>\<open>runtime.CallersFrames\<close>: the frames
  of a list of program counters.
\<close>

definition prep :: "string set \<Rightarrow> (nat list \<Rightarrow> frame list) \<Rightarrow> log_rec \<Rightarrow> log_rec" where
  "prep flt resolve r =
     (let r = r\<lparr>fieldsAll := lgFields (recLogger r) @ recFields r\<rparr>;
          r = (if stackCount r > 0
               then r\<lparr>frames := keep_frames flt (resolve (take (stackCount r) (stackPC r)))\<rparr>
               else r)
      in if frames r \<noteq> [] then r\<lparr>caller := calcCaller (frames r)\<rparr> else r)"

text \<open>\<^verbatim>\<open>WithTime\<close> copies every field but \<^verbatim>\<open>flush\<close>, \<^verbatim>\<open>fieldsAll\<close> and \<^verbatim>\<open>caller\<close>.\<close>

definition WithTime :: "log_rec \<Rightarrow> gotime \<Rightarrow> log_rec" where
  "WithTime r t =
     zero_LogRec\<lparr>recTime := t, recLevel := recLevel r, recLogger := recLogger r,
       recMsg := recMsg r, recNewline := recNewline r, recFields := recFields r,
       stackPC := stackPC r, stackCount := stackCount r, frames := frames r\<rparr>"

text \<open>The accessors that formatters and targets use.\<close>

definition LogRec_Logger :: "log_rec \<Rightarrow> logger" where
  "LogRec_Logger r = recLogger r"

definition LogRec_Time :: "log_rec \<Rightarrow> gotime" where
  "LogRec_Time r = recTime r"

definition LogRec_Level :: "log_rec \<Rightarrow> level" where
  "LogRec_Level r = recLevel r"

definition LogRec_Msg :: "log_rec \<Rightarrow> string" where
  "LogRec_Msg r = recMsg r"

definition LogRec_Fields :: "log_rec \<Rightarrow> field list" where
  "LogRec_Fields r = fieldsAll r"

definition LogRec_Caller :: "log_rec \<Rightarrow> string" where
  "LogRec_Caller r = caller r"

definition LogRec_StackFrames :: "log_rec \<Rightarrow> frame list" where
  "LogRec_StackFrames r = frames r"

lemma keep_frames_eq:
  "keep_frames flt fs =
     filter (\<lambda>f. ResolvePackageName (Function f) \<notin> flt \<and> ResolvePackageName (Function f) \<noteq> []) fs"
  by (induction fs) (simp_all add: Let_def)

lemma flush_prep [simp]: "flush (prep flt resolve r) = flush r"
  by (simp add: prep_def Let_def)

lemma recLevel_prep [simp]: "recLevel (prep flt resolve r) = recLevel r"
  by (simp add: prep_def Let_def)

lemma fieldsAll_prep [simp]:
  "fieldsAll (prep flt resolve r) = lgFields (recLogger r) @ recFields r"
  by (simp add: prep_def Let_def)

lemma flush_NewLogRec [simp]: "flush (NewLogRec now st lvl lg msg fs inc) = None"
  by (simp add: NewLogRec_def zero_LogRec_def Let_def)

lemma recLevel_NewLogRec [simp]: "recLevel (NewLogRec now st lvl lg msg fs inc) = lvl"
  by (simp add: NewLogRec_def zero_LogRec_def Let_def)

lemma flush_newFlushLogRec [simp]: "flush (newFlushLogRec lg ch) = Some ch"
  by (simp add: newFlushLogRec_def)

text \<open>The stack of a record never has more entries than \<^verbatim>\<open>DefaultMaxStackFrames\<close>.\<close>

lemma length_stackPC_NewLogRec:
  "length (stackPC (NewLogRec now st lvl lg msg fs inc)) = (if inc then DefaultMaxStackFrames else 0)"
  "stackCount (NewLogRec now st lvl lg msg fs inc) \<le> DefaultMaxStackFrames"
  by (simp_all add: NewLogRec_def zero_LogRec_def Let_def)

section \<open>Properties of the records\<close>

text \<open>
  \<^verbatim>\<open>ResolvePackageName\<close> cuts a qualified function name at the first period behind the last slash:
  that is the package path, however many receivers and closures the name has.
\<close>

theorem package_name_spec:
  "ResolvePackageName f =
     fst (path_Split f) @ takeWhile (\<lambda>c. c \<noteq> CHR ''.'') (snd (path_Split f)) \<and>
   fst (path_Split f) @ snd (path_Split f) = f \<and> CHR ''/'' \<notin> set (snd (path_Split f))"
  by (simp add: ResolvePackageName_eq path_Split_append path_Split_no_slash)


text \<open>
  \<^verbatim>\<open>WithTime\<close> is not the copy with another time that its comment promises: what \<^verbatim>\<open>prep\<close> computed
  is lost, so the copy has no fields and no caller for a formatter.
\<close>

theorem WithTime_loses_fields:
  "LogRec_Fields (WithTime (prep flt resolve r) t) = [] \<and>
   LogRec_Caller (WithTime (prep flt resolve r) t) = [] \<and>
   LogRec_StackFrames (WithTime (prep flt resolve r) t) = LogRec_StackFrames (prep flt resolve r) \<and>
   LogRec_Fields (prep flt resolve r) = lgFields (recLogger r) @ recFields r"
  by (simp add: WithTime_def zero_LogRec_def LogRec_Fields_def LogRec_Caller_def
      LogRec_StackFrames_def)

end
