(* ===== verification/Formatter.thy ===== *)
theory Formatter
  imports LogRecs
begin

text \<open>
  Formatting a log record as text (\<^verbatim>\<open>formatter.go\<close>): \<^verbatim>\<open>WriteFields\<close>, \<^verbatim>\<open>DefaultFormatter\<close> and
  \<^verbatim>\<open>LogRec.String\<close>. Formatters write to an in-memory buffer.
\<close>

section \<open>Writing fields\<close>

definition writeField ::
  "fmt_env \<Rightarrow> 's writer \<Rightarrow> field \<Rightarrow> bytes \<Rightarrow> uint8 \<Rightarrow> 's io outcome" where
  "writeField env w f sep color =
     bind_outcome (ValueString env f w (Some shouldQuote)) (\<lambda>val.
       Ret (seq_io (if length sep \<noteq> 0 then write_io w sep else skip_io)
             (seq_io (WriteWithColor w (Key f) color)
               (seq_io (write_io w Equals) val))))"

text \<open>The loop of \<^verbatim>\<open>WriteFields\<close>: no separator before the first field.\<close>

fun WriteFields_loop ::
  "fmt_env \<Rightarrow> 's writer \<Rightarrow> bytes \<Rightarrow> bytes \<Rightarrow> uint8 \<Rightarrow> field list \<Rightarrow> 's io outcome" where
  "WriteFields_loop env w sep separator color [] = Ret skip_io"
| "WriteFields_loop env w sep separator color (f # fs) =
     bind_outcome (writeField env w f sep color) (\<lambda>a.
       bind_outcome (WriteFields_loop env w separator separator color fs) (\<lambda>b.
         Ret (seq_io a b)))"

definition WriteFields ::
  "fmt_env \<Rightarrow> 's writer \<Rightarrow> field list \<Rightarrow> bytes \<Rightarrow> uint8 \<Rightarrow> 's io outcome" where
  "WriteFields env w flds separator color = WriteFields_loop env w [] separator color flds"

section \<open>DefaultFormatter\<close>

definition DefaultFormatter_IsStacktraceNeeded :: bool where
  "DefaultFormatter_IsStacktraceNeeded = False"

text \<open>
  \<^verbatim>\<open>Format\<close>: the buffer is \<open>None\<close> for a nil pointer. Writes to a \<^verbatim>\<open>bytes.Buffer\<close> do not fail, so
  the code ignores their results; \<^verbatim>\<open>WriteFields\<close> and \<^verbatim>\<open>WriteStacktrace\<close> may return an error.
\<close>

definition DefaultFormatter_Format ::
  "fmt_env \<Rightarrow> log_rec \<Rightarrow> level \<Rightarrow> bytes option \<Rightarrow> (go_error + bytes) outcome" where
  "DefaultFormatter_Format env r lvl bufo =
     (let b = (case bufo of None \<Rightarrow> [] | Some b \<Rightarrow> b);
          b = snd (write_io buffer_Write (format_time env (recTime r) DefTimestampFormat) b);
          b = snd (write_io buffer_Write Space b);
          b = snd (write_io buffer_Write (Name lvl) b);
          b = snd (write_io buffer_Write Space b);
          b = snd (write_io buffer_Write (recMsg r) b);
          b = snd (write_io buffer_Write Space b);
          flds = LogRec_Fields r
      in bind_outcome
           (if length flds > 0 then
              bind_outcome (WriteFields env buffer_Write flds Space NoColor) (\<lambda>a. Ret (a b))
            else Ret (None, b))
           (\<lambda>(err, b).
              case err of Some e \<Rightarrow> Ret (Inl e)
              | None \<Rightarrow>
                  (let (err, b) =
                     (if Stacktrace lvl \<and> length (LogRec_StackFrames r) > 0
                      then seq_io (write_io buffer_Write Newline)
                             (WriteStacktrace buffer_Write (LogRec_StackFrames r)) b
                      else (None, b))
                   in case err of Some e \<Rightarrow> Ret (Inl e)
                      | None \<Rightarrow> Ret (Inr (snd (write_io buffer_Write Newline b))))))"

text \<open>
  \<^verbatim>\<open>LogRec.String\<close>: the error of \<^verbatim>\<open>Format\<close> is dropped, and the nil buffer that comes with it prints as
  \<^verbatim>\<open><nil>\<close>. The borrowed buffer is empty.
\<close>

definition LogRec_String :: "fmt_env \<Rightarrow> log_rec \<Rightarrow> string outcome" where
  "LogRec_String env r =
     (if flush r \<noteq> None then Ret ''[flusher]''
      else bind_outcome (DefaultFormatter_Format env r (LogRec_Level r) (Some [])) (\<lambda>res.
             Ret (TrimSpace (case res of Inl e \<Rightarrow> ''<nil>'' | Inr b \<Rightarrow> b))))"

section \<open>What is written\<close>

text \<open>
  On an in-memory buffer an action appends the same bytes whatever the buffer holds, and
  returns the same error.
\<close>

definition appends :: "bytes io \<Rightarrow> go_error option \<Rightarrow> bytes \<Rightarrow> bool" where
  "appends a err out \<longleftrightarrow> (\<forall>b. a b = (err, b @ out))"

lemma appends_write: "appends (write_io buffer_Write p) None p"
  by (simp add: appends_def writer_simps)

lemma appends_quote: "appends (quoteString buffer_Write s sq) None (quoted sq s)"
  by (simp add: appends_def writer_simps)

lemma appends_color: "appends (WriteWithColor buffer_Write s c) None (colored c s)"
  by (simp add: appends_def writer_simps)

lemma appends_skip: "appends skip_io None []"
  by (simp add: appends_def writer_simps)

lemma appends_fail: "appends (fail_io e) (Some e) []"
  by (simp add: appends_def fail_io_def)

lemma appends_seq: "appends a None x \<Longrightarrow> appends b e y \<Longrightarrow> appends (seq_io a b) e (x @ y)"
  by (simp add: appends_def seq_io_def)

lemma appends_seq_err: "appends a (Some e) x \<Longrightarrow> appends (seq_io a b) (Some e) x"
  by (simp add: appends_def seq_io_def)

text \<open>The text of a whole value, when its rendering reports no error.\<close>

definition value_text :: "fmt_env \<Rightarrow> (string \<Rightarrow> bool) \<Rightarrow> field \<Rightarrow> bytes option" where
  "value_text env sq f =
     (case ValueString env f buffer_Write (Some sq) of
        Panics m \<Rightarrow> None
      | Ret a \<Rightarrow> (case a [] of (None, out) \<Rightarrow> Some out | (Some e, out) \<Rightarrow> None))"

text \<open>Every rendering routine is such an action, so a value has one text on every buffer.\<close>

definition uniform :: "bytes io \<Rightarrow> bool" where
  "uniform a \<longleftrightarrow> (\<exists>e out. appends a e out)"

lemma uniform_basic [simp, intro]:
  "uniform (write_io buffer_Write p)" "uniform (quoteString buffer_Write s sq)"
  "uniform (WriteWithColor buffer_Write s c)" "uniform skip_io" "uniform (fail_io e)"
  unfolding uniform_def
  using appends_write appends_quote appends_color appends_skip appends_fail by blast+

lemma uniform_seq [intro]: "uniform a \<Longrightarrow> uniform b \<Longrightarrow> uniform (seq_io a b)"
  unfolding uniform_def by (metis appends_seq appends_seq_err not_None_eq)

lemma uniform_return: "uniform (\<lambda>st. (err, st))"
  unfolding uniform_def appends_def by (intro exI [of _ err] exI [of _ "[]"]) simp

lemma uniform_chunks: "uniform (chunks_io buffer_Write cs err)"
  by (induction cs) (auto intro: uniform_seq uniform_return)

lemma uniform_LogWrite [simp, intro]: "uniform (LogWrite buffer_Write lw)"
  by (simp add: LogWrite_def uniform_chunks)

lemma uniform_item [simp, intro]: "uniform (item_io env buffer_Write sq v)"
  by (simp add: item_io_def split: option.split)

lemma uniform_array: "uniform (array_io env buffer_Write sq vs)"
  by (induction vs) (auto intro!: uniform_seq)

lemma uniform_map: "uniform (map_io env buffer_Write sq kvs)"
  by (induction kvs) (auto intro!: uniform_seq)

lemma uniform_ValueString: "ValueString env f buffer_Write q = Ret a \<Longrightarrow> uniform a"
  by (cases "FType f")
     (auto simp: ValueString_def Let_def bind_outcome_Ret_iff uniform_array uniform_map
        split: option.split goval.split)

lemma value_text_iff:
  "value_text env sq f = Some out \<longleftrightarrow>
   (\<exists>a. ValueString env f buffer_Write (Some sq) = Ret a \<and> appends a None out)"
proof
  assume "value_text env sq f = Some out"
  then obtain a where a: "ValueString env f buffer_Write (Some sq) = Ret a" "a [] = (None, out)"
    by (auto simp: value_text_def split: outcome.splits prod.splits option.splits)
  then obtain e out' where "appends a e out'"
    using uniform_ValueString unfolding uniform_def by blast
  with a show "\<exists>a. ValueString env f buffer_Write (Some sq) = Ret a \<and> appends a None out"
    by (auto simp: appends_def)
qed (auto simp: value_text_def appends_def)

text \<open>One field, and a list of fields with the separator between them.\<close>

definition pair_text :: "fmt_env \<Rightarrow> uint8 \<Rightarrow> field \<Rightarrow> bytes" where
  "pair_text env color f = colored color (Key f) @ ''='' @ the (value_text env shouldQuote f)"

fun join :: "bytes \<Rightarrow> bytes list \<Rightarrow> bytes" where
  "join sep [] = []"
| "join sep (x # xs) = x @ concat (map (\<lambda>y. sep @ y) xs)"

lemma writeField_text:
  assumes "value_text env shouldQuote f \<noteq> None"
  shows "\<exists>a. writeField env buffer_Write f sep color = Ret a \<and>
             appends a None (sep @ pair_text env color f)"
proof -
  obtain out where out: "value_text env shouldQuote f = Some out" using assms by blast
  then obtain v where v: "ValueString env f buffer_Write (Some shouldQuote) = Ret v"
      "appends v None out"
    by (auto simp: value_text_iff)
  have "appends (if length sep \<noteq> 0 then write_io buffer_Write sep else skip_io) None sep"
    using appends_write appends_skip by simp
  then have "appends (seq_io (if length sep \<noteq> 0 then write_io buffer_Write sep else skip_io)
      (seq_io (WriteWithColor buffer_Write (Key f) color)
        (seq_io (write_io buffer_Write Equals) v))) None
      (sep @ colored color (Key f) @ Equals @ out)"
    by (intro appends_seq appends_color appends_write v(2))
  with v(1) out show ?thesis by (simp add: writeField_def pair_text_def Equals_def)
qed

lemma WriteFields_loop_text:
  "\<forall>f \<in> set fs. value_text env shouldQuote f \<noteq> None \<Longrightarrow>
   \<exists>a. WriteFields_loop env buffer_Write sep separator color fs = Ret a \<and>
       appends a None
         (case fs of [] \<Rightarrow> []
          | f # fs' \<Rightarrow> sep @ pair_text env color f @
              concat (map (\<lambda>y. separator @ y) (map (pair_text env color) fs')))"
proof (induction fs arbitrary: sep)
  case Nil
  show ?case by (simp add: appends_skip)
next
  case (Cons f fs)
  obtain a where a: "writeField env buffer_Write f sep color = Ret a"
      "appends a None (sep @ pair_text env color f)"
    using writeField_text Cons.prems by (metis list.set_intros(1))
  obtain b where b: "WriteFields_loop env buffer_Write separator separator color fs = Ret b"
      "appends b None (case fs of [] \<Rightarrow> []
          | f # fs' \<Rightarrow> separator @ pair_text env color f @
              concat (map (\<lambda>y. separator @ y) (map (pair_text env color) fs')))"
    using Cons.IH [of separator] Cons.prems by auto
  show ?case
    using a b appends_seq [OF a(2) b(2)] by (cases fs) simp_all
qed

lemma WriteFields_text:
  assumes "\<forall>f \<in> set fs. value_text env shouldQuote f \<noteq> None"
  shows "\<exists>a. WriteFields env buffer_Write fs separator color = Ret a \<and>
             appends a None (join separator (map (pair_text env color) fs))"
proof -
  obtain a where a: "WriteFields_loop env buffer_Write [] separator color fs = Ret a"
      "appends a None (case fs of [] \<Rightarrow> []
          | f # fs' \<Rightarrow> [] @ pair_text env color f @
              concat (map (\<lambda>y. separator @ y) (map (pair_text env color) fs')))"
    using WriteFields_loop_text [OF assms, of "[]" separator color] by blast
  then show ?thesis by (cases fs) (simp_all add: WriteFields_def)
qed

text \<open>Scalars have a text, whatever the environment.\<close>

lemma value_text_StringOf:
  "value_text env sq (StringOf k v) = Some (quoted sq v)"
  by (simp add: value_text_def ValueString_def field_defs writer_simps)

lemma value_text_IntOf:
  "value_text env sq (IntOf k (v :: 'a::len word)) = Some (FormatInt (scast v))"
  by (simp add: value_text_def ValueString_def field_defs writer_simps)

lemma value_text_UintOf:
  "value_text env sq (UintOf k (v :: 'a::len word)) = Some (FormatUint (ucast v))"
  by (simp add: value_text_def ValueString_def field_defs writer_simps)

lemma Key_StringOf [simp]: "Key (StringOf k v) = k"
  by (simp add: field_defs)

section \<open>Any writer gets what a buffer gets\<close>

text \<open>
  An action on a writer mirrors the same action on a buffer: it appends the bytes the buffer
  gets, or a prefix of them if it fails, and it can only succeed if the other does.
\<close>

definition mirrors :: "('s \<Rightarrow> bytes) \<Rightarrow> 's io \<Rightarrow> bytes io \<Rightarrow> bool" where
  "mirrors out_of a ab \<longleftrightarrow>
     (\<exists>e out. appends ab e out \<and> emits out_of a out \<and>
        (\<forall>st st'. a st = (None, st') \<longrightarrow> e = None))"

lemma mirrorsI:
  "appends ab e out \<Longrightarrow> emits out_of a out \<Longrightarrow> (\<And>st st'. a st = (None, st') \<Longrightarrow> e = None) \<Longrightarrow>
   mirrors out_of a ab"
  unfolding mirrors_def by blast

lemma mirrors_seq:
  assumes "mirrors out_of a ab" and "mirrors out_of b bb"
  shows "mirrors out_of (seq_io a b) (seq_io ab bb)"
proof -
  obtain e x where a: "appends ab e x" "emits out_of a x" "\<And>st st'. a st = (None, st') \<Longrightarrow> e = None"
    using assms(1) unfolding mirrors_def by blast
  obtain e' y where b: "appends bb e' y" "emits out_of b y" "\<And>st st'. b st = (None, st') \<Longrightarrow> e' = None"
    using assms(2) unfolding mirrors_def by blast
  show ?thesis
  proof (cases e)
    case None
    with a(1) have "appends ab None x" by simp
    then show ?thesis
    proof (rule mirrorsI [OF appends_seq [OF _ b(1)] emits_seq [OF a(2) b(2)]])
      fix st st'
      assume "seq_io a b st = (None, st')"
      then show "e' = None" by (auto simp: seq_io_def split: prod.splits option.splits dest: b(3))
    qed
  next
    case (Some er)
    have fails: "\<exists>e st'. a st = (Some e, st') \<and> seq_io a b st = (Some e, st')" for st
    proof (cases "a st")
      case (Pair r st')
      with a(3) Some obtain e where "r = Some e" by (cases r) auto
      with Pair show ?thesis by (simp add: seq_io_def)
    qed
    have "emits out_of (seq_io a b) x"
      using fails a(2) by (intro emitsI) (metis option.discI prod.inject, metis emits_Some)
    with Some a(1) fails show ?thesis
      by (intro mirrorsI [OF appends_seq_err]) (auto, metis option.discI prod.inject)
  qed
qed

lemma mirrors_skip: "mirrors out_of skip_io skip_io"
  by (rule mirrorsI [OF appends_skip emits_skip]) simp

lemma mirrors_return: "mirrors out_of (\<lambda>st. (e, st)) (\<lambda>st. (e, st))"
  by (rule mirrorsI [of _ e "[]"]) (auto simp: appends_def emits_def split: option.split)

lemma mirrors_fail: "mirrors out_of (fail_io e) (fail_io e)"
  using mirrors_return [of out_of "Some e"] by (simp add: fail_io_def [abs_def])

lemma mirrors_emits:
  assumes "mirrors out_of a ab" and "appends ab None out" and "a st = (None, st')"
  shows "out_of st' = out_of st @ out"
proof -
  obtain e x where x: "appends ab e x" "emits out_of a x" using assms(1) unfolding mirrors_def by blast
  with assms(2) have "x = out" by (simp add: appends_def)
  with x(2) assms(3) show ?thesis by (simp add: emits_None)
qed

context io_writer
begin

lemma mirrors_write: "mirrors out_of (write_io w p) (write_io buffer_Write p)"
  by (rule mirrorsI [OF appends_write emits_write]) simp

lemma mirrors_quote: "mirrors out_of (quoteString w s sq) (quoteString buffer_Write s sq)"
  by (rule mirrorsI [OF appends_quote emits_quoteString]) simp

lemma mirrors_color: "mirrors out_of (WriteWithColor w s c) (WriteWithColor buffer_Write s c)"
  by (rule mirrorsI [OF appends_color emits_WriteWithColor]) simp

lemma mirrors_chunks: "mirrors out_of (chunks_io w cs e) (chunks_io buffer_Write cs e)"
  by (induction cs) (simp_all add: mirrors_return mirrors_seq mirrors_write)

lemma mirrors_item: "mirrors out_of (item_io env w sq v) (item_io env buffer_Write sq v)"
  by (simp add: item_io_def LogWrite_def mirrors_chunks mirrors_quote split: option.split)

lemma mirrors_array: "mirrors out_of (array_io env w sq vs) (array_io env buffer_Write sq vs)"
  by (induction vs) (simp_all add: mirrors_skip mirrors_seq mirrors_item mirrors_write)

lemma mirrors_map: "mirrors out_of (map_io env w sq kvs) (map_io env buffer_Write sq kvs)"
proof (induction kvs)
  case (Cons kv kvs)
  then show ?case
    by (cases kv) (simp add: mirrors_skip mirrors_seq mirrors_item mirrors_write)
qed (simp add: mirrors_skip)

lemmas mirrors_routines =
  mirrors_write mirrors_quote mirrors_color mirrors_chunks mirrors_array mirrors_map
  mirrors_fail mirrors_skip

lemma mirrors_LogWriter:
  "mirrors out_of
     (case lo of Some lw \<Rightarrow> LogWrite w lw | None \<Rightarrow> write_io w s)
     (case lo of Some lw \<Rightarrow> LogWrite buffer_Write lw | None \<Rightarrow> write_io buffer_Write s)"
  by (simp add: LogWrite_def mirrors_chunks mirrors_write split: option.split)

lemma mirrors_ValueString:
  assumes "ValueString env f w q = Ret a"
  shows "\<exists>ab. ValueString env f buffer_Write q = Ret ab \<and> mirrors out_of a ab"
proof (cases "FType f")
  case TimeType
  with assms show ?thesis
    by (cases "Interface f") (clarsimp simp: ValueString_def Let_def mirrors_routines)+
next
  case BinaryType
  with assms show ?thesis
    by (cases "Interface f") (clarsimp simp: ValueString_def Let_def mirrors_routines)+
next
  case StringerType
  with assms show ?thesis
    by (cases "as_Stringer env (Interface f)") (clarsimp simp: ValueString_def Let_def mirrors_routines)+
next
  case StructType
  with assms show ?thesis by (clarsimp simp: ValueString_def Let_def mirrors_LogWriter)
next
  case ArrayType
  with assms show ?thesis
    by (cases "reflect_items (Interface f)") (clarsimp simp: ValueString_def Let_def mirrors_routines)+
next
  case MapType
  with assms show ?thesis
    by (cases "reflect_entries (Interface f)") (clarsimp simp: ValueString_def Let_def mirrors_routines)+
qed (use assms in \<open>clarsimp simp: ValueString_def Let_def mirrors_routines\<close>)+

lemma mirrors_writeField:
  "writeField env w f sep c = Ret a \<Longrightarrow>
   \<exists>ab. writeField env buffer_Write f sep c = Ret ab \<and> mirrors out_of a ab"
  unfolding writeField_def
  by (auto simp: bind_outcome_Ret_iff dest!: mirrors_ValueString
        intro!: mirrors_seq mirrors_routines)

lemma mirrors_WriteFields_loop:
  "WriteFields_loop env w sep separator c fs = Ret a \<Longrightarrow>
   \<exists>ab. WriteFields_loop env buffer_Write sep separator c fs = Ret ab \<and> mirrors out_of a ab"
proof (induction fs arbitrary: sep a)
  case Nil
  then show ?case by (auto simp: mirrors_skip)
next
  case (Cons f fs)
  from Cons.prems obtain a1 a2 where
    "writeField env w f sep c = Ret a1" "WriteFields_loop env w separator separator c fs = Ret a2"
    "a = seq_io a1 a2"
    by (auto simp: bind_outcome_Ret_iff)
  with Cons.IH mirrors_writeField obtain b1 b2 where
    "writeField env buffer_Write f sep c = Ret b1" "mirrors out_of a1 b1"
    "WriteFields_loop env buffer_Write separator separator c fs = Ret b2" "mirrors out_of a2 b2"
    by blast
  with \<open>a = _\<close> show ?case by (simp add: mirrors_seq)
qed

text \<open>So a successful \<^verbatim>\<open>WriteFields\<close> has written the joined pairs, to any writer.\<close>

lemma WriteFields_writes:
  assumes "WriteFields env w fs separator c = Ret a" and "a st = (None, st')"
    and "\<forall>f \<in> set fs. value_text env shouldQuote f \<noteq> None"
  shows "out_of st' = out_of st @ join separator (map (pair_text env c) fs)"
proof -
  obtain ab where ab: "WriteFields env buffer_Write fs separator c = Ret ab" "mirrors out_of a ab"
    using mirrors_WriteFields_loop assms(1) unfolding WriteFields_def by blast
  with WriteFields_text [OF assms(3), of separator c]
  have "appends ab None (join separator (map (pair_text env c) fs))" by auto
  with ab(2) assms(2) show ?thesis by (simp add: mirrors_emits)
qed

end

section \<open>The text of a record\<close>

text \<open>What \<^verbatim>\<open>DefaultFormatter\<close> makes of a record whose values have a text.\<close>

definition default_text :: "fmt_env \<Rightarrow> log_rec \<Rightarrow> level \<Rightarrow> bytes" where
  "default_text env r lvl =
     format_time env (recTime r) DefTimestampFormat @ '' '' @ Name lvl @ '' '' @ recMsg r @ '' '' @
     join '' '' (map (pair_text env NoColor) (fieldsAll r)) @
     (if Stacktrace lvl \<and> frames r \<noteq> [] then Newline @ concat (map frame_text (frames r)) else []) @
     Newline"

lemma DefaultFormatter_Format_text:
  assumes "\<forall>f \<in> set (fieldsAll r). value_text env shouldQuote f \<noteq> None"
  shows "DefaultFormatter_Format env r lvl bufo =
           Ret (Inr ((case bufo of None \<Rightarrow> [] | Some b \<Rightarrow> b) @ default_text env r lvl))"
proof -
  obtain a where a: "WriteFields env buffer_Write (fieldsAll r) Space NoColor = Ret a"
      "appends a None (join Space (map (pair_text env NoColor) (fieldsAll r)))"
    using WriteFields_text [OF assms] by blast
  show ?thesis
    using a
    by (simp add: DefaultFormatter_Format_def default_text_def LogRec_Fields_def
          LogRec_StackFrames_def appends_def writer_simps Let_def Space_def)
qed

section \<open>Properties of the formatted text\<close>

text \<open>
  C29: An integer field of any width up to 64 bits, signed or not, is written as the decimal number it
  stands for: reading the text back gives the number.
\<close>

theorem integer_fields_roundtrip:
  assumes "LENGTH('a::len) \<le> 64"
  shows "map_option read_int (value_text env sq (IntOf k (v :: 'a word))) = Some (sint v) \<and>
    map_option read_nat (value_text env sq (UintOf k v)) = Some (unat v)"
proof -
  have "sint (scast v :: int64) = sint v"
    using assms by (simp add: sint_up_scast is_up)
  moreover have "unat v < 2 ^ 64"
    by (rule order.strict_trans2 [OF unsigned_less power_increasing]) (use assms in simp_all)
  then have "unat (ucast v :: 64 word) = unat v"
    by (simp add: unsigned_ucast_eq take_bit_nat_eq_self)
  ultimately show ?thesis
    by (simp add: value_text_IntOf value_text_UintOf FormatInt_def FormatUint_def read_int_dec_int
        read_nat_dec_nat)
qed

theorem integer_fields_roundtrip_witness:
  "map_option read_int (value_text demo_env (\<lambda>_. False) (IntOf ''k'' (- 7 :: 8 word))) = Some (- 7)"
  using integer_fields_roundtrip [of demo_env "\<lambda>_. False" "''k''" "- 7 :: 8 word"] by simp

text \<open>
  C26: Whatever writer \<^verbatim>\<open>WriteFields\<close> writes to, when it reports no error the writer has got, after what
  it had, the key-value pairs of all fields in order, separated by the separator.
\<close>

theorem WriteFields_any_writer:
  assumes "io_writer w out_of" "WriteFields env w fs separator c = Ret a" "a st = (None, st')"
    and "\<forall>f \<in> set fs. value_text env shouldQuote f \<noteq> None"
  shows "out_of st' = out_of st @ join separator (map (pair_text env c) fs)"
  using io_writer.WriteFields_writes [OF assms(1-4)] .

theorem WriteFields_any_writer_witness:
  "\<exists>a st'. WriteFields demo_env buffer_Write [StringOf ''k'' ''v''] Space NoColor = Ret a \<and>
     a ''x'' = (None, st') \<and> st' = ''x'' @ join Space [pair_text demo_env NoColor (StringOf ''k'' ''v'')]"
proof -
  have has_text: "\<forall>f \<in> set [StringOf ''k'' ''v'']. value_text demo_env shouldQuote f \<noteq> None"
    by (simp add: value_text_StringOf)
  obtain a where a: "WriteFields demo_env buffer_Write [StringOf ''k'' ''v''] Space NoColor = Ret a"
      "appends a None (join Space (map (pair_text demo_env NoColor) [StringOf ''k'' ''v'']))"
    using WriteFields_text [OF has_text] by blast
  then obtain st' where "a ''x'' = (None, st')"
    by (simp add: appends_def)
  with WriteFields_any_writer [OF buf.io_writer_axioms a(1) this has_text] a(1) show ?thesis by auto
qed

text \<open>
  \<^verbatim>\<open>DefaultFormatter\<close> appends to the buffer one record: time, level, message, the pairs of all
  fields, the stack if the level asks for it, and a line break.
\<close>

theorem default_formatter_text:
  assumes "\<forall>f \<in> set (fieldsAll r). value_text env shouldQuote f \<noteq> None"
  shows "DefaultFormatter_Format env r lvl (Some b) = Ret (Inr (b @ default_text env r lvl))"
  using DefaultFormatter_Format_text [OF assms, of lvl "Some b"] by simp

theorem default_formatter_text_witness:
  "\<exists>r. recMsg r = ''hi'' \<and> fieldsAll r = [StringOf ''k'' ''v w''] \<and>
     DefaultFormatter_Format demo_env r Info (Some ''old'') =
       Ret (Inr (''old'' @ ''now info hi k='' @ Quote @ ''v w'' @ Quote @ Newline))"
proof -
  define r where "r = zero_LogRec\<lparr>recMsg := ''hi'', fieldsAll := [StringOf ''k'' ''v w'']\<rparr>"
  have r: "fieldsAll r = [StringOf ''k'' ''v w'']" "recMsg r = ''hi''"
    by (simp_all add: r_def)
  have "default_text demo_env r Info = ''now info hi k='' @ Quote @ ''v w'' @ Quote @ Newline"
    unfolding r_def by code_simp
  moreover have "\<forall>f \<in> set (fieldsAll r). value_text demo_env shouldQuote f \<noteq> None"
    using r by (simp add: value_text_StringOf)
  ultimately show ?thesis
    using default_formatter_text [of r demo_env Info "''old''"] r by (intro exI [of _ r]) simp
qed

text \<open>
  C31: The quotes of text formats do not protect a value: for any two values that are quoted, one
  field whose value contains quotes is written exactly as two fields are.
\<close>

theorem quoting_is_ambiguous:
  assumes "shouldQuote u" "shouldQuote v"
  shows "StringOf a (u @ Quote @ Space @ b @ Equals @ Quote @ v) \<noteq> StringOf a u \<and>
    join Space (map (pair_text env NoColor) [StringOf a (u @ Quote @ Space @ b @ Equals @ Quote @ v)]) =
    join Space (map (pair_text env NoColor) [StringOf a u, StringOf b v])"
proof -
  have "shouldQuote (u @ Quote @ Space @ b @ Equals @ Quote @ v)"
    using assms(1) by (auto simp: shouldQuote_iff)
  with assms show ?thesis
    by (simp add: pair_text_def value_text_StringOf colored_def quoted_def token_defs)
      (simp add: field_defs)
qed

theorem quoting_is_ambiguous_witness:
  "\<exists>v. join Space (map (pair_text demo_env NoColor) [StringOf ''a'' v]) =
     join Space (map (pair_text demo_env NoColor) [StringOf ''a'' ''x y'', StringOf ''b'' ''(z)''])"
proof -
  have "shouldQuote ''x y''" "shouldQuote ''(z)''"
    by (simp_all add: shouldQuote_iff safe_char_def safe_rune_def)
  then show ?thesis using quoting_is_ambiguous [of "''x y''" "''(z)''" "''a''" "''b''" demo_env] by blast
qed

end
