(* ===== verification/Options.thy ===== *)
theory Options
  imports LogRecs
begin

text \<open>
  The options of an engine (\<^verbatim>\<open>options.go\<close>, \<^verbatim>\<open>const.go\<close>). An option is a function on the engine
  that sets fields of its \<^verbatim>\<open>options\<close> or returns an error; \<open>apply_options\<close> is the loop of \<^verbatim>\<open>New\<close>
  over them.
\<close>

section \<open>The options record\<close>

text \<open>
  Durations are nanoseconds. A callback is \<open>None\<close> when it is nil. A call of \<^verbatim>\<open>onQueueFull\<close> or
  \<^verbatim>\<open>onTargetQueueFull\<close> returns whether to drop the record, or panics; a target is named by its
  position. \<^verbatim>\<open>onLoggerError\<close>, \<^verbatim>\<open>onExit\<close> and \<^verbatim>\<open>onPanic\<close> return nothing the engine reads: what
  is modelled of them is whether they are set. A metrics collector is named by a number.
\<close>

record options =
  maxQueueSize :: int
  onLoggerError :: bool
  onQueueFull :: "(log_rec \<Rightarrow> int \<Rightarrow> bool outcome) option"
  onTargetQueueFull :: "(nat \<Rightarrow> log_rec \<Rightarrow> int \<Rightarrow> bool outcome) option"
  onExit :: bool
  onPanic :: bool
  enqueueTimeout :: int64
  shutdownTimeout :: int64
  flushTimeout :: int64
  useSyncMapLevelCache :: bool
  maxPooledBuffer :: int
  disableBufferPool :: bool
  metricsCollector :: "nat option"
  metricsUpdateFreqMillis :: int64
  stackFilter :: "string set option"
  maxFieldLen :: int

definition second :: int64 where
  "second = 1000000000"

definition default_options :: options where
  "default_options =
     \<lparr>maxQueueSize = 1000, onLoggerError = False, onQueueFull = None, onTargetQueueFull = None,
      onExit = False, onPanic = False, enqueueTimeout = 30 * second,
      shutdownTimeout = 30 * second, flushTimeout = 30 * second, useSyncMapLevelCache = False,
      maxPooledBuffer = 1024 * 1024, disableBufferPool = False, metricsCollector = None,
      metricsUpdateFreqMillis = 0, stackFilter = None, maxFieldLen = - 1\<rparr>"

type_synonym option_fun = "options \<Rightarrow> go_error + options"

section \<open>The options\<close>

definition size_error :: go_error where
  "size_error = ErrorText ''size cannot be less than zero''"

definition MaxQueueSize :: "int \<Rightarrow> option_fun" where
  "MaxQueueSize sz opt = (if sz < 0 then Inl size_error else Inr (opt\<lparr>maxQueueSize := sz\<rparr>))"

definition OnLoggerError :: "bool \<Rightarrow> option_fun" where
  "OnLoggerError f opt = Inr (opt\<lparr>onLoggerError := f\<rparr>)"

definition OnQueueFull :: "(log_rec \<Rightarrow> int \<Rightarrow> bool outcome) option \<Rightarrow> option_fun" where
  "OnQueueFull f opt = Inr (opt\<lparr>onQueueFull := f\<rparr>)"

definition OnTargetQueueFull :: "(nat \<Rightarrow> log_rec \<Rightarrow> int \<Rightarrow> bool outcome) option \<Rightarrow> option_fun" where
  "OnTargetQueueFull f opt = Inr (opt\<lparr>onTargetQueueFull := f\<rparr>)"

definition OnExit :: "bool \<Rightarrow> option_fun" where
  "OnExit f opt = Inr (opt\<lparr>onExit := f\<rparr>)"

definition OnPanic :: "bool \<Rightarrow> option_fun" where
  "OnPanic f opt = Inr (opt\<lparr>onPanic := f\<rparr>)"

definition EnqueueTimeout :: "int64 \<Rightarrow> option_fun" where
  "EnqueueTimeout dur opt = Inr (opt\<lparr>enqueueTimeout := dur\<rparr>)"

definition ShutdownTimeout :: "int64 \<Rightarrow> option_fun" where
  "ShutdownTimeout dur opt = Inr (opt\<lparr>shutdownTimeout := dur\<rparr>)"

definition FlushTimeout :: "int64 \<Rightarrow> option_fun" where
  "FlushTimeout dur opt = Inr (opt\<lparr>flushTimeout := dur\<rparr>)"

definition UseSyncMapLevelCache :: "bool \<Rightarrow> option_fun" where
  "UseSyncMapLevelCache b opt = Inr (opt\<lparr>useSyncMapLevelCache := b\<rparr>)"

definition MaxPooledBufferSize :: "int \<Rightarrow> option_fun" where
  "MaxPooledBufferSize sz opt = Inr (opt\<lparr>maxPooledBuffer := sz\<rparr>)"

definition DisableBufferPool :: "bool \<Rightarrow> option_fun" where
  "DisableBufferPool b opt = Inr (opt\<lparr>disableBufferPool := b\<rparr>)"

definition SetMetricsCollector :: "nat option \<Rightarrow> int64 \<Rightarrow> option_fun" where
  "SetMetricsCollector collector updateFreqMillis opt =
     (if collector = None then Inl (ErrorText ''collector cannot be nil'')
      else if sint updateFreqMillis < 250
      then Inl (ErrorText ''updateFreqMillis cannot be less than 250'')
      else Inr (opt\<lparr>metricsCollector := collector,
                    metricsUpdateFreqMillis := updateFreqMillis\<rparr>))"

fun add_packages :: "string set \<Rightarrow> string list \<Rightarrow> string set" where
  "add_packages flt [] = flt"
| "add_packages flt (p # pkg) = add_packages (if p \<noteq> [] then insert p flt else flt) pkg"

definition StackFilter :: "string list \<Rightarrow> option_fun" where
  "StackFilter pkg opt =
     (let flt = (case stackFilter opt of None \<Rightarrow> {} | Some s \<Rightarrow> s)
      in Inr (opt\<lparr>stackFilter := Some (add_packages flt pkg)\<rparr>))"

definition MaxFieldLen :: "int \<Rightarrow> option_fun" where
  "MaxFieldLen sz opt = (if sz < 0 then Inl size_error else Inr (opt\<lparr>maxFieldLen := sz\<rparr>))"

text \<open>The loop of \<^verbatim>\<open>New\<close>: the first error ends it.\<close>

fun apply_options :: "option_fun list \<Rightarrow> options \<Rightarrow> go_error + options" where
  "apply_options [] opt = Inr opt"
| "apply_options (f # fs) opt =
     (case f opt of Inl e \<Rightarrow> Inl e | Inr opt' \<Rightarrow> apply_options fs opt')"

section \<open>What the options keep\<close>

text \<open>The options \<^verbatim>\<open>options.go\<close> exports.\<close>

inductive_set builtin_options :: "option_fun set" where
  "MaxQueueSize sz \<in> builtin_options"
| "OnLoggerError b \<in> builtin_options"
| "OnQueueFull f \<in> builtin_options"
| "OnTargetQueueFull g \<in> builtin_options"
| "OnExit b \<in> builtin_options"
| "OnPanic b \<in> builtin_options"
| "EnqueueTimeout d \<in> builtin_options"
| "ShutdownTimeout d \<in> builtin_options"
| "FlushTimeout d \<in> builtin_options"
| "UseSyncMapLevelCache b \<in> builtin_options"
| "MaxPooledBufferSize sz \<in> builtin_options"
| "DisableBufferPool b \<in> builtin_options"
| "SetMetricsCollector mc freq \<in> builtin_options"
| "StackFilter pkg \<in> builtin_options"
| "MaxFieldLen sz \<in> builtin_options"

lemmas option_defs = MaxQueueSize_def OnLoggerError_def OnQueueFull_def OnTargetQueueFull_def
  OnExit_def OnPanic_def EnqueueTimeout_def ShutdownTimeout_def FlushTimeout_def
  UseSyncMapLevelCache_def MaxPooledBufferSize_def DisableBufferPool_def
  SetMetricsCollector_def StackFilter_def MaxFieldLen_def

text \<open>The size of the queue can be allocated; a collector is never nil and not polled too often.\<close>

definition options_valid :: "options \<Rightarrow> bool" where
  "options_valid opt \<longleftrightarrow>
     0 \<le> maxQueueSize opt \<and> - 1 \<le> maxFieldLen opt \<and>
     (metricsCollector opt \<noteq> None \<longrightarrow> 250 \<le> sint (metricsUpdateFreqMillis opt)) \<and>
     (\<forall>flt. stackFilter opt = Some flt \<longrightarrow> [] \<notin> flt)"

lemma options_valid_default: "options_valid default_options"
  by (simp add: options_valid_def default_options_def)

lemma add_packages_eq: "add_packages flt pkg = flt \<union> (set pkg - {[]})"
  by (induction pkg arbitrary: flt) auto

lemma options_valid_step:
  "f \<in> builtin_options \<Longrightarrow> options_valid opt \<Longrightarrow> f opt = Inr opt' \<Longrightarrow> options_valid opt'"
  by (induction rule: builtin_options.induct)
     (auto simp: option_defs options_valid_def add_packages_eq Let_def split: if_splits option.splits)

lemma options_valid_apply:
  "set fs \<subseteq> builtin_options \<Longrightarrow> options_valid opt \<Longrightarrow> apply_options fs opt = Inr opt' \<Longrightarrow>
   options_valid opt'"
proof (induction fs arbitrary: opt)
  case (Cons f fs)
  then obtain opt1 where opt1: "f opt = Inr opt1" "apply_options fs opt1 = Inr opt'"
    by (auto split: sum.splits)
  with Cons options_valid_step [of f opt opt1] show ?case by auto
qed simp

lemma apply_options_append:
  "apply_options (fs @ gs) opt =
     (case apply_options fs opt of Inl e \<Rightarrow> Inl e | Inr opt' \<Rightarrow> apply_options gs opt')"
  by (induction fs arbitrary: opt) (auto split: sum.split)

section \<open>Properties of the options\<close>

text \<open>
  Whatever options an application passes to \<^verbatim>\<open>New\<close>, if none is refused the configuration is one the
  engine can run with: the queue's size is not negative, the limit of fields is valid, a metrics
  collector is not polled too often, and the stack filter names no empty package.
\<close>

theorem options_stay_valid:
  assumes "set fs \<subseteq> builtin_options" "apply_options fs default_options = Inr opt"
  shows "options_valid opt"
  using options_valid_apply [OF assms(1) options_valid_default assms(2)] .

theorem options_stay_valid_witness:
  "\<exists>opt. apply_options [MaxQueueSize 10, StackFilter [''a'', '''']] default_options = Inr opt \<and>
     options_valid opt \<and> maxQueueSize opt = 10"
proof -
  have sub: "set [MaxQueueSize 10, StackFilter [''a'', '''']] \<subseteq> builtin_options"
    by (simp add: builtin_options.intros)
  have opt: "apply_options [MaxQueueSize 10, StackFilter [''a'', '''']] default_options =
      Inr (default_options\<lparr>maxQueueSize := 10, stackFilter := Some {''a''}\<rparr>)"
    by (simp add: option_defs default_options_def)
  show ?thesis using options_stay_valid [OF sub opt] opt by auto
qed

end
