(* ===== verification/Host.thy ===== *)
theory Host
  imports Formatter Options
begin

text \<open>
  A target host (\<^verbatim>\<open>target.go\<close>): the queue in front of one target, the loop that formats and
  writes the records of the queue, flushing and shutting down. A host's goroutine is a
  program counter; its steps are the relation \<open>host_step\<close>. Ghost fields record the history
  that the properties speak of.
\<close>

section \<open>The interfaces a host holds\<close>

text \<open>
  The interface \<^verbatim>\<open>Target\<close> on a target of state \<open>'t\<close>: its methods, and the name \<^verbatim>\<open>%T\<close> prints. A
  call of \<^verbatim>\<open>Write\<close> may panic.
\<close>

record 't target_iface =
  tType :: string
  tInit :: "'t \<Rightarrow> go_error option \<times> 't"
  tWrite :: "bytes \<Rightarrow> log_rec \<Rightarrow> 't \<Rightarrow> (int \<times> go_error option) outcome \<times> 't"
  tShutdown :: "'t \<Rightarrow> go_error option \<times> 't"

text \<open>The interface \<^verbatim>\<open>Formatter\<close>. The host always passes a buffer.\<close>

record formatter_iface =
  IsStacktraceNeeded :: bool
  Format :: "log_rec \<Rightarrow> level \<Rightarrow> bytes \<Rightarrow> (go_error + bytes) outcome"

definition DefaultFormatter :: "fmt_env \<Rightarrow> formatter_iface" where
  "DefaultFormatter env =
     \<lparr>IsStacktraceNeeded = DefaultFormatter_IsStacktraceNeeded,
      Format = (\<lambda>r l b. DefaultFormatter_Format env r l (Some b))\<rparr>"

text \<open>
  The counters and the gauge of a target, by the values a collector's implementations hold:
  \<^verbatim>\<open>Inc\<close> adds one. \<open>None\<close> in a host is the nil pointer of a host without metrics.
\<close>

record target_metrics =
  queueSizeGauge :: nat
  loggedCounter :: nat
  errorCounter :: nat
  droppedCounter :: nat
  blockedCounter :: nat

definition zero_metrics :: target_metrics where
  "zero_metrics = \<lparr>queueSizeGauge = 0, loggedCounter = 0, errorCounter = 0, droppedCounter = 0,
     blockedCounter = 0\<rparr>"

section \<open>The host\<close>

text \<open>
  Where the goroutine of \<^verbatim>\<open>start\<close> is: at its \<^verbatim>\<open>select\<close>, holding a record it received, in the loop
  of \<^verbatim>\<open>flush\<close> for a flush channel, about to send on that channel, or gone.
\<close>

datatype host_pc = HSelect | HGot log_rec | HFlush nat | HAck nat | HExited

text \<open>
  What became of a record: the result of its write; and of a record the engine offered to
  the host: taken into the queue, dropped by \<^verbatim>\<open>onTargetQueueFull\<close>, given up after the enqueue
  timeout, refused by a host that is shut down, or skipped because a call panicked.
\<close>

datatype write_result = WOk | WErr go_error | WPanic string
datatype offer = OAccepted | ODropped | OTimedOut | OShut | OSkipped

text \<open>
  \<open>hIn\<close> and \<open>hCap\<close> are the channel \<^verbatim>\<open>in\<close> and its capacity; \<open>hQuit\<close> and \<open>hDone\<close> say whether these
  channels are closed. The last six fields are ghosts: every record sent to the channel,
  every record received from it, every write with its result, every offer, how many records the
  engine had fanned out when the host was added, and the state of the target after \<^verbatim>\<open>Init\<close>.
\<close>

record 't host =
  hName :: string
  hFilter :: filter_obj
  hFormatter :: formatter_iface
  hTarget :: "'t target_iface"
  hState :: 't
  hIn :: "log_rec list"
  hCap :: nat
  hQuit :: bool
  hDone :: bool
  hShutdown :: bool
  hMetrics :: "target_metrics option"
  hPc :: host_pc
  hAccepted :: "log_rec list"
  hTaken :: "log_rec list"
  hLog :: "(log_rec \<times> write_result) list"
  hOffers :: "(log_rec \<times> offer) list"
  hBorn :: nat
  hInit :: 't

section \<open>Making a host\<close>

text \<open>
  A metrics collector by its methods: the error, if any, that each returns for a target.
\<close>

record metrics_collector =
  QueueSizeGauge :: "string \<Rightarrow> go_error option"
  LoggedCounter :: "string \<Rightarrow> go_error option"
  ErrorCounter :: "string \<Rightarrow> go_error option"
  DroppedCounter :: "string \<Rightarrow> go_error option"
  BlockedCounter :: "string \<Rightarrow> go_error option"

text \<open>The period of the updater of the gauge, an \<^verbatim>\<open>int64\<close>: 0 is the default, and not below 250.\<close>

definition updater_period :: "int64 \<Rightarrow> int64" where
  "updater_period freq =
     (let f = (if freq = 0 then 15000 else freq) in if sint f < 250 then 250 else f)"

text \<open>
  \<^verbatim>\<open>initMetrics\<close>: asks the collector for five metrics, stops at the first error, and starts
  the updater goroutine; the result names the period it runs with.
\<close>

definition host_initMetrics ::
  "(metrics_collector \<times> int64) option \<Rightarrow> string \<Rightarrow>
   go_error + (target_metrics option \<times> int64 option)" where
  "host_initMetrics metrics name =
     (case metrics of None \<Rightarrow> Inr (None, None)
      | Some (collector, freq) \<Rightarrow>
         (case QueueSizeGauge collector name of Some e \<Rightarrow> Inl e
          | None \<Rightarrow> (case LoggedCounter collector name of Some e \<Rightarrow> Inl e
          | None \<Rightarrow> (case ErrorCounter collector name of Some e \<Rightarrow> Inl e
          | None \<Rightarrow> (case DroppedCounter collector name of Some e \<Rightarrow> Inl e
          | None \<Rightarrow> (case BlockedCounter collector name of Some e \<Rightarrow> Inl e
          | None \<Rightarrow> Inr (Some zero_metrics, Some (updater_period freq))))))))"

record host_options =
  optName :: string
  optFilter :: "filter_obj option"
  optFormatter :: "formatter_iface option"
  optMaxQueueSize :: int
  optMetrics :: "(metrics_collector \<times> int64) option"

text \<open>
  \<^verbatim>\<open>newTargetHost\<close>: \<^verbatim>\<open>make\<close> of a channel of negative size panics. The first component of the
  result is the updater goroutine that was started, which outlives a failing \<^verbatim>\<open>Init\<close>. \<open>born\<close>
  is the ghost count of records fanned out before.
\<close>

definition newTargetHost ::
  "fmt_env \<Rightarrow> nat \<Rightarrow> 't target_iface \<Rightarrow> 't \<Rightarrow> host_options \<Rightarrow>
   (int64 option \<times> (go_error + 't host)) outcome" where
  "newTargetHost env born target st opts =
     (if optMaxQueueSize opts < 0 then Panics ''makechan: size out of range''
      else
        let name = (if optName opts = [] then tType target else optName opts);
            flt = (case optFilter opts of None \<Rightarrow> StdFilter \<lparr>Lvl = Fatal, StackLvl = zero_level\<rparr>
                   | Some f \<Rightarrow> f);
            fmt = (case optFormatter opts of None \<Rightarrow> DefaultFormatter env | Some f \<Rightarrow> f)
        in case host_initMetrics (optMetrics opts) name of
             Inl e \<Rightarrow> Ret (None, Inl e)
           | Inr (tm, updater) \<Rightarrow>
               (case tInit target st of
                  (Some e, st') \<Rightarrow> Ret (updater, Inl e)
                | (None, st') \<Rightarrow>
                    Ret (updater, Inr
                      \<lparr>hName = name, hFilter = flt, hFormatter = fmt, hTarget = target,
                       hState = st', hIn = [], hCap = nat (optMaxQueueSize opts), hQuit = False,
                       hDone = False, hShutdown = False, hMetrics = tm, hPc = HSelect,
                       hAccepted = [], hTaken = [], hLog = [], hOffers = [], hBorn = born,
                       hInit = st'\<rparr>)))"

section \<open>Operations\<close>

definition host_IsLevelEnabled :: "'t host \<Rightarrow> level \<Rightarrow> bool \<times> level" where
  "host_IsLevelEnabled h lvl =
     (case GetEnabledLevel (hFilter h) lvl of (level, enabled) \<Rightarrow> (enabled, level))"

definition inc_metric :: "(target_metrics \<Rightarrow> target_metrics) \<Rightarrow> 't host \<Rightarrow> 't host" where
  "inc_metric f h = h\<lparr>hMetrics := map_option f (hMetrics h)\<rparr>"

definition incLoggedCounter :: "'t host \<Rightarrow> 't host" where
  "incLoggedCounter = inc_metric (\<lambda>tm. tm\<lparr>loggedCounter := loggedCounter tm + 1\<rparr>)"

definition incErrorCounter :: "'t host \<Rightarrow> 't host" where
  "incErrorCounter = inc_metric (\<lambda>tm. tm\<lparr>errorCounter := errorCounter tm + 1\<rparr>)"

definition incDroppedCounter :: "'t host \<Rightarrow> 't host" where
  "incDroppedCounter = inc_metric (\<lambda>tm. tm\<lparr>droppedCounter := droppedCounter tm + 1\<rparr>)"

definition incBlockedCounter :: "'t host \<Rightarrow> 't host" where
  "incBlockedCounter = inc_metric (\<lambda>tm. tm\<lparr>blockedCounter := blockedCounter tm + 1\<rparr>)"

text \<open>The body of \<^verbatim>\<open>startMetricsUpdater\<close>: the gauge gets the length of the queue.\<close>

definition updateQueueSizeGauge :: "'t host \<Rightarrow> 't host" where
  "updateQueueSizeGauge h = inc_metric (\<lambda>tm. tm\<lparr>queueSizeGauge := length (hIn h)\<rparr>) h"

lemmas metric_defs = inc_metric_def incLoggedCounter_def incErrorCounter_def
  incDroppedCounter_def incBlockedCounter_def updateQueueSizeGauge_def

text \<open>
  \<^verbatim>\<open>writeRec\<close>: the buffer it borrows is empty. The result is the error or panic of the whole
  call, and the target's new state.
\<close>

definition writeRec :: "'t host \<Rightarrow> log_rec \<Rightarrow> go_error option outcome \<times> 't" where
  "writeRec h r =
     (let (level, enabled) = GetEnabledLevel (hFilter h) (recLevel r)
      in if \<not> enabled
         then (Ret (Some (ErrorText (''level '' @ Name (recLevel r) @
                     '' not enabled for target '' @ hName h))), hState h)
         else case Format (hFormatter h) r level [] of
                Panics e \<Rightarrow> (Panics e, hState h)
              | Ret (Inl e) \<Rightarrow> (Ret (Some e), hState h)
              | Ret (Inr b) \<Rightarrow>
                  (case tWrite (hTarget h) b r (hState h) of
                     (Panics e, st) \<Rightarrow> (Panics e, st)
                   | (Ret (n, err), st) \<Rightarrow> (Ret err, st)))"

definition write_result_of :: "go_error option outcome \<Rightarrow> write_result" where
  "write_result_of o' =
     (case o' of Panics e \<Rightarrow> WPanic e | Ret None \<Rightarrow> WOk | Ret (Some e) \<Rightarrow> WErr e)"

text \<open>
  One record written by the loop of \<^verbatim>\<open>start\<close> (\<open>counted\<close>) or of \<^verbatim>\<open>flush\<close>, then on to \<open>next\<close>. An
  error is counted and reported to the engine. A panic is recovered by \<^verbatim>\<open>start\<close>, which runs
  again from its \<^verbatim>\<open>select\<close>. Only the loop of \<^verbatim>\<open>start\<close> increments the logged counter.
\<close>

definition host_write :: "bool \<Rightarrow> host_pc \<Rightarrow> 't host \<Rightarrow> log_rec \<Rightarrow> 't host \<times> go_error list" where
  "host_write counted next_pc h r =
     (let (res, st) = writeRec h r;
          h = h\<lparr>hState := st, hLog := hLog h @ [(r, write_result_of res)]\<rparr>
      in case res of
           Panics e \<Rightarrow> (h\<lparr>hPc := HSelect\<rparr>, [])
         | Ret (Some e) \<Rightarrow> ((incErrorCounter h)\<lparr>hPc := next_pc\<rparr>, [e])
         | Ret None \<Rightarrow>
             ((if counted then incLoggedCounter h else h)\<lparr>hPc := next_pc\<rparr>, []))"

text \<open>
  Whether a send on \<^verbatim>\<open>in\<close> can proceed, and what it does: with a buffer, if there is room;
  without one, if the loop waits at its \<^verbatim>\<open>select\<close>, which then has the record.
\<close>

definition host_can_send :: "'t host \<Rightarrow> bool" where
  "host_can_send h \<longleftrightarrow> (if hCap h = 0 then hPc h = HSelect else length (hIn h) < hCap h)"

definition host_send :: "'t host \<Rightarrow> log_rec \<Rightarrow> 't host" where
  "host_send h r =
     (if hCap h = 0
      then h\<lparr>hAccepted := hAccepted h @ [r], hTaken := hTaken h @ [r], hPc := HGot r\<rparr>
      else h\<lparr>hAccepted := hAccepted h @ [r], hIn := hIn h @ [r]\<rparr>)"

text \<open>
  The first part of \<^verbatim>\<open>Shutdown\<close>: \<open>None\<close> if it was called before. The second part, after the
  loop is gone or the context has expired, shuts the target down.
\<close>

definition host_begin_shutdown :: "'t host \<Rightarrow> 't host option" where
  "host_begin_shutdown h = (if hShutdown h then None else Some (h\<lparr>hShutdown := True, hQuit := True\<rparr>))"

definition host_shutdown_twice :: go_error where
  "host_shutdown_twice = ErrorText ''targetHost shutdown called more than once''"

definition host_finish_shutdown :: "'t host \<Rightarrow> go_error option \<times> 't host" where
  "host_finish_shutdown h =
     (case tShutdown (hTarget h) (hState h) of (err, st) \<Rightarrow> (err, h\<lparr>hState := st\<rparr>))"

section \<open>The steps of the loop\<close>

text \<open>
  \<open>host_step h h' errs\<close>: the goroutine moves from \<open>h\<close> to \<open>h'\<close> and reports \<open>errs\<close> to the engine.
  When both \<^verbatim>\<open>in\<close> and \<^verbatim>\<open>quit\<close> are ready, Go's \<^verbatim>\<open>select\<close> takes either. The send on the flush
  channel is a step of two goroutines, and so a step of the system.
\<close>

inductive host_step :: "'t host \<Rightarrow> 't host \<Rightarrow> go_error list \<Rightarrow> bool" where
  recv: "hPc h = HSelect \<Longrightarrow> hIn h = r # rs \<Longrightarrow>
    host_step h (h\<lparr>hIn := rs, hTaken := hTaken h @ [r], hPc := HGot r\<rparr>) []"
| quit: "hPc h = HSelect \<Longrightarrow> hQuit h \<Longrightarrow>
    host_step h (h\<lparr>hPc := HExited, hDone := True\<rparr>) []"
| write_rec: "hPc h = HGot r \<Longrightarrow> flush r = None \<Longrightarrow> host_write True HSelect h r = (h', errs) \<Longrightarrow>
    host_step h h' errs"
| begin_flush: "hPc h = HGot r \<Longrightarrow> flush r = Some ch \<Longrightarrow> host_step h (h\<lparr>hPc := HFlush ch\<rparr>) []"
| drain_rec: "hPc h = HFlush ch \<Longrightarrow> hIn h = r # rs \<Longrightarrow> flush r = None \<Longrightarrow>
    host_write False (HFlush ch) (h\<lparr>hIn := rs, hTaken := hTaken h @ [r]\<rparr>) r = (h', errs) \<Longrightarrow>
    host_step h h' errs"
| drain_skip: "hPc h = HFlush ch \<Longrightarrow> hIn h = r # rs \<Longrightarrow> flush r \<noteq> None \<Longrightarrow>
    host_step h (h\<lparr>hIn := rs, hTaken := hTaken h @ [r]\<rparr>) []"
| drain_end: "hPc h = HFlush ch \<Longrightarrow> hIn h = [] \<Longrightarrow> host_step h (h\<lparr>hPc := HAck ch\<rparr>) []"

inductive_cases host_step_cases: "host_step h h' errs"

section \<open>The invariant of a host\<close>

text \<open>The records of a list that are not flush records.\<close>

definition log_recs :: "log_rec list \<Rightarrow> log_rec list" where
  "log_recs rs = filter (\<lambda>r. flush r = None) rs"

lemma log_recs_simps [simp]:
  "log_recs [] = []"
  "log_recs (r # rs) = (if flush r = None then r # log_recs rs else log_recs rs)"
  "log_recs (rs @ rs') = log_recs rs @ log_recs rs'"
  by (simp_all add: log_recs_def)

text \<open>The record that the loop holds and has not written yet.\<close>

fun host_holds :: "host_pc \<Rightarrow> log_rec list" where
  "host_holds (HGot r) = log_recs [r]"
| "host_holds _ = []"

text \<open>
  The queue is first-in first-out and bounded; every record taken from it was written, or is
  the one in hand; the loop is gone exactly if \<^verbatim>\<open>done\<close> is closed; both marks of a shutdown are
  set together.
\<close>

definition host_inv :: "'t host \<Rightarrow> bool" where
  "host_inv h \<longleftrightarrow>
     hAccepted h = hTaken h @ hIn h \<and>
     length (hIn h) \<le> hCap h \<and>
     log_recs (hTaken h) = map fst (hLog h) @ host_holds (hPc h) \<and>
     (hDone h \<longleftrightarrow> hPc h = HExited) \<and>
     (hQuit h \<longleftrightarrow> hShutdown h) \<and>
     (hDone h \<longrightarrow> hQuit h)"

lemma host_write_fields:
  assumes "host_write counted pc h r = (h', errs)"
  shows "hLog h' = hLog h @ [(r, write_result_of (fst (writeRec h r)))]"
    "hPc h' = pc \<or> hPc h' = HSelect"
    "hIn h' = hIn h" "hCap h' = hCap h" "hQuit h' = hQuit h" "hDone h' = hDone h"
    "hShutdown h' = hShutdown h" "hAccepted h' = hAccepted h" "hTaken h' = hTaken h"
    "hOffers h' = hOffers h" "hBorn h' = hBorn h" "hFilter h' = hFilter h" "hName h' = hName h"
  using assms
  by (auto simp: host_write_def metric_defs Let_def
        split: prod.splits outcome.splits option.splits if_splits)

lemma host_step_inv: "host_step h h' errs \<Longrightarrow> host_inv h \<Longrightarrow> host_inv h'"
proof (induction rule: host_step.induct)
  case (write_rec h r h' errs)
  then show ?case
    using host_write_fields [OF write_rec(3)] by (auto simp: host_inv_def)
next
  case (drain_rec h ch r rs h' errs)
  then show ?case
    using host_write_fields [OF drain_rec(4)] by (auto simp: host_inv_def)
qed (auto simp: host_inv_def)

lemma host_send_inv: "host_can_send h \<Longrightarrow> host_inv h \<Longrightarrow> host_inv (host_send h r)"
  by (auto simp: host_inv_def host_send_def host_can_send_def split: if_splits)

lemma newTargetHost_inv: "newTargetHost env n t st opts = Ret (g, Inr h) \<Longrightarrow> host_inv h"
  by (auto simp: newTargetHost_def host_inv_def Let_def split: if_splits sum.splits prod.splits
        option.splits)

text \<open>A step changes nothing but what the loop owns.\<close>

lemma host_step_frame:
  "host_step h h' errs \<Longrightarrow>
   hAccepted h' = hAccepted h \<and> hOffers h' = hOffers h \<and> hBorn h' = hBorn h \<and>
   hFilter h' = hFilter h \<and> hShutdown h' = hShutdown h \<and> hQuit h' = hQuit h \<and> hCap h' = hCap h \<and>
   hName h' = hName h"
  by (induction rule: host_step.induct) (auto dest: host_write_fields)

section \<open>A flush drains the host\<close>

definition host_moves :: "'t host \<Rightarrow> 't host \<Rightarrow> bool" where
  "host_moves h h' \<longleftrightarrow> (\<exists>errs. host_step h h' errs)"

lemma writeRec_same:
  assumes "hFilter h' = hFilter h" "hFormatter h' = hFormatter h" "hTarget h' = hTarget h"
    and "hName h' = hName h" "hState h' = hState h"
  shows "writeRec h' r = writeRec h r"
  unfolding writeRec_def assms ..

definition never_panics :: "'t host \<Rightarrow> bool" where
  "never_panics h \<longleftrightarrow> (\<forall>st r e. fst (writeRec (h\<lparr>hState := st\<rparr>) r) \<noteq> Panics e)"

lemma host_write_drain:
  assumes "host_write False pc h r = (h', errs)" "never_panics h"
  shows "hPc h' = pc" "hFilter h' = hFilter h \<and> hFormatter h' = hFormatter h \<and> hTarget h' = hTarget h"
    "map_option loggedCounter (hMetrics h') = map_option loggedCounter (hMetrics h)"
    "never_panics h'"
proof -
  have no: "fst (writeRec h r) \<noteq> Panics e" for e
    using assms(2) unfolding never_panics_def by (drule_tac x = "hState h" in spec) simp
  then show same: "hPc h' = pc" "hFilter h' = hFilter h \<and> hFormatter h' = hFormatter h \<and> hTarget h' = hTarget h"
      "map_option loggedCounter (hMetrics h') = map_option loggedCounter (hMetrics h)"
    using assms(1)
    by (auto simp: host_write_def metric_defs Let_def option.map_comp comp_def
        split: prod.splits outcome.splits option.splits)
  have "writeRec (h'\<lparr>hState := st\<rparr>) r' = writeRec (h\<lparr>hState := st\<rparr>) r'" for st r'
    using same(2) host_write_fields(13) [OF assms(1)] by (intro writeRec_same) simp_all
  then show "never_panics h'"
    using assms(2) by (simp add: never_panics_def)
qed

lemma host_drains:
  assumes "hPc h = HFlush ch" "never_panics h"
  shows "\<exists>h'. host_moves\<^sup>*\<^sup>* h h' \<and> hPc h' = HAck ch \<and> hIn h' = [] \<and>
    map fst (hLog h') = map fst (hLog h) @ log_recs (hIn h) \<and>
    map_option loggedCounter (hMetrics h') = map_option loggedCounter (hMetrics h)"
  using assms
proof (induction "hIn h" arbitrary: h)
  case Nil
  then have "host_moves h (h\<lparr>hPc := HAck ch\<rparr>)"
    unfolding host_moves_def by (metis host_step.drain_end)
  with Nil show ?case by (intro exI [of _ "h\<lparr>hPc := HAck ch\<rparr>"]) auto
next
  case (Cons r rs)
  define h0 where "h0 = h\<lparr>hIn := rs, hTaken := hTaken h @ [r]\<rparr>"
  have "writeRec (h0\<lparr>hState := st\<rparr>) r' = writeRec (h\<lparr>hState := st\<rparr>) r'" for st r'
    by (intro writeRec_same) (simp_all add: h0_def)
  then have np0: "never_panics h0"
    using Cons.prems(2) by (simp add: never_panics_def)
  show ?case
  proof (cases "flush r")
    case None
    obtain h1 errs where h1: "host_write False (HFlush ch) h0 r = (h1, errs)"
      by (cases "host_write False (HFlush ch) h0 r")
    then have "host_moves h h1"
      using Cons None unfolding host_moves_def h0_def by (metis host_step.drain_rec)
    moreover note host_write_drain [OF h1 np0] host_write_fields [OF h1]
    moreover from this obtain h' where "host_moves\<^sup>*\<^sup>* h1 h'" "hPc h' = HAck ch" "hIn h' = []"
        "map fst (hLog h') = map fst (hLog h1) @ log_recs rs"
        "map_option loggedCounter (hMetrics h') = map_option loggedCounter (hMetrics h1)"
      using Cons.hyps(1) [of h1] by (auto simp: h0_def)
    ultimately show ?thesis
      using None Cons.hyps(2) [symmetric]
      by (intro exI [of _ h']) (auto simp: h0_def intro: converse_rtranclp_into_rtranclp)
  next
    case (Some a)
    then have "host_moves h h0"
      using Cons unfolding host_moves_def h0_def by (metis host_step.drain_skip option.distinct(1))
    moreover obtain h' where "host_moves\<^sup>*\<^sup>* h0 h'" "hPc h' = HAck ch" "hIn h' = []"
        "map fst (hLog h') = map fst (hLog h0) @ log_recs rs"
        "map_option loggedCounter (hMetrics h') = map_option loggedCounter (hMetrics h0)"
      using Cons.hyps(1) [of h0] Cons.prems np0 by (auto simp: h0_def)
    ultimately show ?thesis
      using Some Cons.hyps(2) [symmetric]
      by (intro exI [of _ h']) (auto simp: h0_def intro: converse_rtranclp_into_rtranclp)
  qed
qed

text \<open>
  C11: A flush drains the host: from the loop of \<^verbatim>\<open>TargetHost.flush\<close>, if no write panics, the goroutine
  gets to the acknowledgement with an empty queue, after writing the log records of the queue in
  order; but none of them is counted by the logged counter.
\<close>

theorem flush_drains_host:
  assumes "hPc h = HFlush ch" "never_panics h"
  shows "\<exists>h'. host_moves\<^sup>*\<^sup>* h h' \<and> hPc h' = HAck ch \<and> hIn h' = [] \<and>
    map fst (hLog h') = map fst (hLog h) @ log_recs (hIn h) \<and>
    map_option loggedCounter (hMetrics h') = map_option loggedCounter (hMetrics h)"
  using assms by (rule host_drains)

text \<open>A host in the middle of a flush, with one record left and a target that takes everything.\<close>

definition tiny_host :: "nat host" where
  "tiny_host =
     \<lparr>hName = ''tiny'', hFilter = StdFilter \<lparr>Lvl = Info, StackLvl = zero_level\<rparr>,
      hFormatter = \<lparr>IsStacktraceNeeded = False, Format = (\<lambda>r l b. Ret (Inr (b @ recMsg r)))\<rparr>,
      hTarget = \<lparr>tType = ''tiny'', tInit = (\<lambda>n. (None, n)),
        tWrite = (\<lambda>p r n. (Ret (int (length p), None), n + length p)), tShutdown = (\<lambda>n. (None, n))\<rparr>,
      hState = 0, hIn = [zero_LogRec], hCap = 2, hQuit = False, hDone = False, hShutdown = False,
      hMetrics = Some zero_metrics, hPc = HFlush 3, hAccepted = [zero_LogRec], hTaken = [],
      hLog = [], hOffers = [], hBorn = 0, hInit = 0\<rparr>"

theorem flush_drains_host_witness:
  "\<exists>h'. host_moves\<^sup>*\<^sup>* tiny_host h' \<and> hPc h' = HAck 3 \<and> map fst (hLog h') = [zero_LogRec] \<and>
     map_option loggedCounter (hMetrics h') = Some 0"
proof -
  have "never_panics tiny_host"
    by (simp add: never_panics_def writeRec_def tiny_host_def split: prod.split)
  moreover have "hPc tiny_host = HFlush 3"
    by (simp add: tiny_host_def)
  ultimately obtain h' where "host_moves\<^sup>*\<^sup>* tiny_host h'" "hPc h' = HAck 3"
      "map fst (hLog h') = map fst (hLog tiny_host) @ log_recs (hIn tiny_host)"
      "map_option loggedCounter (hMetrics h') = map_option loggedCounter (hMetrics tiny_host)"
    using flush_drains_host by blast
  then show ?thesis
    by (intro exI [of _ h']) (simp add: tiny_host_def zero_LogRec_def zero_metrics_def)
qed

end
