(* ===== verification/System.thy ===== *)
theory System
  imports Host
begin

text \<open>
  The engine as a concurrent system (\<^verbatim>\<open>logr.go\<close> with \<^verbatim>\<open>target.go\<close>): its read loop \<^verbatim>\<open>start\<close> with
  \<^verbatim>\<open>fanout\<close> and \<^verbatim>\<open>flush\<close>, the loops of the target hosts, and any number of client goroutines
  that log, flush, shut down, add and remove targets. Every goroutine is a program counter;
  a step is one operation on shared state: a channel operation, an atomic variable, a call
  of a handler, or a lock taken or released. A timer may expire at any moment, so each
  \<^verbatim>\<open>select\<close> with a timeout has a step for it that has no guard.
\<close>

section \<open>Program counters\<close>

text \<open>
  The read loop. \<open>fan_cont\<close> is where \<^verbatim>\<open>fanout\<close> returns to: the \<^verbatim>\<open>select\<close> of \<^verbatim>\<open>start\<close> or the
  drain loop of \<^verbatim>\<open>flush\<close>. \<open>log_cont\<close> is where \<^verbatim>\<open>TargetHost.Log\<close> returns to: the loop of \<^verbatim>\<open>fanout\<close>
  over the remaining hosts, or the loop of \<^verbatim>\<open>flush\<close>, which then waits on the channel of the
  flush record it sent.
\<close>

datatype fan_cont = AtSelect | InDrain nat

datatype log_cont =
    LFan fan_cont log_rec "nat list"
  | LFlush nat "nat list" nat

datatype main_pc =
    MSelect
  | MGot log_rec
  | MFan fan_cont log_rec "nat list" bool
  | MLog log_cont log_rec nat      \<comment> \<open>at the first \<^verbatim>\<open>select\<close> of \<^verbatim>\<open>Log\<close>\<close>
  | MBlocked log_cont log_rec nat  \<comment> \<open>at its second \<^verbatim>\<open>select\<close>\<close>
  | MDrain nat
  | MHosts nat "nat list"
  | MAck nat nat "nat list" nat    \<comment> \<open>waits for a host's flush\<close>
  | MNotify nat                    \<comment> \<open>about to send on the channel of the flush record\<close>
  | MExited

text \<open>
  A client: idle; in \<^verbatim>\<open>enqueue\<close> with a record, before or after the queue was found full; waiting
  for a flush (for \<^verbatim>\<open>Flush\<close>, or on behalf of \<^verbatim>\<open>Shutdown\<close>); in the stages of \<^verbatim>\<open>Shutdown\<close>; in
  the loop of \<^verbatim>\<open>RemoveTargets\<close>; in \<^verbatim>\<open>AddTarget\<close> with the host it made; or ended by a panic of
  \<^verbatim>\<open>onQueueFull\<close>.
\<close>

datatype enq_next = NLog | NFlush nat bool

datatype 't client_pc =
    CIdle
  | CEnq log_rec enq_next
  | CBlocked log_rec enq_next
  | CWait nat bool
  | CSwap
  | CClose
  | CWaitDone
  | CHosts "nat list" "go_error list"
  | CHostWait nat "nat list" "go_error list"
  | CRemove "nat list" "nat list" "string \<times> string \<Rightarrow> bool" "go_error list"
  | CRemoveWait nat "nat list" "nat list" "string \<times> string \<Rightarrow> bool" "go_error list"
  | CAdd "'t host"
  | CGone

section \<open>The state\<close>

text \<open>
  The first five fields do not change: the options, the renderings of the standard library,
  the text of a record (\<^verbatim>\<open>LogRec.String\<close>), the resolution of program counters, and
  \<^verbatim>\<open>ErrorOrNil\<close> of the third-party multi-error. Then the channel \<^verbatim>\<open>in\<close>, the marks \<^verbatim>\<open>quit\<close>, \<^verbatim>\<open>done\<close>
  and \<^verbatim>\<open>shutdown\<close>, the hosts, the goroutines, the writer that holds \<^verbatim>\<open>tmux\<close> if any, and a supply
  of channels. The rest is ghost: hosts removed, errors reported, calls of
  \<^verbatim>\<open>incLoggedCounter\<close>, records sent to the queue, received from it and fanned out, and the
  results of the calls of \<^verbatim>\<open>Flush\<close>, \<^verbatim>\<open>Shutdown\<close> and \<^verbatim>\<open>RemoveTargets\<close>.
\<close>

record 't sys =
  opts :: options
  fmtEnv :: fmt_env
  recText :: "log_rec \<Rightarrow> string"
  resolveFrames :: "nat list \<Rightarrow> frame list"
  errorOrNil :: "go_error list \<Rightarrow> go_error option"
  qIn :: "log_rec list"
  quitClosed :: bool
  doneClosed :: bool
  lgrShutdown :: bool
  hosts :: "'t host list"
  mpc :: main_pc
  clients :: "nat \<Rightarrow> 't client_pc"
  wlock :: "nat option"
  nextCh :: nat
  gone :: "'t host list"
  reported :: "go_error list"
  lgrLogged :: nat
  accepted :: "log_rec list"
  taken :: "log_rec list"
  fanned :: "log_rec list"
  returns :: "(nat \<times> go_error option) list"

definition init_sys ::
  "options \<Rightarrow> fmt_env \<Rightarrow> (log_rec \<Rightarrow> string) \<Rightarrow> (nat list \<Rightarrow> frame list) \<Rightarrow>
   (go_error list \<Rightarrow> go_error option) \<Rightarrow> 't sys" where
  "init_sys opt env txt res eon =
     \<lparr>opts = opt, fmtEnv = env, recText = txt, resolveFrames = res, errorOrNil = eon,
      qIn = [], quitClosed = False, doneClosed = False, lgrShutdown = False, hosts = [],
      mpc = MSelect, clients = (\<lambda>c. CIdle), wlock = None, nextCh = 0, gone = [],
      reported = [], lgrLogged = 0, accepted = [], taken = [], fanned = [], returns = []\<rparr>"

text \<open>The capacity of the queue, and what \<^verbatim>\<open>prep\<close> makes of a record in this engine.\<close>

definition qCap :: "'t sys \<Rightarrow> nat" where
  "qCap s = nat (maxQueueSize (opts s))"

definition prepped :: "'t sys \<Rightarrow> log_rec \<Rightarrow> log_rec" where
  "prepped s r = prep (case stackFilter (opts s) of None \<Rightarrow> {} | Some flt \<Rightarrow> flt) (resolveFrames s) r"

definition host_enabled :: "'t host \<Rightarrow> log_rec \<Rightarrow> bool" where
  "host_enabled h r = fst (host_IsLevelEnabled h (recLevel r))"

definition set_client :: "nat \<Rightarrow> 't client_pc \<Rightarrow> 't sys \<Rightarrow> 't sys" where
  "set_client c pc s = s\<lparr>clients := (clients s)(c := pc)\<rparr>"

definition report :: "go_error list \<Rightarrow> 't sys \<Rightarrow> 't sys" where
  "report errs s = s\<lparr>reported := reported s @ errs\<rparr>"

definition set_host :: "nat \<Rightarrow> 't host \<Rightarrow> 't sys \<Rightarrow> 't sys" where
  "set_host i h s = s\<lparr>hosts := (hosts s)[i := h]\<rparr>"

definition return_to :: "nat \<Rightarrow> go_error option \<Rightarrow> 't sys \<Rightarrow> 't sys" where
  "return_to c res s = s\<lparr>clients := (clients s)(c := CIdle), returns := returns s @ [(c, res)]\<rparr>"

lemmas sys_upd_defs = set_client_def report_def set_host_def return_to_def

section \<open>The read loop\<close>

fun after_fan :: "fan_cont \<Rightarrow> main_pc" where
  "after_fan AtSelect = MSelect"
| "after_fan (InDrain ch) = MDrain ch"

text \<open>\<^verbatim>\<open>fanout\<close> returns: the record is done; \<open>logged\<close> tells whether a host was asked to log it.\<close>

definition end_fan :: "fan_cont \<Rightarrow> log_rec \<Rightarrow> bool \<Rightarrow> 't sys \<Rightarrow> 't sys" where
  "end_fan c r logged s =
     s\<lparr>mpc := after_fan c, fanned := fanned s @ [r],
       lgrLogged := lgrLogged s + (if logged then 1 else 0)\<rparr>"

definition add_offer :: "log_rec \<Rightarrow> offer \<Rightarrow> 't host \<Rightarrow> 't host" where
  "add_offer r ofr h = h\<lparr>hOffers := hOffers h @ [(r, ofr)]\<rparr>"

text \<open>
  \<^verbatim>\<open>TargetHost.Log\<close> returns for host \<open>i\<close> after the record was dealt with as \<open>ofr\<close>.
\<close>

fun log_done :: "log_cont \<Rightarrow> nat \<Rightarrow> offer \<Rightarrow> 't sys \<Rightarrow> 't sys" where
  "log_done (LFan c r rest) i ofr s =
     (set_host i (add_offer r ofr (hosts s ! i)) s)\<lparr>mpc := MFan c r rest True\<rparr>"
| "log_done (LFlush ch rest ack) i ofr s = s\<lparr>mpc := MAck ch i rest ack\<rparr>"

text \<open>The record reaches none of the remaining hosts that enable it.\<close>

fun skip_hosts :: "log_rec \<Rightarrow> nat list \<Rightarrow> 't host list \<Rightarrow> 't host list" where
  "skip_hosts r [] hs = hs"
| "skip_hosts r (i # is) hs =
     skip_hosts r is
       (if host_enabled (hs ! i) r then hs[i := add_offer r OSkipped (hs ! i)] else hs)"

text \<open>
  A panic of \<^verbatim>\<open>onTargetQueueFull\<close> inside \<^verbatim>\<open>Log\<close>: \<^verbatim>\<open>fanout\<close> recovers and reports it, and the
  remaining hosts do not get the record; in \<^verbatim>\<open>flush\<close> it ends \<^verbatim>\<open>start\<close>, which reports it and runs
  again.
\<close>

fun log_panic :: "log_cont \<Rightarrow> nat \<Rightarrow> string \<Rightarrow> 't sys \<Rightarrow> 't sys" where
  "log_panic (LFan c r rest) i e s =
     report [ErrorText (''fanout failed for target '' @ hName (hosts s ! i) @ '', '' @ e)]
       (end_fan c r False (s\<lparr>hosts := skip_hosts r (i # rest) (hosts s)\<rparr>))"
| "log_panic (LFlush ch rest ack) i e s = report [ErrorText e] (s\<lparr>mpc := MSelect\<rparr>)"

definition target_timeout_error :: "'t sys \<Rightarrow> log_rec \<Rightarrow> go_error" where
  "target_timeout_error s r =
     ErrorText (''target enqueue timeout for log rec ['' @ recText s r @ '']'')"

text \<open>Where \<^verbatim>\<open>tmux\<close> is held for reading, and whether a writer can take it.\<close>

fun main_rlocked :: "main_pc \<Rightarrow> bool" where
  "main_rlocked (MFan c r rest lg) = True"
| "main_rlocked (MLog k r i) = True"
| "main_rlocked (MBlocked k r i) = True"
| "main_rlocked (MHosts ch rest) = True"
| "main_rlocked (MAck ch i rest ack) = True"
| "main_rlocked (MNotify ch) = True"
| "main_rlocked _ = False"

fun client_rlocked :: "'t client_pc \<Rightarrow> bool" where
  "client_rlocked (CHosts is errs) = True"
| "client_rlocked (CHostWait i is errs) = True"
| "client_rlocked _ = False"

definition can_lock :: "'t sys \<Rightarrow> bool" where
  "can_lock s \<longleftrightarrow>
     wlock s = None \<and> \<not> main_rlocked (mpc s) \<and> (\<forall>c. \<not> client_rlocked (clients s c))"

text \<open>
  Whether a client is parked on a send to the queue; only a queue without a buffer lets the
  drain loop of \<^verbatim>\<open>flush\<close> receive from it directly.
\<close>

definition client_blocked :: "'t sys \<Rightarrow> bool" where
  "client_blocked s \<longleftrightarrow> (\<exists>c r k. clients s c = CBlocked r k)"

definition after_enq :: "nat \<Rightarrow> enq_next \<Rightarrow> 't sys \<Rightarrow> 't sys" where
  "after_enq c k s =
     set_client c (case k of NLog \<Rightarrow> CIdle | NFlush ch sh \<Rightarrow> CWait ch sh) s"

text \<open>The drain loop of \<^verbatim>\<open>flush\<close> deals with a record it received: other flush records are ignored.\<close>

definition drain_got :: "nat \<Rightarrow> log_rec \<Rightarrow> 't sys \<Rightarrow> 't sys" where
  "drain_got ch r s =
     (if flush r = None
      then s\<lparr>taken := taken s @ [r],
             mpc := MFan (InDrain ch) (prepped s r) [0..<length (hosts s)] False\<rparr>
      else s\<lparr>taken := taken s @ [r]\<rparr>)"

inductive main_step :: "'t sys \<Rightarrow> 't sys \<Rightarrow> bool" where
  m_recv: "mpc s = MSelect \<Longrightarrow> qIn s = r # rs \<Longrightarrow>
    main_step s (s\<lparr>qIn := rs, taken := taken s @ [r], mpc := MGot r\<rparr>)"
| m_quit: "mpc s = MSelect \<Longrightarrow> quitClosed s \<Longrightarrow>
    main_step s (s\<lparr>mpc := MExited, doneClosed := True\<rparr>)"
| m_flush: "mpc s = MGot r \<Longrightarrow> flush r = Some ch \<Longrightarrow> main_step s (s\<lparr>mpc := MDrain ch\<rparr>)"
| m_fanout: "mpc s = MGot r \<Longrightarrow> flush r = None \<Longrightarrow> wlock s = None \<Longrightarrow>
    main_step s (s\<lparr>mpc := MFan AtSelect (prepped s r) [0..<length (hosts s)] False\<rparr>)"
| m_drain: "mpc s = MDrain ch \<Longrightarrow> qIn s = r # rs \<Longrightarrow> flush r = None \<longrightarrow> wlock s = None \<Longrightarrow>
    main_step s (drain_got ch r (s\<lparr>qIn := rs\<rparr>))"
| m_drain_handoff: "mpc s = MDrain ch \<Longrightarrow> qCap s = 0 \<Longrightarrow> clients s c = CBlocked r k \<Longrightarrow>
    flush r = None \<longrightarrow> wlock s = None \<Longrightarrow>
    main_step s (drain_got ch r (after_enq c k (s\<lparr>accepted := accepted s @ [r]\<rparr>)))"
| m_drain_end: "mpc s = MDrain ch \<Longrightarrow> qIn s = [] \<Longrightarrow> \<not> (qCap s = 0 \<and> client_blocked s) \<Longrightarrow>
    wlock s = None \<Longrightarrow>
    main_step s (s\<lparr>mpc := MHosts ch [0..<length (hosts s)]\<rparr>)"
| m_fan_disabled: "mpc s = MFan c r (i # is) lg \<Longrightarrow> \<not> host_enabled (hosts s ! i) r \<Longrightarrow>
    main_step s (s\<lparr>mpc := MFan c r is lg\<rparr>)"
| m_fan_shut: "mpc s = MFan c r (i # is) lg \<Longrightarrow> host_enabled (hosts s ! i) r \<Longrightarrow>
    hShutdown (hosts s ! i) \<Longrightarrow> main_step s (log_done (LFan c r is) i OShut s)"
| m_fan_log: "mpc s = MFan c r (i # is) lg \<Longrightarrow> host_enabled (hosts s ! i) r \<Longrightarrow>
    \<not> hShutdown (hosts s ! i) \<Longrightarrow> main_step s (s\<lparr>mpc := MLog (LFan c r is) r i\<rparr>)"
| m_fan_end: "mpc s = MFan c r [] lg \<Longrightarrow> main_step s (end_fan c r lg s)"
| m_send: "mpc s = MLog k r i \<Longrightarrow> host_can_send (hosts s ! i) \<Longrightarrow>
    main_step s (log_done k i OAccepted (set_host i (host_send (hosts s ! i) r) s))"
| m_full_drop: "mpc s = MLog k r i \<Longrightarrow> \<not> host_can_send (hosts s ! i) \<Longrightarrow>
    onTargetQueueFull (opts s) = Some f \<Longrightarrow> f i r (int (hCap (hosts s ! i))) = Ret True \<Longrightarrow>
    main_step s (log_done k i ODropped (set_host i (incDroppedCounter (hosts s ! i)) s))"
| m_full_panic: "mpc s = MLog k r i \<Longrightarrow> \<not> host_can_send (hosts s ! i) \<Longrightarrow>
    onTargetQueueFull (opts s) = Some f \<Longrightarrow> f i r (int (hCap (hosts s ! i))) = Panics e \<Longrightarrow>
    main_step s (log_panic k i e s)"
| m_full_block: "mpc s = MLog k r i \<Longrightarrow> \<not> host_can_send (hosts s ! i) \<Longrightarrow>
    onTargetQueueFull (opts s) = None \<or>
      (\<exists>f. onTargetQueueFull (opts s) = Some f \<and> f i r (int (hCap (hosts s ! i))) = Ret False) \<Longrightarrow>
    main_step s ((set_host i (incBlockedCounter (hosts s ! i)) s)\<lparr>mpc := MBlocked k r i\<rparr>)"
| m_blocked_send: "mpc s = MBlocked k r i \<Longrightarrow> host_can_send (hosts s ! i) \<Longrightarrow>
    main_step s (log_done k i OAccepted (set_host i (host_send (hosts s ! i) r) s))"
| m_blocked_timeout: "mpc s = MBlocked k r i \<Longrightarrow>
    main_step s (log_done k i OTimedOut (report [target_timeout_error s r] s))"
| m_hosts_shut: "mpc s = MHosts ch (i # is) \<Longrightarrow> hShutdown (hosts s ! i) \<Longrightarrow>
    main_step s (s\<lparr>nextCh := nextCh s + 1, mpc := MAck ch i is (nextCh s)\<rparr>)"
| m_hosts_log: "mpc s = MHosts ch (i # is) \<Longrightarrow> \<not> hShutdown (hosts s ! i) \<Longrightarrow>
    main_step s (s\<lparr>nextCh := nextCh s + 1,
      mpc := MLog (LFlush ch is (nextCh s)) (newFlushLogRec NewLogger (nextCh s)) i\<rparr>)"
| m_ack: "mpc s = MAck ch i is ack \<Longrightarrow> hPc (hosts s ! i) = HAck ack \<Longrightarrow>
    main_step s ((set_host i ((hosts s ! i)\<lparr>hPc := HSelect\<rparr>) s)\<lparr>mpc := MHosts ch is\<rparr>)"
| m_hosts_end: "mpc s = MHosts ch [] \<Longrightarrow> main_step s (s\<lparr>mpc := MNotify ch\<rparr>)"
| m_notify: "mpc s = MNotify ch \<Longrightarrow> clients s c = CWait ch False \<Longrightarrow>
    main_step s (return_to c None (s\<lparr>mpc := MSelect\<rparr>))"
| m_notify_shut: "mpc s = MNotify ch \<Longrightarrow> clients s c = CWait ch True \<Longrightarrow>
    main_step s (set_client c CSwap (s\<lparr>mpc := MSelect\<rparr>))"

section \<open>Clients\<close>

text \<open>
  A send on the engine's queue: into the buffer if there is room; without a buffer, to the
  read loop if it waits at its \<^verbatim>\<open>select\<close>.
\<close>

definition q_can_send :: "'t sys \<Rightarrow> bool" where
  "q_can_send s \<longleftrightarrow> (if qCap s = 0 then mpc s = MSelect else length (qIn s) < qCap s)"

definition q_send :: "log_rec \<Rightarrow> 't sys \<Rightarrow> 't sys" where
  "q_send r s =
     (if qCap s = 0
      then s\<lparr>accepted := accepted s @ [r], taken := taken s @ [r], mpc := MGot r\<rparr>
      else s\<lparr>accepted := accepted s @ [r], qIn := qIn s @ [r]\<rparr>)"

definition enqueue_timeout_error :: "'t sys \<Rightarrow> log_rec \<Rightarrow> go_error" where
  "enqueue_timeout_error s r =
     ErrorText (''enqueue timed out for log rec ['' @ recText s r @ '']'')"

definition flush_after_shutdown :: go_error where
  "flush_after_shutdown = ErrorText ''Flush called on shut down Logr''"

definition shutdown_again :: go_error where
  "shutdown_again = ErrorText ''Shutdown called again after shut down''"

definition add_after_shutdown :: go_error where
  "add_after_shutdown = ErrorText ''AddTarget called after Logr shut down''"

definition flush_timeout :: go_error where
  "flush_timeout = TimeoutError ''logr queue flush timeout''"

definition shutdown_timeout :: go_error where
  "shutdown_timeout = TimeoutError ''logr queue shutdown timeout''"

definition opt_list :: "'a option \<Rightarrow> 'a list" where
  "opt_list x = (case x of None \<Rightarrow> [] | Some y \<Rightarrow> [y])"

definition target_info :: "'t host \<Rightarrow> string \<times> string" where
  "target_info h = (hName h, tType (hTarget h))"

inductive client_step :: "nat \<Rightarrow> 't sys \<Rightarrow> 't sys \<Rightarrow> bool" where
  c_log: "clients s c = CIdle \<Longrightarrow> \<not> lgrShutdown s \<Longrightarrow> flush r = None \<Longrightarrow>
    client_step c s (set_client c (CEnq r NLog) s)"
| c_flush_empty: "clients s c = CIdle \<Longrightarrow> wlock s = None \<Longrightarrow> hosts s = [] \<Longrightarrow>
    client_step c s (return_to c None s)"
| c_flush_shut: "clients s c = CIdle \<Longrightarrow> wlock s = None \<Longrightarrow> hosts s \<noteq> [] \<Longrightarrow> lgrShutdown s \<Longrightarrow>
    client_step c s (return_to c (Some flush_after_shutdown) s)"
| c_flush: "clients s c = CIdle \<Longrightarrow> wlock s = None \<Longrightarrow> hosts s \<noteq> [] \<Longrightarrow> \<not> lgrShutdown s \<Longrightarrow>
    client_step c s (set_client c (CEnq (newFlushLogRec NewLogger (nextCh s)) (NFlush (nextCh s) sh))
      (s\<lparr>nextCh := nextCh s + 1\<rparr>))"
| c_shutdown_empty: "clients s c = CIdle \<Longrightarrow> wlock s = None \<Longrightarrow> hosts s = [] \<Longrightarrow>
    client_step c s (set_client c CSwap s)"
| c_send: "clients s c = CEnq r k \<Longrightarrow> q_can_send s \<Longrightarrow>
    client_step c s (after_enq c k (q_send r s))"
| c_drop: "clients s c = CEnq r k \<Longrightarrow> \<not> q_can_send s \<Longrightarrow> onQueueFull (opts s) = Some f \<Longrightarrow>
    f r (int (qCap s)) = Ret True \<Longrightarrow> client_step c s (after_enq c k s)"
| c_panic: "clients s c = CEnq r k \<Longrightarrow> \<not> q_can_send s \<Longrightarrow> onQueueFull (opts s) = Some f \<Longrightarrow>
    f r (int (qCap s)) = Panics e \<Longrightarrow> client_step c s (set_client c CGone s)"
| c_block: "clients s c = CEnq r k \<Longrightarrow> \<not> q_can_send s \<Longrightarrow>
    onQueueFull (opts s) = None \<or>
      (\<exists>f. onQueueFull (opts s) = Some f \<and> f r (int (qCap s)) = Ret False) \<Longrightarrow>
    client_step c s (set_client c (CBlocked r k) s)"
| c_blocked_send: "clients s c = CBlocked r k \<Longrightarrow> q_can_send s \<Longrightarrow>
    client_step c s (after_enq c k (q_send r s))"
| c_blocked_timeout: "clients s c = CBlocked r k \<Longrightarrow>
    client_step c s (after_enq c k (report [enqueue_timeout_error s r] s))"
| c_wait_timeout: "clients s c = CWait ch sh \<Longrightarrow>
    client_step c s (return_to c (Some flush_timeout) s)"
| c_swap_again: "clients s c = CSwap \<Longrightarrow> lgrShutdown s \<Longrightarrow>
    client_step c s (return_to c (Some shutdown_again) s)"
| c_swap: "clients s c = CSwap \<Longrightarrow> \<not> lgrShutdown s \<Longrightarrow>
    client_step c s (set_client c CClose (s\<lparr>lgrShutdown := True\<rparr>))"
| c_close: "clients s c = CClose \<Longrightarrow>
    client_step c s (set_client c CWaitDone (s\<lparr>quitClosed := True\<rparr>))"
| c_done: "clients s c = CWaitDone \<Longrightarrow> doneClosed s \<Longrightarrow> wlock s = None \<Longrightarrow>
    client_step c s (set_client c (CHosts [0..<length (hosts s)] []) s)"
| c_done_timeout: "clients s c = CWaitDone \<Longrightarrow> wlock s = None \<Longrightarrow>
    client_step c s (set_client c (CHosts [0..<length (hosts s)] [shutdown_timeout]) s)"
| c_host_shutdown: "clients s c = CHosts (i # is) errs \<Longrightarrow>
    host_begin_shutdown (hosts s ! i) = Some h \<Longrightarrow>
    client_step c s (set_client c (CHostWait i is errs) (set_host i h s))"
| c_host_twice: "clients s c = CHosts (i # is) errs \<Longrightarrow>
    host_begin_shutdown (hosts s ! i) = None \<Longrightarrow>
    client_step c s (set_client c (CHosts is (errs @ [host_shutdown_twice])) s)"
| c_host_down: "clients s c = CHostWait i is errs \<Longrightarrow>
    host_finish_shutdown (hosts s ! i) = (err, h) \<Longrightarrow>
    client_step c s (set_client c (CHosts is (errs @ opt_list err)) (set_host i h s))"
| c_shutdown_end: "clients s c = CHosts [] errs \<Longrightarrow>
    client_step c s (return_to c (errorOrNil s errs) s)"
| c_add_shut: "clients s c = CIdle \<Longrightarrow> lgrShutdown s \<Longrightarrow>
    client_step c s (return_to c (Some add_after_shutdown) s)"
| c_add_fail: "clients s c = CIdle \<Longrightarrow> \<not> lgrShutdown s \<Longrightarrow>
    newTargetHost (fmtEnv s) 0 target (st :: 't) ho = Ret (g, Inl e) \<Longrightarrow>
    client_step c s (return_to c (Some e) s)"
| c_add_panic: "clients s c = CIdle \<Longrightarrow> \<not> lgrShutdown s \<Longrightarrow>
    newTargetHost (fmtEnv s) 0 target (st :: 't) ho = Panics e \<Longrightarrow>
    client_step c s (set_client c CGone s)"
| c_add: "clients s c = CIdle \<Longrightarrow> \<not> lgrShutdown s \<Longrightarrow>
    newTargetHost (fmtEnv s) 0 target (st :: 't) ho = Ret (g, Inr h) \<Longrightarrow>
    client_step c s (set_client c (CAdd h) s)"
| c_add_end: "clients s c = CAdd h \<Longrightarrow> can_lock s \<Longrightarrow>
    client_step c s (return_to c None
      (s\<lparr>hosts := hosts s @ [h\<lparr>hBorn := length (fanned s)\<rparr>]\<rparr>))"
| c_remove: "clients s c = CIdle \<Longrightarrow> can_lock s \<Longrightarrow>
    client_step c s (set_client c (CRemove [0..<length (hosts s)] [] f []) (s\<lparr>wlock := Some c\<rparr>))"
| c_remove_keep: "clients s c = CRemove (i # is) kept f errs \<Longrightarrow> \<not> f (target_info (hosts s ! i)) \<Longrightarrow>
    client_step c s (set_client c (CRemove is (kept @ [i]) f errs) s)"
| c_remove_shut: "clients s c = CRemove (i # is) kept f errs \<Longrightarrow> f (target_info (hosts s ! i)) \<Longrightarrow>
    host_begin_shutdown (hosts s ! i) = Some h \<Longrightarrow>
    client_step c s (set_client c (CRemoveWait i is kept f errs) (set_host i h s))"
| c_remove_twice: "clients s c = CRemove (i # is) kept f errs \<Longrightarrow> f (target_info (hosts s ! i)) \<Longrightarrow>
    host_begin_shutdown (hosts s ! i) = None \<Longrightarrow>
    client_step c s (set_client c (CRemove is kept f (errs @ [host_shutdown_twice])) s)"
| c_remove_down: "clients s c = CRemoveWait i is kept f errs \<Longrightarrow>
    host_finish_shutdown (hosts s ! i) = (err, h) \<Longrightarrow>
    client_step c s (set_client c (CRemove is kept f (errs @ opt_list err)) (set_host i h s))"
| c_remove_end: "clients s c = CRemove [] kept f errs \<Longrightarrow>
    client_step c s (return_to c (errorOrNil s errs)
      (s\<lparr>hosts := map (\<lambda>i. hosts s ! i) kept, wlock := None,
         gone := gone s @ map (\<lambda>i. hosts s ! i)
                   (filter (\<lambda>i. i \<notin> set kept) [0..<length (hosts s)])\<rparr>))"

section \<open>The whole system\<close>

text \<open>A host that was removed goes on until its loop sees that \<^verbatim>\<open>quit\<close> is closed.\<close>

inductive sys_step :: "'t sys \<Rightarrow> 't sys \<Rightarrow> bool" where
  main: "main_step s s' \<Longrightarrow> sys_step s s'"
| client: "client_step c s s' \<Longrightarrow> sys_step s s'"
| host: "i < length (hosts s) \<Longrightarrow> host_step (hosts s ! i) h errs \<Longrightarrow>
    sys_step s (report errs (set_host i h s))"
| gone_host: "i < length (gone s) \<Longrightarrow> host_step (gone s ! i) h errs \<Longrightarrow>
    sys_step s (report errs (s\<lparr>gone := (gone s)[i := h]\<rparr>))"

inductive reachable :: "'t sys \<Rightarrow> bool" where
  start: "0 \<le> maxQueueSize opt \<Longrightarrow> reachable (init_sys opt env txt res eon)"
| step: "reachable s \<Longrightarrow> sys_step s s' \<Longrightarrow> reachable s'"

end
