(* ===== verification/SystemInv.thy ===== *)
theory SystemInv
  imports System
begin

text \<open>
  The invariants of the concurrent engine. Each is an instance of the locale \<open>sys_invariant\<close>:
  it holds at the start and every kind of step keeps it, given what is already known of the
  reachable states.
\<close>

section \<open>Invariants of the system\<close>

locale sys_invariant =
  fixes known :: "'t sys \<Rightarrow> bool"
    and inv :: "'t sys \<Rightarrow> bool"
  assumes known_reachable: "reachable s \<Longrightarrow> known s"
    and init: "0 \<le> maxQueueSize opt \<Longrightarrow> inv (init_sys opt env txt res eon)"
    and main_keeps: "main_step s s' \<Longrightarrow> known s \<Longrightarrow> inv s \<Longrightarrow> inv s'"
    and client_keeps: "client_step c s s' \<Longrightarrow> known s \<Longrightarrow> inv s \<Longrightarrow> inv s'"
    and host_keeps: "host_step (hosts s ! i) h errs \<Longrightarrow> i < length (hosts s) \<Longrightarrow>
      known s \<Longrightarrow> inv s \<Longrightarrow> inv (report errs (set_host i h s))"
    and gone_keeps: "host_step (gone s ! i) h errs \<Longrightarrow> i < length (gone s) \<Longrightarrow>
      known s \<Longrightarrow> inv s \<Longrightarrow> inv (report errs (s\<lparr>gone := (gone s)[i := h]\<rparr>))"
begin

lemma step_keeps: "sys_step s s' \<Longrightarrow> known s \<Longrightarrow> inv s \<Longrightarrow> inv s'"
  by (induction rule: sys_step.induct) (blast intro: main_keeps client_keeps host_keeps gone_keeps)+

lemma holds: "reachable s \<Longrightarrow> inv s"
  by (induction rule: reachable.induct) (blast intro: init step_keeps known_reachable)+

lemma both: "reachable s \<Longrightarrow> known s \<and> inv s"
  by (simp add: holds known_reachable)

end

text \<open>The two ways in which a call of \<^verbatim>\<open>Log\<close> goes on, as case distinctions for the simplifier.\<close>

lemma log_done_eq:
  "log_done k i ofr s =
     (case k of
        LFan c r rest \<Rightarrow> (set_host i (add_offer r ofr (hosts s ! i)) s)\<lparr>mpc := MFan c r rest True\<rparr>
      | LFlush ch rest ack \<Rightarrow> s\<lparr>mpc := MAck ch i rest ack\<rparr>)"
  by (cases k) auto

lemma log_panic_eq:
  "log_panic k i e s =
     (case k of
        LFan c r rest \<Rightarrow>
          report [ErrorText (''fanout failed for target '' @ hName (hosts s ! i) @ '', '' @ e)]
            (end_fan c r False (s\<lparr>hosts := skip_hosts r (i # rest) (hosts s)\<rparr>))
      | LFlush ch rest ack \<Rightarrow> report [ErrorText e] (s\<lparr>mpc := MSelect\<rparr>))"
  by (cases k) auto

lemmas log_eqs = log_done_eq log_panic_eq end_fan_def sys_upd_defs

lemma after_fan_simps [simp]:
  "\<not> main_rlocked (after_fan c)" "after_fan c \<noteq> MExited" "after_fan c \<noteq> MNotify ch"
  by (cases c; simp)+

section \<open>The lock\<close>

text \<open>
  The writer that holds \<^verbatim>\<open>tmux\<close> is in \<^verbatim>\<open>RemoveTargets\<close>, and then nobody holds the lock for reading.
\<close>

fun removing :: "'t client_pc \<Rightarrow> bool" where
  "removing (CRemove is kept f errs) = True"
| "removing (CRemoveWait i is kept f errs) = True"
| "removing _ = False"

definition lock_inv :: "'t sys \<Rightarrow> bool" where
  "lock_inv s \<longleftrightarrow>
     (\<forall>c. removing (clients s c) \<longleftrightarrow> wlock s = Some c) \<and>
     (wlock s \<noteq> None \<longrightarrow> \<not> main_rlocked (mpc s) \<and> (\<forall>c. \<not> client_rlocked (clients s c)))"

lemma lock_inv_main: "main_step s s' \<Longrightarrow> lock_inv s \<Longrightarrow> lock_inv s'"
proof (induction rule: main_step.induct)
  case (m_drain_handoff s ch c r k)
  have "removing (clients s c) \<longleftrightarrow> wlock s = Some c"
    using m_drain_handoff(5) by (simp add: lock_inv_def)
  with m_drain_handoff show ?case
    by (auto simp: lock_inv_def sys_upd_defs drain_got_def after_enq_def split: enq_next.splits)
qed (auto simp: lock_inv_def log_eqs drain_got_def split: log_cont.splits)

lemma lock_inv_client: "client_step c s s' \<Longrightarrow> lock_inv s \<Longrightarrow> lock_inv s'"
proof -
  assume *: "client_step c s s'" "lock_inv s"
  then have "removing (clients s c) \<longleftrightarrow> wlock s = Some c"
      "client_rlocked (clients s c) \<longrightarrow> wlock s = None"
    by (auto simp: lock_inv_def)
  with * show ?thesis
    by (induction rule: client_step.induct)
      (auto simp: lock_inv_def sys_upd_defs after_enq_def q_send_def can_lock_def
        split: enq_next.splits if_splits)
qed

interpretation lock: sys_invariant "\<lambda>s. True" lock_inv
  by unfold_locales
    (auto simp: lock_inv_main lock_inv_client, auto simp: lock_inv_def init_sys_def sys_upd_defs)

section \<open>The program counter of the read loop\<close>

text \<open>
  Loops over the hosts have a final segment of the indices left, and the loop holds what its
  position says. It depends on the hosts by their number and what they enable.
\<close>

definition final_upt :: "nat \<Rightarrow> nat list \<Rightarrow> bool" where
  "final_upt n is \<longleftrightarrow> is = [n - length is..<n]"

fun pc_ok :: "nat \<Rightarrow> (nat \<Rightarrow> log_rec \<Rightarrow> bool) \<Rightarrow> main_pc \<Rightarrow> bool" where
  "pc_ok n en (MFan c r is lg) \<longleftrightarrow> flush r = None \<and> final_upt n is"
| "pc_ok n en (MLog (LFan c r is) r' i) \<longleftrightarrow>
     r' = r \<and> flush r = None \<and> i < n \<and> is = [Suc i..<n] \<and> en i r"
| "pc_ok n en (MBlocked (LFan c r is) r' i) \<longleftrightarrow>
     r' = r \<and> flush r = None \<and> i < n \<and> is = [Suc i..<n] \<and> en i r"
| "pc_ok n en (MLog (LFlush ch is a) r' i) \<longleftrightarrow> flush r' = Some a \<and> i < n \<and> is = [Suc i..<n]"
| "pc_ok n en (MBlocked (LFlush ch is a) r' i) \<longleftrightarrow> flush r' = Some a \<and> i < n \<and> is = [Suc i..<n]"
| "pc_ok n en (MHosts ch is) \<longleftrightarrow> final_upt n is"
| "pc_ok n en (MAck ch i is a) \<longleftrightarrow> i < n \<and> is = [Suc i..<n]"
| "pc_ok n en _ \<longleftrightarrow> True"

definition enables :: "'t sys \<Rightarrow> nat \<Rightarrow> log_rec \<Rightarrow> bool" where
  "enables s i r = host_enabled (hosts s ! i) r"

definition pc_inv :: "'t sys \<Rightarrow> bool" where
  "pc_inv s \<longleftrightarrow> pc_ok (length (hosts s)) (enables s) (mpc s)"

lemma final_upt_upt [simp]: "k \<le> n \<Longrightarrow> final_upt n [k..<n]"
  by (simp add: final_upt_def)

lemma final_upt_Suc [simp]: "i < n \<Longrightarrow> final_upt n [Suc i..<n]"
  by simp

lemma final_upt_Cons: "final_upt n (i # is) \<longleftrightarrow> i < n \<and> is = [Suc i..<n]"
proof
  assume "final_upt n (i # is)"
  then have eq: "[n - Suc (length is)..<n] = i # is"
    by (simp add: final_upt_def)
  then have "n - Suc (length is) < n"
    by (metis list.distinct(1) upt_conv_Nil not_less)
  with eq show "i < n \<and> is = [Suc i..<n]"
    by (auto simp: upt_conv_Cons)
next
  assume "i < n \<and> is = [Suc i..<n]"
  then show "final_upt n (i # is)"
    by (simp add: final_upt_def flip: upt_conv_Cons)
qed

text \<open>An update outside of a list does nothing, so this holds of every index.\<close>

lemma nth_upd: "xs[i := x] ! j = (if i = j \<and> i < length xs then x else xs ! j)"
  by (cases "i < length xs") (auto simp: nth_list_update list_update_beyond)

lemma host_enabled_upd:
  "hFilter h = hFilter (hs ! i) \<Longrightarrow> host_enabled (hs[i := h] ! j) r = host_enabled (hs ! j) r"
  by (auto simp: nth_upd host_enabled_def host_IsLevelEnabled_def)

lemma enables_set_host:
  "hFilter h = hFilter (hosts s ! i) \<Longrightarrow> enables (set_host i h s) = enables s"
  by (auto simp: enables_def set_host_def host_enabled_upd fun_eq_iff)

lemma enables_upd [simp]:
  "enables (report errs s) = enables s" "enables (s\<lparr>gone := hs\<rparr>) = enables s"
  by (simp_all add: enables_def fun_eq_iff report_def)

lemma prep_flush [simp]: "flush (prep flt res r) = flush r"
  by (simp add: prep_def Let_def)

text \<open>What the operations do to the list of hosts: its length and the filters stay.\<close>

lemma filters_stay [simp]:
  "hFilter (add_offer r ofr h) = hFilter h"
  "hFilter (host_send h r) = hFilter h"
  "hFilter (incDroppedCounter h) = hFilter h"
  "hFilter (incBlockedCounter h) = hFilter h"
  by (simp_all add: add_offer_def host_send_def metric_defs)

lemma host_shutdown_filter:
  "host_begin_shutdown h = Some h' \<Longrightarrow> hFilter h' = hFilter h"
  "host_finish_shutdown h = (err, h') \<Longrightarrow> hFilter h' = hFilter h"
  by (auto simp: host_begin_shutdown_def host_finish_shutdown_def split: if_splits prod.splits)

lemma skip_hosts_length [simp]: "length (skip_hosts r is hs) = length hs"
  by (induction r "is" hs rule: skip_hosts.induct) auto

lemma host_enabled_add_offer [simp]: "host_enabled (add_offer r' ofr h) r = host_enabled h r"
  by (simp add: host_enabled_def host_IsLevelEnabled_def)

lemma skip_hosts_nth:
  "distinct is \<Longrightarrow> j < length hs \<Longrightarrow>
   skip_hosts r is hs ! j =
     (if j \<in> set is \<and> host_enabled (hs ! j) r then add_offer r OSkipped (hs ! j) else hs ! j)"
  by (induction r "is" hs rule: skip_hosts.induct) (auto simp: nth_upd)

definition same_hosts :: "'t sys \<Rightarrow> 't sys \<Rightarrow> bool" where
  "same_hosts s s' \<longleftrightarrow> map hFilter (hosts s') = map hFilter (hosts s)"

lemma same_hostsD:
  assumes "same_hosts s s'"
  shows "length (hosts s') = length (hosts s)"
    "i < length (hosts s) \<Longrightarrow> enables s' i = enables s i"
proof -
  show len: "length (hosts s') = length (hosts s)"
    using assms unfolding same_hosts_def by (metis length_map)
  assume "i < length (hosts s)"
  then have "hFilter (hosts s' ! i) = hFilter (hosts s ! i)"
    using assms len unfolding same_hosts_def by (metis nth_map)
  then show "enables s' i = enables s i"
    by (simp add: enables_def host_enabled_def host_IsLevelEnabled_def fun_eq_iff)
qed

lemma same_hosts_simps [simp]:
  "same_hosts s s"
  "same_hosts s (s\<lparr>mpc := pc\<rparr>)"
  by (simp_all add: same_hosts_def)

lemma map_upd_same: "f x = f (xs ! i) \<Longrightarrow> map f (xs[i := x]) = map f xs"
  by (metis list_update_id map_update)

lemma same_hosts_set_host: "hFilter h = hFilter (hosts s ! i) \<Longrightarrow> same_hosts s (set_host i h s)"
  by (simp add: same_hosts_def set_host_def map_upd_same)

lemma skip_hosts_filters: "map hFilter (skip_hosts r is hs) = map hFilter hs"
  by (induction r "is" hs rule: skip_hosts.induct) (auto simp: map_upd_same)

lemma main_step_hosts: "main_step s s' \<Longrightarrow> same_hosts s s'"
  by (induction rule: main_step.induct)
    (auto simp: same_hosts_def log_eqs drain_got_def after_enq_def map_upd_same nth_upd
      skip_hosts_filters split: enq_next.splits log_cont.splits)

lemma pc_ok_same:
  "(\<And>i. i < n \<Longrightarrow> en' i = en i) \<Longrightarrow> pc_ok n en' pc \<longleftrightarrow> pc_ok n en pc"
  by (induction n en pc rule: pc_ok.induct) auto

lemma pc_inv_same:
  "same_hosts s s' \<Longrightarrow> pc_inv s' \<longleftrightarrow> pc_ok (length (hosts s)) (enables s) (mpc s')"
  using pc_ok_same [of "length (hosts s)" "enables s'" "enables s"] same_hostsD [of s s']
  by (simp add: pc_inv_def)

lemma mpc_upd [simp]:
  "mpc (set_client c pc s) = mpc s" "mpc (report errs s) = mpc s" "mpc (set_host i h s) = mpc s"
  "mpc (return_to c res s) = mpc s" "mpc (after_enq c k s) = mpc s"
  by (simp_all add: sys_upd_defs after_enq_def)

lemma mpc_end_fan [simp]: "mpc (end_fan c r lg s) = after_fan c"
  by (simp add: end_fan_def)

lemma pc_ok_after_fan [simp]: "pc_ok n en (after_fan c)"
  by (cases c) auto

lemma hosts_after_enq [simp]: "hosts (after_enq c k s) = hosts s"
  by (simp add: sys_upd_defs after_enq_def)

lemma pc_ok_MBlocked: "pc_ok n en (MBlocked k r i) \<longleftrightarrow> pc_ok n en (MLog k r i)"
  by (cases k) auto

lemma pc_ok_log_done: "pc_ok n en (MLog k r i) \<Longrightarrow> pc_ok n en (mpc (log_done k i ofr s))"
  by (cases k) auto

lemma mpc_log_panic: "pc_ok n en (mpc (log_panic k i e s))"
  by (cases k) auto

lemma pc_inv_main: "main_step s s' \<Longrightarrow> pc_inv s \<Longrightarrow> pc_inv s'"
proof -
  assume *: "main_step s s'" "pc_inv s"
  then have "pc_ok (length (hosts s)) (enables s) (mpc s)"
    by (simp add: pc_inv_def)
  with *(1) have "pc_ok (length (hosts s)) (enables s) (mpc s')"
    by (induction rule: main_step.induct)
      (auto simp: drain_got_def enables_def prepped_def newFlushLogRec_def final_upt_Cons
        pc_ok_MBlocked pc_ok_log_done mpc_log_panic)
  then show ?thesis
    using main_step_hosts [OF *(1)] by (simp add: pc_inv_same)
qed

lemma pc_ok_unlocked: "\<not> main_rlocked pc \<Longrightarrow> pc_ok n en pc"
  by (cases pc) auto

text \<open>A client changes the list of hosts only when the read loop is not in a loop over it.\<close>

lemma client_step_hosts:
  "client_step c s s' \<Longrightarrow> lock_inv s \<Longrightarrow>
   same_hosts s s' \<or> \<not> main_rlocked (mpc s) \<and> mpc s' = mpc s"
proof -
  assume *: "client_step c s s'" "lock_inv s"
  then have "removing (clients s c) \<longrightarrow> \<not> main_rlocked (mpc s)"
    by (auto simp: lock_inv_def)
  with *(1) show ?thesis
    by (induction rule: client_step.induct)
      (auto simp: same_hosts_def sys_upd_defs after_enq_def q_send_def can_lock_def map_upd_same
        dest: host_shutdown_filter split: enq_next.splits)
qed

lemma client_step_mpc:
  "client_step c s s' \<Longrightarrow> mpc s' = mpc s \<or> mpc s = MSelect \<and> (\<exists>r. mpc s' = MGot r)"
  by (induction rule: client_step.induct) (auto simp: sys_upd_defs q_send_def q_can_send_def)

lemma pc_inv_client: "client_step c s s' \<Longrightarrow> lock_inv s \<Longrightarrow> pc_inv s \<Longrightarrow> pc_inv s'"
  using client_step_hosts [of c s s'] client_step_mpc [of c s s'] pc_inv_same [of s s']
  by (auto simp: pc_inv_def intro: pc_ok_unlocked)

lemma host_step_filter: "host_step h h' errs \<Longrightarrow> hFilter h' = hFilter h"
  using host_step_frame by blast

lemma pc_inv_host:
  "host_step (hosts s ! i) h errs \<Longrightarrow> pc_inv s \<Longrightarrow> pc_inv (report errs (set_host i h s))"
  using pc_inv_same [OF same_hosts_set_host, of h s i]
  by (simp add: host_step_filter pc_inv_def) (simp add: report_def)

interpretation pcs: sys_invariant lock_inv pc_inv
  by unfold_locales
    (auto simp: lock.holds pc_inv_main pc_inv_client pc_inv_host,
     auto simp: pc_inv_def init_sys_def, simp add: report_def)

section \<open>The queue of the engine\<close>

text \<open>The record the read loop has received and not finished fanning out.\<close>

fun held_by :: "log_cont \<Rightarrow> log_rec list" where
  "held_by (LFan c r is) = [r]"
| "held_by (LFlush ch is a) = []"

fun in_hand :: "(log_rec \<Rightarrow> log_rec) \<Rightarrow> main_pc \<Rightarrow> log_rec list" where
  "in_hand p (MGot r) = map p (log_recs [r])"
| "in_hand p (MFan c r is lg) = [r]"
| "in_hand p (MLog k r i) = held_by k"
| "in_hand p (MBlocked k r i) = held_by k"
| "in_hand p _ = []"

text \<open>
  First in, first out: what was accepted is what was taken and what is still queued, in this
  order, and what was taken is fanned out in order, each record once.
\<close>

definition flow_inv :: "'t sys \<Rightarrow> bool" where
  "flow_inv s \<longleftrightarrow>
     accepted s = taken s @ qIn s \<and>
     length (qIn s) \<le> qCap s \<and>
     map (prepped s) (log_recs (taken s)) = fanned s @ in_hand (prepped s) (mpc s) \<and>
     (doneClosed s \<longleftrightarrow> mpc s = MExited)"

lemma prepped_upd [simp]:
  "prepped (s\<lparr>mpc := a\<rparr>) = prepped s" "prepped (s\<lparr>qIn := b\<rparr>) = prepped s"
  "prepped (s\<lparr>taken := d\<rparr>) = prepped s" "prepped (s\<lparr>fanned := d\<rparr>) = prepped s"
  "prepped (s\<lparr>accepted := d\<rparr>) = prepped s" "prepped (s\<lparr>hosts := hs\<rparr>) = prepped s"
  "prepped (s\<lparr>lgrLogged := n\<rparr>) = prepped s" "prepped (s\<lparr>doneClosed := z\<rparr>) = prepped s"
  "prepped (s\<lparr>nextCh := n\<rparr>) = prepped s" "prepped (s\<lparr>reported := es\<rparr>) = prepped s"
  "prepped (s\<lparr>clients := cs\<rparr>) = prepped s" "prepped (s\<lparr>returns := rs\<rparr>) = prepped s"
  "prepped (s\<lparr>quitClosed := z\<rparr>) = prepped s" "prepped (s\<lparr>lgrShutdown := z\<rparr>) = prepped s"
  "prepped (s\<lparr>wlock := w\<rparr>) = prepped s" "prepped (s\<lparr>gone := hs\<rparr>) = prepped s"
  by (simp_all add: prepped_def fun_eq_iff)

lemma in_hand_after_fan [simp]: "in_hand p (after_fan c) = []"
  by (cases c) auto

lemma flow_inv_main: "main_step s s' \<Longrightarrow> pc_inv s \<Longrightarrow> flow_inv s \<Longrightarrow> flow_inv s'"
  by (induction rule: main_step.induct)
    (auto simp: flow_inv_def log_eqs drain_got_def after_enq_def qCap_def
      split: enq_next.splits log_cont.splits)

lemma flow_inv_client: "client_step c s s' \<Longrightarrow> flow_inv s \<Longrightarrow> flow_inv s'"
  by (induction rule: client_step.induct)
    (auto simp: flow_inv_def sys_upd_defs after_enq_def q_send_def q_can_send_def qCap_def
      split: enq_next.splits)

interpretation flow: sys_invariant pc_inv flow_inv
  by unfold_locales
    (auto simp: pcs.holds flow_inv_main flow_inv_client,
     auto simp: flow_inv_def init_sys_def sys_upd_defs qCap_def)

section \<open>Removing targets\<close>

text \<open>While \<^verbatim>\<open>RemoveTargets\<close> runs, its indices are of hosts, in the order of the list, each once.\<close>

fun rem_ok :: "nat \<Rightarrow> 't client_pc \<Rightarrow> bool" where
  "rem_ok n (CRemove is kept f errs) \<longleftrightarrow>
     sorted_wrt (<) (kept @ is) \<and> list_all (\<lambda>i. i < n) (kept @ is)"
| "rem_ok n (CRemoveWait i is kept f errs) \<longleftrightarrow>
     sorted_wrt (<) (kept @ is) \<and> list_all (\<lambda>i. i < n) (kept @ is)"
| "rem_ok n _ \<longleftrightarrow> True"

definition rem_inv :: "'t sys \<Rightarrow> bool" where
  "rem_inv s \<longleftrightarrow> (\<forall>c. rem_ok (length (hosts s)) (clients s c))"

lemma rem_ok_idle: "\<not> removing pc \<Longrightarrow> rem_ok n pc"
  by (cases pc) auto

text \<open>A step of the read loop moves a client only out of a wait.\<close>

lemma main_step_clients:
  "main_step s s' \<Longrightarrow>
   clients s' = clients s \<or>
   (\<exists>c pc. clients s' = (clients s)(c := pc) \<and> (pc = CIdle \<or> pc = CSwap \<or> (\<exists>ch sh. pc = CWait ch sh)))"
  by (induction rule: main_step.induct)
    (auto simp: log_eqs drain_got_def after_enq_def split: enq_next.splits log_cont.splits)

lemma rem_inv_main: "main_step s s' \<Longrightarrow> rem_inv s \<Longrightarrow> rem_inv s'"
  using main_step_clients [of s s'] same_hostsD(1) [OF main_step_hosts, of s s']
  by (auto simp: rem_inv_def)

lemma rem_inv_client: "client_step c s s' \<Longrightarrow> lock_inv s \<Longrightarrow> rem_inv s \<Longrightarrow> rem_inv s'"
proof -
  assume *: "client_step c s s'" "lock_inv s" "rem_inv s"
  then have "rem_ok (length (hosts s)) (clients s c)"
      "\<And>n c'. wlock s = None \<or> wlock s = Some c \<and> c' \<noteq> c \<Longrightarrow> rem_ok n (clients s c')"
      "removing (clients s c) \<longleftrightarrow> wlock s = Some c"
    by (auto simp: lock_inv_def rem_inv_def intro: rem_ok_idle)
  with *(1,3) show ?thesis
    by (induction rule: client_step.induct)
      (auto simp: rem_inv_def sys_upd_defs after_enq_def q_send_def can_lock_def
        sorted_wrt_append list_all_iff split: enq_next.splits)
qed

interpretation rem: sys_invariant lock_inv rem_inv
  by unfold_locales
    (auto simp: lock.holds rem_inv_main rem_inv_client,
     auto simp: rem_inv_def init_sys_def sys_upd_defs)

section \<open>Hosts that are being shut down\<close>

text \<open>A client waits for the loop of a host only after it has marked the host as shut down.\<close>

fun waits_host :: "'t client_pc \<Rightarrow> nat option" where
  "waits_host (CHostWait i is errs) = Some i"
| "waits_host (CRemoveWait i is kept f errs) = Some i"
| "waits_host _ = None"

definition wait_inv :: "'t sys \<Rightarrow> bool" where
  "wait_inv s \<longleftrightarrow>
     (\<forall>c i. waits_host (clients s c) = Some i \<longrightarrow> i < length (hosts s) \<longrightarrow> hShutdown (hosts s ! i))"

lemma wait_invD:
  "wait_inv s \<Longrightarrow> waits_host (clients s c) = Some i \<Longrightarrow> i < length (hosts s) \<Longrightarrow> hShutdown (hosts s ! i)"
  by (simp add: wait_inv_def)

lemma waits_host_locked: "waits_host pc = Some i \<Longrightarrow> client_rlocked pc \<or> removing pc"
  by (cases pc) auto

text \<open>Marks are set, never taken back.\<close>

lemma shutdown_stays [simp]:
  "hShutdown (add_offer r ofr h) = hShutdown h"
  "hShutdown (host_send h r) = hShutdown h"
  "hShutdown (incDroppedCounter h) = hShutdown h"
  "hShutdown (incBlockedCounter h) = hShutdown h"
  by (simp_all add: add_offer_def host_send_def metric_defs)

lemma host_shutdown_marks:
  "host_begin_shutdown h = Some h' \<Longrightarrow> hShutdown h'"
  "host_finish_shutdown h = (err, h') \<Longrightarrow> hShutdown h' = hShutdown h"
  by (auto simp: host_begin_shutdown_def host_finish_shutdown_def split: if_splits prod.splits)

lemma skip_hosts_shutdown: "map hShutdown (skip_hosts r is hs) = map hShutdown hs"
  by (induction r "is" hs rule: skip_hosts.induct) (auto simp: map_upd_same)

lemma main_step_shutdown: "main_step s s' \<Longrightarrow> map hShutdown (hosts s') = map hShutdown (hosts s)"
  by (induction rule: main_step.induct)
    (auto simp: log_eqs drain_got_def after_enq_def map_upd_same nth_upd skip_hosts_shutdown
      split: enq_next.splits log_cont.splits)

lemma wait_inv_main:
  assumes "main_step s s'" "wait_inv s"
  shows "wait_inv s'"
proof -
  have shut: "map hShutdown (hosts s') = map hShutdown (hosts s)"
    using assms(1) by (rule main_step_shutdown)
  then have len: "length (hosts s') = length (hosts s)"
    by (metis length_map)
  with shut have "hShutdown (hosts s' ! i) = hShutdown (hosts s ! i)" if "i < length (hosts s)" for i
    using that by (metis nth_map)
  moreover have "waits_host (clients s' c) = Some i \<Longrightarrow> waits_host (clients s c) = Some i" for c i
    using main_step_clients [OF assms(1)] by (auto split: if_splits)
  ultimately show ?thesis
    using assms(2) unfolding wait_inv_def len by metis
qed

lemma nobody_waits: "can_lock s \<Longrightarrow> lock_inv s \<Longrightarrow> waits_host (clients s c) = None"
  using waits_host_locked [of "clients s c"]
  by (cases "waits_host (clients s c)") (auto simp: can_lock_def lock_inv_def)

lemma only_remover_waits:
  "removing (clients s c) \<Longrightarrow> lock_inv s \<Longrightarrow> c' \<noteq> c \<Longrightarrow> waits_host (clients s c') = None"
  using waits_host_locked [of "clients s c'"]
  by (cases "waits_host (clients s c')") (auto simp: lock_inv_def)

lemma wait_inv_client: "client_step c s s' \<Longrightarrow> lock_inv s \<Longrightarrow> wait_inv s \<Longrightarrow> wait_inv s'"
proof (induction rule: client_step.induct)
  case (c_add_end s c h)
  then show ?case
    by (auto simp: wait_inv_def sys_upd_defs nobody_waits)
next
  case (c_remove_end s c kept f errs)
  then have "waits_host (clients s c') = None" for c'
    using only_remover_waits [of s c c'] by (cases "c' = c") auto
  then show ?case
    by (auto simp: wait_inv_def sys_upd_defs)
qed (auto simp: wait_inv_def sys_upd_defs after_enq_def q_send_def nth_upd
    dest: host_shutdown_marks split: enq_next.splits)

lemma wait_inv_host:
  "host_step (hosts s ! i) h errs \<Longrightarrow> wait_inv s \<Longrightarrow> wait_inv (report errs (set_host i h s))"
  using host_step_frame [of "hosts s ! i" h errs] by (auto simp: wait_inv_def sys_upd_defs nth_upd)

interpretation waiting: sys_invariant lock_inv wait_inv
  by unfold_locales
    (auto simp: lock.holds wait_inv_main wait_inv_client wait_inv_host,
     auto simp: wait_inv_def init_sys_def sys_upd_defs)

section \<open>The hosts\<close>

text \<open>The records a host was offered and took; a host as \<^verbatim>\<open>newTargetHost\<close> makes it.\<close>

definition taken_offers :: "(log_rec \<times> offer) list \<Rightarrow> log_rec list" where
  "taken_offers ofs = map fst (filter (\<lambda>p. snd p = OAccepted) ofs)"

lemma taken_offers_simps [simp]:
  "taken_offers [] = []"
  "taken_offers (ofs @ [(r, ofr)]) = taken_offers ofs @ (if ofr = OAccepted then [r] else [])"
  by (simp_all add: taken_offers_def)

definition host_ok :: "'t host \<Rightarrow> bool" where
  "host_ok h \<longleftrightarrow> host_inv h \<and> log_recs (hAccepted h) = taken_offers (hOffers h)"

definition fresh_host :: "'t host \<Rightarrow> bool" where
  "fresh_host h \<longleftrightarrow>
     hIn h = [] \<and> hAccepted h = [] \<and> hTaken h = [] \<and> hLog h = [] \<and> hOffers h = [] \<and>
     hPc h = HSelect \<and> \<not> hQuit h \<and> \<not> hDone h \<and> \<not> hShutdown h"

lemma newTargetHost_fresh: "newTargetHost env n t st ho = Ret (g, Inr h) \<Longrightarrow> fresh_host h"
  by (auto simp: newTargetHost_def fresh_host_def Let_def split: if_splits sum.splits prod.splits
        option.splits)

text \<open>
  A predicate \<open>ok\<close> on hosts that every operation on a host keeps holds of all hosts in every
  reachable state; \<open>new\<close> is what is known of a host that \<^verbatim>\<open>AddTarget\<close> has made and not yet added.
\<close>

definition hosts_all :: "('t host \<Rightarrow> bool) \<Rightarrow> ('t host \<Rightarrow> bool) \<Rightarrow> 't sys \<Rightarrow> bool" where
  "hosts_all new ok s \<longleftrightarrow>
     list_all ok (hosts s) \<and> list_all ok (gone s) \<and> (\<forall>c h. clients s c = CAdd h \<longrightarrow> new h)"

lemma list_all_upd: "list_all P xs \<Longrightarrow> (i < length xs \<Longrightarrow> P x) \<Longrightarrow> list_all P (xs[i := x])"
  by (auto simp: list_all_length nth_upd)

lemma list_all_at: "list_all P xs \<Longrightarrow> i < length xs \<Longrightarrow> P (xs ! i)"
  by (simp add: list_all_length)

lemma main_step_gone: "main_step s s' \<Longrightarrow> gone s' = gone s"
  by (induction rule: main_step.induct)
    (auto simp: log_eqs drain_got_def after_enq_def split: log_cont.splits)

locale host_predicate =
  fixes new :: "'t host \<Rightarrow> bool"
    and ok :: "'t host \<Rightarrow> bool"
  assumes made: "newTargetHost env n t st ho = Ret (g, Inr h) \<Longrightarrow> new h"
    and added: "new h \<Longrightarrow> ok (h\<lparr>hBorn := n\<rparr>)"
    and dropped: "ok h \<Longrightarrow> ok (incDroppedCounter h)"
    and blocked: "ok h \<Longrightarrow> ok (incBlockedCounter h)"
    and offered: "ok h \<Longrightarrow> ofr \<noteq> OAccepted \<Longrightarrow> ok (add_offer r ofr h)"
    and sent: "ok h \<Longrightarrow> host_can_send h \<Longrightarrow> flush r = None \<Longrightarrow>
      ok (add_offer r OAccepted (host_send h r))"
    and sent_flush: "ok h \<Longrightarrow> host_can_send h \<Longrightarrow> flush r \<noteq> None \<Longrightarrow> ok (host_send h r)"
    and acked: "ok h \<Longrightarrow> hPc h = HAck a \<Longrightarrow> ok (h\<lparr>hPc := HSelect\<rparr>)"
    and begun: "ok h \<Longrightarrow> host_begin_shutdown h = Some h' \<Longrightarrow> ok h'"
    and finished: "ok h \<Longrightarrow> hShutdown h \<Longrightarrow> host_finish_shutdown h = (err, h') \<Longrightarrow> ok h'"
    and stepped: "ok h \<Longrightarrow> host_step h h' errs \<Longrightarrow> ok h'"
begin

lemma skipped: "list_all ok hs \<Longrightarrow> list_all ok (skip_hosts r is hs)"
proof (induction r "is" hs rule: skip_hosts.induct)
  case (2 r i "is" hs)
  have "list_all ok (hs[i := add_offer r OSkipped (hs ! i)])"
    using 2(2) by (intro list_all_upd) (auto intro: offered list_all_at)
  with 2 show ?case by simp
qed simp

lemma main_hosts:
  "main_step s s' \<Longrightarrow> pc_inv s \<Longrightarrow> list_all ok (hosts s) \<Longrightarrow> list_all ok (hosts s')"
  by (induction rule: main_step.induct)
    (auto simp: log_eqs drain_got_def after_enq_def pc_inv_def nth_upd
      intro!: list_all_upd skipped sent
      intro: dropped blocked offered sent_flush acked list_all_at
      split: log_cont.splits)

lemma client_hosts:
  "client_step c s s' \<Longrightarrow> rem_inv s \<Longrightarrow> wait_inv s \<Longrightarrow> list_all ok (hosts s) \<Longrightarrow> list_all ok (gone s) \<Longrightarrow>
   (\<And>h. clients s c = CAdd h \<Longrightarrow> new h) \<Longrightarrow>
   list_all ok (hosts s') \<and> list_all ok (gone s') \<and>
   (\<forall>h. clients s' c = CAdd h \<longrightarrow> new h) \<and> (\<forall>c'. c' \<noteq> c \<longrightarrow> clients s' c' = clients s c')"
proof (induction rule: client_step.induct)
  case (c_remove_end s c kept f errs)
  have "list_all (\<lambda>i. i < length (hosts s)) kept"
    using c_remove_end(1,2) by (auto simp: rem_inv_def dest: spec [of _ c])
  with c_remove_end show ?case
    by (auto simp: sys_upd_defs list_all_iff)
next
  case (c_host_down s c i "is" errs err h)
  then have "i < length (hosts s) \<Longrightarrow> ok h"
    using wait_invD [of s c i] finished [of "hosts s ! i" err h] by (simp add: list_all_at)
  with c_host_down show ?case
    by (auto simp: sys_upd_defs intro!: list_all_upd)
next
  case (c_remove_down s c i "is" kept f errs err h)
  then have "i < length (hosts s) \<Longrightarrow> ok h"
    using wait_invD [of s c i] finished [of "hosts s ! i" err h] by (simp add: list_all_at)
  with c_remove_down show ?case
    by (auto simp: sys_upd_defs intro!: list_all_upd)
qed (auto simp: sys_upd_defs after_enq_def q_send_def intro!: list_all_upd
    intro: added begun made list_all_at split: enq_next.splits)

lemma main_all: "main_step s s' \<Longrightarrow> pc_inv s \<Longrightarrow> hosts_all new ok s \<Longrightarrow> hosts_all new ok s'"
  using main_step_clients [of s s'] main_hosts [of s s'] main_step_gone [of s s']
  by (fastforce simp: hosts_all_def split: if_splits)

lemma client_all: "client_step c s s' \<Longrightarrow> rem_inv s \<Longrightarrow> wait_inv s \<Longrightarrow> hosts_all new ok s \<Longrightarrow> hosts_all new ok s'"
  using client_hosts [of c s s'] unfolding hosts_all_def by metis

end

sublocale host_predicate \<subseteq> sys_invariant "\<lambda>s. pc_inv s \<and> rem_inv s \<and> wait_inv s" "hosts_all new ok"
  by unfold_locales
    (auto simp: pcs.holds rem.holds waiting.holds main_all client_all,
     auto simp: hosts_all_def init_sys_def sys_upd_defs
       intro!: list_all_upd intro: stepped list_all_at)

text \<open>The first such predicate: the invariant of a host, and that it took what it accepted.\<close>

abbreviation hosts_inv :: "'t sys \<Rightarrow> bool" where
  "hosts_inv \<equiv> hosts_all fresh_host host_ok"

lemma host_ok_ops:
  "host_ok h \<Longrightarrow> host_ok (incDroppedCounter h)"
  "host_ok h \<Longrightarrow> host_ok (incBlockedCounter h)"
  "host_ok h \<Longrightarrow> ofr \<noteq> OAccepted \<Longrightarrow> host_ok (add_offer r ofr h)"
  "host_ok h \<Longrightarrow> host_can_send h \<Longrightarrow> flush r = None \<Longrightarrow> host_ok (add_offer r OAccepted (host_send h r))"
  "host_ok h \<Longrightarrow> host_can_send h \<Longrightarrow> flush r \<noteq> None \<Longrightarrow> host_ok (host_send h r)"
  "host_ok h \<Longrightarrow> hPc h = HAck a \<Longrightarrow> host_ok (h\<lparr>hPc := HSelect\<rparr>)"
  "fresh_host h \<Longrightarrow> host_ok (h\<lparr>hBorn := n\<rparr>)"
  by (auto simp: host_ok_def host_inv_def add_offer_def metric_defs host_send_def
      host_can_send_def fresh_host_def split: if_splits)

lemma host_ok_steps:
  "host_ok h \<Longrightarrow> host_begin_shutdown h = Some h' \<Longrightarrow> host_ok h'"
  "host_ok h \<Longrightarrow> host_finish_shutdown h = (err, h') \<Longrightarrow> host_ok h'"
  "host_ok h \<Longrightarrow> host_step h h' errs \<Longrightarrow> host_ok h'"
proof -
  assume "host_ok h" "host_step h h' errs"
  then show "host_ok h'"
    using host_step_inv [of h h' errs] host_step_frame [of h h' errs] by (simp add: host_ok_def)
qed (auto simp: host_ok_def host_inv_def host_begin_shutdown_def host_finish_shutdown_def
    split: if_splits prod.splits)

interpretation hosts: host_predicate fresh_host host_ok
  by unfold_locales (auto intro: newTargetHost_fresh host_ok_ops host_ok_steps)

section \<open>Every record is accounted for\<close>

text \<open>
  A host was offered, in order, exactly the records it enables among those fanned out since it
  was added, and the record being fanned out if the loop has passed the host. A host that was
  removed was offered those up to some moment.
\<close>

definition acct :: "'t host \<Rightarrow> log_rec list \<Rightarrow> log_rec list \<Rightarrow> bool" where
  "acct h fan now \<longleftrightarrow>
     hBorn h \<le> length fan \<and>
     map fst (hOffers h) = filter (host_enabled h) (drop (hBorn h) fan @ now)"

fun not_yet :: "log_cont \<Rightarrow> nat \<Rightarrow> nat list" where
  "not_yet (LFan c r is) i = i # is"
| "not_yet (LFlush ch is a) i = []"

fun visited :: "main_pc \<Rightarrow> nat \<Rightarrow> log_rec list" where
  "visited (MFan c r is lg) j = (if j \<in> set is then [] else [r])"
| "visited (MLog k r i) j = (if j \<in> set (not_yet k i) then [] else held_by k)"
| "visited (MBlocked k r i) j = (if j \<in> set (not_yet k i) then [] else held_by k)"
| "visited _ j = []"

definition acct_inv :: "'t sys \<Rightarrow> bool" where
  "acct_inv s \<longleftrightarrow>
     (\<forall>i<length (hosts s). acct (hosts s ! i) (fanned s) (visited (mpc s) i)) \<and>
     (\<forall>h\<in>set (gone s). \<exists>n. acct h (take n (fanned s)) [])"

lemma host_enabled_same: "hFilter h' = hFilter h \<Longrightarrow> host_enabled h' = host_enabled h"
  by (simp add: host_enabled_def host_IsLevelEnabled_def fun_eq_iff)

lemma acct_same:
  "hBorn h' = hBorn h \<Longrightarrow> hOffers h' = hOffers h \<Longrightarrow> hFilter h' = hFilter h \<Longrightarrow> acct h' = acct h"
  by (intro ext) (simp add: acct_def host_enabled_same [of h' h])

lemma acct_ops [simp]:
  "acct (host_send h r) = acct h"
  "acct (incDroppedCounter h) = acct h"
  "acct (incBlockedCounter h) = acct h"
  "acct (h\<lparr>hPc := pc\<rparr>) = acct h"
  by (rule acct_same; simp add: host_send_def metric_defs)+

lemma host_enabled_ops [simp]:
  "host_enabled (host_send h r) = host_enabled h"
  "host_enabled (incDroppedCounter h) = host_enabled h"
  "host_enabled (incBlockedCounter h) = host_enabled h"
  by (rule host_enabled_same; simp)+

lemma acct_add_offer: "acct h fan [] \<Longrightarrow> host_enabled h r \<Longrightarrow> acct (add_offer r ofr h) fan [r]"
  using host_enabled_same [of "add_offer r ofr h" h] by (simp add: acct_def add_offer_def)

lemma acct_pass: "acct h fan [] \<Longrightarrow> \<not> host_enabled h r \<Longrightarrow> acct h fan [r]"
  by (simp add: acct_def)

lemma acct_fanned: "acct h fan [r] \<Longrightarrow> acct h (fan @ [r]) []"
  by (simp add: acct_def)

lemma acct_gone: "\<exists>n. acct h (take n fan) [] \<Longrightarrow> \<exists>n. acct h (take n (fan @ [r])) []"
proof -
  assume "\<exists>n. acct h (take n fan) []"
  then obtain n where "acct h (take n fan) []" ..
  moreover have "take n fan = take (min n (length fan)) (fan @ [r])"
    by (simp add: min_def)
  ultimately show ?thesis by metis
qed

lemma acct_steps:
  "host_begin_shutdown h = Some h' \<Longrightarrow> acct h' = acct h"
  "host_finish_shutdown h = (err, h') \<Longrightarrow> acct h' = acct h"
  "host_step h h' errs \<Longrightarrow> acct h' = acct h"
  by (rule acct_same; auto simp: host_begin_shutdown_def host_finish_shutdown_def
      dest: host_step_frame split: if_splits prod.splits)+

lemma visited_unlocked: "\<not> main_rlocked pc \<Longrightarrow> visited pc i = []"
  by (cases pc) auto

text \<open>One host at a time.\<close>

lemma acct_main_host:
  "main_step s s' \<Longrightarrow> pc_inv s \<Longrightarrow> j < length (hosts s) \<Longrightarrow>
   acct (hosts s ! j) (fanned s) (visited (mpc s) j) \<Longrightarrow>
   acct (hosts s' ! j) (fanned s') (visited (mpc s') j)"
  by (induction rule: main_step.induct)
    (auto simp: log_eqs drain_got_def after_enq_def pc_inv_def nth_upd enables_def
      final_upt_Cons skip_hosts_nth visited_unlocked
      intro: acct_add_offer acct_pass acct_fanned acct_fanned [OF acct_add_offer]
        acct_fanned [OF acct_pass] split: log_cont.splits if_splits)

lemma main_step_fanned: "main_step s s' \<Longrightarrow> fanned s' = fanned s \<or> (\<exists>r. fanned s' = fanned s @ [r])"
  by (induction rule: main_step.induct)
    (auto simp: log_eqs drain_got_def after_enq_def split: log_cont.splits)

lemma acct_inv_main: "main_step s s' \<Longrightarrow> pc_inv s \<Longrightarrow> acct_inv s \<Longrightarrow> acct_inv s'"
  using main_step_fanned [of s s'] main_step_gone [of s s'] acct_main_host [of s s']
    same_hostsD(1) [OF main_step_hosts, of s s']
  by (auto simp: acct_inv_def simp del: take_append intro!: acct_gone)

lemma acct_gone_now: "acct h fan [] \<Longrightarrow> \<exists>n. acct h (take n fan) []"
  by (rule exI [of _ "length fan"]) simp

lemma acct_fresh: "fresh_host h \<Longrightarrow> acct (h\<lparr>hBorn := length fan\<rparr>) fan []"
  by (simp add: acct_def fresh_host_def)

lemma acct_inv_client:
  "client_step c s s' \<Longrightarrow> rem_inv s \<Longrightarrow> lock_inv s \<Longrightarrow> hosts_inv s \<Longrightarrow> acct_inv s \<Longrightarrow> acct_inv s'"
proof (induction rule: client_step.induct)
  case (c_remove_end s c kept f errs)
  then have "\<not> main_rlocked (mpc s)"
    by (metis lock_inv_def option.distinct(1) removing.simps(1))
  moreover have "\<And>i. i \<in> set kept \<Longrightarrow> i < length (hosts s)"
    using c_remove_end(1,2) by (auto simp: rem_inv_def list_all_iff dest: spec [of _ c])
  ultimately show ?case
    using c_remove_end(5) by (auto simp: acct_inv_def return_to_def visited_unlocked acct_gone_now)
next
  case (c_add_end s c h)
  then have "fresh_host h" "\<not> main_rlocked (mpc s)"
    by (auto simp: hosts_all_def can_lock_def)
  with c_add_end(6) show ?case
    by (auto simp: acct_inv_def return_to_def visited_unlocked acct_fresh nth_append less_Suc_eq)
qed (auto simp: acct_inv_def sys_upd_defs after_enq_def q_send_def q_can_send_def nth_upd acct_steps)

interpretation accts: sys_invariant
  "\<lambda>s. pc_inv s \<and> rem_inv s \<and> lock_inv s \<and> hosts_inv s" acct_inv
  by unfold_locales
    (auto simp: pcs.holds rem.holds lock.holds hosts.holds acct_inv_main acct_inv_client,
     auto simp: acct_inv_def init_sys_def sys_upd_defs nth_upd acct_steps all_set_conv_all_nth)

section \<open>Flushing the hosts\<close>

text \<open>The flush channels that a host still has to serve, the one in hand first.\<close>

definition chans :: "log_rec list \<Rightarrow> nat list" where
  "chans rs = List.map_filter flush rs"

lemma chans_simps [simp]:
  "chans [] = []"
  "chans (r # rs) = (case flush r of None \<Rightarrow> chans rs | Some ch \<Rightarrow> ch # chans rs)"
  "chans (rs @ rs') = chans rs @ chans rs'"
  by (simp_all add: chans_def List.map_filter_def split: option.splits)

fun pc_flush :: "host_pc \<Rightarrow> nat list" where
  "pc_flush (HGot r) = chans [r]"
| "pc_flush (HFlush a) = [a]"
| "pc_flush (HAck a) = [a]"
| "pc_flush _ = []"

definition flushes :: "'t host \<Rightarrow> nat list" where
  "flushes h = pc_flush (hPc h) @ chans (hIn h)"

text \<open>
  The channel the read loop waits on for host \<open>j\<close>, and whether the flush in progress is done
  with host \<open>j\<close>.
\<close>

fun awaited :: "main_pc \<Rightarrow> nat \<Rightarrow> nat list" where
  "awaited (MAck ch i is a) j = (if j = i then [a] else [])"
| "awaited _ j = []"

fun still :: "log_cont \<Rightarrow> nat \<Rightarrow> bool" where
  "still (LFan c r is) j = True"
| "still (LFlush ch is a) j = (j \<in> set is)"

fun flush_done :: "main_pc \<Rightarrow> nat \<Rightarrow> bool" where
  "flush_done (MHosts ch is) j = (j \<notin> set is)"
| "flush_done (MAck ch i is a) j = (j \<noteq> i \<and> j \<notin> set is)"
| "flush_done (MLog k r i) j = (j \<noteq> i \<and> \<not> still k j)"
| "flush_done (MBlocked k r i) j = (j \<noteq> i \<and> \<not> still k j)"
| "flush_done (MNotify ch) j = True"
| "flush_done _ j = False"

definition quiet :: "'t host \<Rightarrow> bool" where
  "quiet h \<longleftrightarrow> hIn h = [] \<and> (hPc h = HSelect \<or> hPc h = HExited)"

text \<open>
  A host has at most one flush to serve, the one the read loop waits for; it acknowledges with
  an empty queue, and stays quiet until the read loop is done with all hosts.
\<close>

definition flush_ok :: "main_pc \<Rightarrow> nat \<Rightarrow> 't host \<Rightarrow> bool" where
  "flush_ok pc j h \<longleftrightarrow>
     (flushes h = [] \<or> flushes h = awaited pc j) \<and>
     (\<forall>a. hPc h = HAck a \<longrightarrow> hIn h = []) \<and>
     (flush_done pc j \<longrightarrow> quiet h)"

definition flush_inv :: "'t sys \<Rightarrow> bool" where
  "flush_inv s \<longleftrightarrow>
     (\<forall>j<length (hosts s). flush_ok (mpc s) j (hosts s ! j)) \<and>
     (\<forall>h\<in>set (gone s). flushes h = [])"

lemma flush_ok_same:
  "hPc h' = hPc h \<Longrightarrow> hIn h' = hIn h \<Longrightarrow> flush_ok pc j h' = flush_ok pc j h"
  by (simp add: flush_ok_def flushes_def quiet_def)

lemma flush_ok_ops [simp]:
  "flush_ok pc j (add_offer r ofr h) = flush_ok pc j h"
  "flush_ok pc j (incDroppedCounter h) = flush_ok pc j h"
  "flush_ok pc j (incBlockedCounter h) = flush_ok pc j h"
  by (rule flush_ok_same; simp add: add_offer_def metric_defs)+

lemma flush_ok_shutdown:
  "host_begin_shutdown h = Some h' \<Longrightarrow> flush_ok pc j h' = flush_ok pc j h"
  "host_finish_shutdown h = (err, h') \<Longrightarrow> flush_ok pc j h' = flush_ok pc j h"
  by (rule flush_ok_same; auto simp: host_begin_shutdown_def host_finish_shutdown_def
      split: if_splits prod.splits)+

lemma flushes_unlocked: "flush_ok pc j h \<Longrightarrow> \<not> main_rlocked pc \<Longrightarrow> flushes h = []"
  by (cases pc) (auto simp: flush_ok_def)

lemma flush_done_unlocked: "\<not> main_rlocked pc \<Longrightarrow> \<not> flush_done pc j"
  by (cases pc) auto

lemma flush_ok_unlocked:
  "\<not> main_rlocked pc \<Longrightarrow> flush_ok pc j h \<longleftrightarrow> flushes h = []"
  by (cases pc) (auto simp: flush_ok_def flushes_def)

lemma awaited_Cons: "ch # xs = awaited pc j \<Longrightarrow> xs = []"
  by (cases pc) (auto split: if_splits)

lemma flush_ok_host_step: "host_step h h' errs \<Longrightarrow> flush_ok pc j h \<Longrightarrow> flush_ok pc j h'"
proof (induction rule: host_step.induct)
  case (write_rec h r h' errs)
  then show ?case
    using host_write_fields [OF write_rec(3)] by (auto simp: flush_ok_def flushes_def quiet_def)
next
  case (drain_rec h ch r rs h' errs)
  then show ?case
    using host_write_fields [OF drain_rec(4)]
    by (auto simp: flush_ok_def flushes_def quiet_def dest: awaited_Cons)
qed (auto simp: flush_ok_def flushes_def quiet_def dest: awaited_Cons split: option.splits)

lemma flush_ok_send:
  "host_can_send h \<Longrightarrow> flush_ok (MLog (LFan c r is) r i) j h \<Longrightarrow> flush r = None \<Longrightarrow>
   flush_ok (MFan c r is True) j (host_send h r)"
  "host_can_send h \<Longrightarrow> flush_ok (MBlocked (LFan c r is) r i) j h \<Longrightarrow> flush r = None \<Longrightarrow>
   flush_ok (MFan c r is True) j (host_send h r)"
  "host_can_send h \<Longrightarrow> flush_ok (MLog (LFlush ch is a) r i) i h \<Longrightarrow> flush r = Some a \<Longrightarrow>
   i \<notin> set is \<Longrightarrow> flush_ok (MAck ch i is a) i (host_send h r)"
  "host_can_send h \<Longrightarrow> flush_ok (MBlocked (LFlush ch is a) r i) i h \<Longrightarrow> flush r = Some a \<Longrightarrow>
   i \<notin> set is \<Longrightarrow> flush_ok (MAck ch i is a) i (host_send h r)"
  by (auto simp: flush_ok_def flushes_def host_send_def host_can_send_def split: if_splits)

lemma flush_ok_ack:
  "flush_ok (MAck ch i is a) i h \<Longrightarrow> hPc h = HAck a \<Longrightarrow> flush_ok (MHosts ch is) i (h\<lparr>hPc := HSelect\<rparr>)"
  by (auto simp: flush_ok_def flushes_def quiet_def)

lemma flush_ok_mono:
  "flush_ok pc j h \<Longrightarrow> awaited pc j = [] \<Longrightarrow> (flush_done pc' j \<Longrightarrow> flush_done pc j) \<Longrightarrow>
   flush_ok pc' j h"
  by (auto simp: flush_ok_def)

lemma flush_main_host:
  "main_step s s' \<Longrightarrow> pc_inv s \<Longrightarrow> j < length (hosts s) \<Longrightarrow>
   flush_ok (mpc s) j (hosts s ! j) \<Longrightarrow> flush_ok (mpc s') j (hosts s' ! j)"
  by (induction rule: main_step.induct)
    (auto simp: log_eqs drain_got_def after_enq_def pc_inv_def nth_upd final_upt_Cons skip_hosts_nth
        flush_done_unlocked
      intro: flush_ok_send flush_ok_ack intro: flush_ok_mono split: log_cont.splits if_splits)

lemma flush_inv_main: "main_step s s' \<Longrightarrow> pc_inv s \<Longrightarrow> flush_inv s \<Longrightarrow> flush_inv s'"
  using main_step_gone [of s s'] flush_main_host [of s s']
    same_hostsD(1) [OF main_step_hosts, of s s']
  by (auto simp: flush_inv_def)

lemma flush_ok_MGot: "flush_ok MSelect j h \<Longrightarrow> flush_ok (MGot r) j h"
  by (simp add: flush_ok_unlocked)

lemma flush_inv_client:
  "client_step c s s' \<Longrightarrow> rem_inv s \<Longrightarrow> lock_inv s \<Longrightarrow> hosts_inv s \<Longrightarrow> flush_inv s \<Longrightarrow> flush_inv s'"
proof (induction rule: client_step.induct)
  case (c_remove_end s c kept f errs)
  then have "\<not> main_rlocked (mpc s)"
    by (metis lock_inv_def option.distinct(1) removing.simps(1))
  moreover have "\<And>i. i \<in> set kept \<Longrightarrow> i < length (hosts s)"
    using c_remove_end(1,2) by (auto simp: rem_inv_def list_all_iff dest: spec [of _ c])
  ultimately show ?case
    using c_remove_end(5) by (auto simp: flush_inv_def return_to_def flush_ok_unlocked)
next
  case (c_add_end s c h)
  then have "fresh_host h" "\<not> main_rlocked (mpc s)"
    by (auto simp: hosts_all_def can_lock_def)
  with c_add_end(6) show ?case
    by (auto simp: flush_inv_def return_to_def flush_ok_unlocked nth_append less_Suc_eq
        fresh_host_def flushes_def)
qed (auto simp: flush_inv_def sys_upd_defs after_enq_def q_send_def q_can_send_def nth_upd
    flush_ok_shutdown flush_ok_MGot)

lemma flushes_host_step: "host_step h h' errs \<Longrightarrow> flushes h = [] \<Longrightarrow> flushes h' = []"
  using flush_ok_host_step [of h h' errs MSelect 0] by (simp add: flush_ok_unlocked)

interpretation flushing: sys_invariant
  "\<lambda>s. pc_inv s \<and> rem_inv s \<and> lock_inv s \<and> hosts_inv s" flush_inv
  by unfold_locales
    (auto simp: pcs.holds rem.holds lock.holds hosts.holds flush_inv_main flush_inv_client,
     auto simp: flush_inv_def init_sys_def sys_upd_defs nth_upd flush_ok_host_step
       flushes_host_step all_set_conv_all_nth)

section \<open>Flush channels\<close>

text \<open>
  Every call of \<^verbatim>\<open>Flush\<close> has a channel of its own. The channel a client waits on, or will; the
  flush record a client has not queued yet; the channel the read loop serves.
\<close>

fun owns :: "'t client_pc \<Rightarrow> nat list" where
  "owns (CEnq r (NFlush ch sh)) = [ch]"
| "owns (CBlocked r (NFlush ch sh)) = [ch]"
| "owns (CWait ch sh) = [ch]"
| "owns _ = []"

fun unsent :: "'t client_pc \<Rightarrow> nat list" where
  "unsent (CEnq r k) = chans [r]"
| "unsent (CBlocked r k) = chans [r]"
| "unsent _ = []"

fun enq_ok :: "'t client_pc \<Rightarrow> bool" where
  "enq_ok (CEnq r k) = (flush r = (case k of NLog \<Rightarrow> None | NFlush ch sh \<Rightarrow> Some ch))"
| "enq_ok (CBlocked r k) = (flush r = (case k of NLog \<Rightarrow> None | NFlush ch sh \<Rightarrow> Some ch))"
| "enq_ok _ = True"

fun fan_serves :: "fan_cont \<Rightarrow> nat list" where
  "fan_serves AtSelect = []"
| "fan_serves (InDrain ch) = [ch]"

fun log_serves :: "log_cont \<Rightarrow> nat list" where
  "log_serves (LFan c r is) = fan_serves c"
| "log_serves (LFlush ch is a) = [ch]"

fun serves :: "main_pc \<Rightarrow> nat list" where
  "serves (MGot r) = chans [r]"
| "serves (MFan c r is lg) = fan_serves c"
| "serves (MLog k r i) = log_serves k"
| "serves (MBlocked k r i) = log_serves k"
| "serves (MDrain ch) = [ch]"
| "serves (MHosts ch is) = [ch]"
| "serves (MAck ch i is a) = [ch]"
| "serves (MNotify ch) = [ch]"
| "serves _ = []"

definition chan_inv :: "'t sys \<Rightarrow> bool" where
  "chan_inv s \<longleftrightarrow>
     distinct (chans (accepted s)) \<and>
     (\<forall>ch\<in>set (chans (accepted s)). ch < nextCh s) \<and>
     (\<forall>c. enq_ok (clients s c)) \<and>
     (\<forall>c. \<forall>ch\<in>set (owns (clients s c)). ch < nextCh s) \<and>
     (\<forall>c. \<forall>ch\<in>set (unsent (clients s c)). ch \<notin> set (chans (accepted s))) \<and>
     (\<forall>c c'. c \<noteq> c' \<longrightarrow> set (owns (clients s c)) \<inter> set (owns (clients s c')) = {})"

lemma serves_after_fan [simp]: "serves (after_fan c) = fan_serves c"
  by (cases c) auto

definition serve_inv :: "'t sys \<Rightarrow> bool" where
  "serve_inv s \<longleftrightarrow> set (serves (mpc s)) \<subseteq> set (chans (taken s))"

lemma serve_inv_main: "main_step s s' \<Longrightarrow> serve_inv s \<Longrightarrow> serve_inv s'"
  by (induction rule: main_step.induct)
    (auto simp: serve_inv_def log_eqs drain_got_def after_enq_def split: log_cont.splits
      option.splits)

lemma serve_inv_client: "client_step c s s' \<Longrightarrow> serve_inv s \<Longrightarrow> serve_inv s'"
  by (induction rule: client_step.induct)
    (auto simp: serve_inv_def sys_upd_defs after_enq_def q_send_def split: option.splits)

interpretation serve: sys_invariant "\<lambda>s. True" serve_inv
  by unfold_locales
    (auto simp: serve_inv_main serve_inv_client,
     auto simp: serve_inv_def init_sys_def sys_upd_defs)

lemma enq_ok_unsent:
  "enq_ok pc \<Longrightarrow> set (unsent pc) \<subseteq> set (owns pc)"
  by (cases pc) (auto split: enq_next.splits)

lemma chan_invD:
  assumes "chan_inv s"
  shows "enq_ok (clients s c)" "\<forall>ch\<in>set (owns (clients s c)). ch < nextCh s"
    "\<forall>ch\<in>set (unsent (clients s c)). ch \<notin> set (chans (accepted s))"
    "c' \<noteq> c \<Longrightarrow> set (owns (clients s c)) \<inter> set (owns (clients s c')) = {}"
    "set (unsent (clients s c)) \<subseteq> set (owns (clients s c))"
  using assms unfolding chan_inv_def by (blast intro: enq_ok_unsent [THEN subsetD])+

lemma chan_inv_client: "client_step c s s' \<Longrightarrow> chan_inv s \<Longrightarrow> chan_inv s'"
proof -
  assume *: "client_step c s s'" "chan_inv s"
  note facts = chan_invD [OF *(2)]
  from * facts [of c] facts(5) show ?thesis
    by (induction rule: client_step.induct)
      (fastforce simp: chan_inv_def sys_upd_defs after_enq_def q_send_def newFlushLogRec_def
        split: enq_next.splits option.splits if_splits)+
qed

lemma chan_inv_main: "main_step s s' \<Longrightarrow> chan_inv s \<Longrightarrow> chan_inv s'"
proof (induction rule: main_step.induct)
  case (m_drain_handoff s ch c r k)
  note facts = chan_invD [OF m_drain_handoff(5)]
  from m_drain_handoff facts [of c] facts(5) show ?case
    by (fastforce simp: chan_inv_def sys_upd_defs after_enq_def drain_got_def
        split: enq_next.splits option.splits if_splits)
qed (auto simp: chan_inv_def log_eqs drain_got_def intro: less_SucI split: log_cont.splits)

interpretation channels: sys_invariant "\<lambda>s. True" chan_inv
  by unfold_locales
    (auto simp: chan_inv_main chan_inv_client,
     auto simp: chan_inv_def init_sys_def sys_upd_defs)

section \<open>Shutting down\<close>

text \<open>
  One call of \<^verbatim>\<open>Shutdown\<close> at most gets past the swap of the mark \<^verbatim>\<open>shutdown\<close>, and it closes \<^verbatim>\<open>quit\<close>
  once.
\<close>

fun past_swap :: "'t client_pc \<Rightarrow> bool" where
  "past_swap CClose = True"
| "past_swap CWaitDone = True"
| "past_swap (CHosts is errs) = True"
| "past_swap (CHostWait i is errs) = True"
| "past_swap _ = False"

definition shut_inv :: "'t sys \<Rightarrow> bool" where
  "shut_inv s \<longleftrightarrow>
     (quitClosed s \<longrightarrow> lgrShutdown s) \<and>
     (mpc s = MExited \<longrightarrow> quitClosed s) \<and>
     (\<forall>c. past_swap (clients s c) \<longrightarrow> lgrShutdown s) \<and>
     (\<forall>c. clients s c = CClose \<longrightarrow> \<not> quitClosed s) \<and>
     (\<forall>c c'. past_swap (clients s c) \<longrightarrow> past_swap (clients s c') \<longrightarrow> c = c')"

lemma main_step_marks:
  "main_step s s' \<Longrightarrow> quitClosed s' = quitClosed s \<and> lgrShutdown s' = lgrShutdown s \<and>
     (mpc s' = MExited \<longrightarrow> quitClosed s) \<and>
     (\<forall>c. past_swap (clients s' c) \<longrightarrow> clients s' c = clients s c)"
  by (induction rule: main_step.induct)
    (auto simp: log_eqs drain_got_def after_enq_def split: enq_next.splits log_cont.splits)

lemma shut_inv_main: "main_step s s' \<Longrightarrow> shut_inv s \<Longrightarrow> shut_inv s'"
  using main_step_marks [of s s'] unfolding shut_inv_def by (metis past_swap.simps(1))

lemma shut_inv_client: "client_step c s s' \<Longrightarrow> shut_inv s \<Longrightarrow> shut_inv s'"
proof -
  assume *: "client_step c s s'" "shut_inv s"
  then have "past_swap (clients s c) \<longrightarrow> lgrShutdown s"
      "\<And>c'. past_swap (clients s c) \<Longrightarrow> past_swap (clients s c') \<Longrightarrow> c' = c"
    by (auto simp: shut_inv_def)
  with * show ?thesis
    by (induction rule: client_step.induct)
      (auto simp: shut_inv_def sys_upd_defs after_enq_def q_send_def split: enq_next.splits)
qed

interpretation shut: sys_invariant "\<lambda>s. True" shut_inv
  by unfold_locales
    (auto simp: shut_inv_main shut_inv_client,
     auto simp: shut_inv_def init_sys_def sys_upd_defs)

end
