(* ===== verification/Schedule.thy ===== *)
theory Schedule
  imports SystemInv
begin

text \<open>
  An executable scheduler for the concurrent engine: a run is a list of actions, each of which
  names the goroutine that moves. It takes one of the steps that the relation allows, so every
  state a run ends in is reachable. Concrete runs are examples of what the engine does.
\<close>

section \<open>One goroutine moves\<close>

text \<open>The loop of a host, which prefers a record to \<^verbatim>\<open>quit\<close>.\<close>

definition host_next :: "'t host \<Rightarrow> ('t host \<times> go_error list) option" where
  "host_next h =
     (case hPc h of
        HSelect \<Rightarrow>
          (case hIn h of
             r # rs \<Rightarrow> Some (h\<lparr>hIn := rs, hTaken := hTaken h @ [r], hPc := HGot r\<rparr>, [])
           | [] \<Rightarrow> if hQuit h then Some (h\<lparr>hPc := HExited, hDone := True\<rparr>, []) else None)
      | HGot r \<Rightarrow>
          (case flush r of None \<Rightarrow> Some (host_write True HSelect h r)
           | Some ch \<Rightarrow> Some (h\<lparr>hPc := HFlush ch\<rparr>, []))
      | HFlush ch \<Rightarrow>
          (case hIn h of
             [] \<Rightarrow> Some (h\<lparr>hPc := HAck ch\<rparr>, [])
           | r # rs \<Rightarrow>
               (let h' = h\<lparr>hIn := rs, hTaken := hTaken h @ [r]\<rparr>
                in case flush r of None \<Rightarrow> Some (host_write False (HFlush ch) h' r)
                   | Some ch' \<Rightarrow> Some (h', [])))
      | _ \<Rightarrow> None)"

text \<open>The loop of a host that sees \<^verbatim>\<open>quit\<close> first.\<close>

definition host_quit :: "'t host \<Rightarrow> 't host option" where
  "host_quit h =
     (if hPc h = HSelect \<and> hQuit h then Some (h\<lparr>hPc := HExited, hDone := True\<rparr>) else None)"

text \<open>The read loop; \<open>c\<close> is the client that a notification goes to.\<close>

definition main_next :: "nat \<Rightarrow> 't sys \<Rightarrow> 't sys option" where
  "main_next c s =
     (case mpc s of
        MSelect \<Rightarrow>
          (case qIn s of
             r # rs \<Rightarrow> Some (s\<lparr>qIn := rs, taken := taken s @ [r], mpc := MGot r\<rparr>)
           | [] \<Rightarrow> if quitClosed s then Some (s\<lparr>mpc := MExited, doneClosed := True\<rparr>) else None)
      | MGot r \<Rightarrow>
          (case flush r of
             Some ch \<Rightarrow> Some (s\<lparr>mpc := MDrain ch\<rparr>)
           | None \<Rightarrow> if wlock s = None
               then Some (s\<lparr>mpc := MFan AtSelect (prepped s r) [0..<length (hosts s)] False\<rparr>)
               else None)
      | MFan k r [] lg \<Rightarrow> Some (end_fan k r lg s)
      | MFan k r (i # is) lg \<Rightarrow>
          Some (if \<not> host_enabled (hosts s ! i) r then s\<lparr>mpc := MFan k r is lg\<rparr>
                else if hShutdown (hosts s ! i) then log_done (LFan k r is) i OShut s
                else s\<lparr>mpc := MLog (LFan k r is) r i\<rparr>)
      | MLog k r i \<Rightarrow>
          (if host_can_send (hosts s ! i)
           then Some (log_done k i OAccepted (set_host i (host_send (hosts s ! i) r) s))
           else case onTargetQueueFull (opts s) of
                  None \<Rightarrow> Some ((set_host i (incBlockedCounter (hosts s ! i)) s)\<lparr>mpc := MBlocked k r i\<rparr>)
                | Some f \<Rightarrow>
                    (case f i r (int (hCap (hosts s ! i))) of
                       Panics e \<Rightarrow> Some (log_panic k i e s)
                     | Ret True \<Rightarrow>
                         Some (log_done k i ODropped (set_host i (incDroppedCounter (hosts s ! i)) s))
                     | Ret False \<Rightarrow>
                         Some ((set_host i (incBlockedCounter (hosts s ! i)) s)\<lparr>mpc := MBlocked k r i\<rparr>)))
      | MBlocked k r i \<Rightarrow>
          (if host_can_send (hosts s ! i)
           then Some (log_done k i OAccepted (set_host i (host_send (hosts s ! i) r) s))
           else None)
      | MDrain ch \<Rightarrow>
          (if wlock s = None \<and> qCap s \<noteq> 0
           then (case qIn s of
                   [] \<Rightarrow> Some (s\<lparr>mpc := MHosts ch [0..<length (hosts s)]\<rparr>)
                 | r # rs \<Rightarrow> Some (drain_got ch r (s\<lparr>qIn := rs\<rparr>)))
           else None)
      | MHosts ch [] \<Rightarrow> Some (s\<lparr>mpc := MNotify ch\<rparr>)
      | MHosts ch (i # is) \<Rightarrow>
          Some (if hShutdown (hosts s ! i)
                then s\<lparr>nextCh := nextCh s + 1, mpc := MAck ch i is (nextCh s)\<rparr>
                else s\<lparr>nextCh := nextCh s + 1,
                       mpc := MLog (LFlush ch is (nextCh s)) (newFlushLogRec NewLogger (nextCh s)) i\<rparr>)
      | MAck ch i is a \<Rightarrow>
          (if hPc (hosts s ! i) = HAck a
           then Some ((set_host i ((hosts s ! i)\<lparr>hPc := HSelect\<rparr>) s)\<lparr>mpc := MHosts ch is\<rparr>)
           else None)
      | MNotify ch \<Rightarrow>
          (case clients s c of
             CWait ch' sh \<Rightarrow>
               if ch' = ch
               then Some (if sh then set_client c CSwap (s\<lparr>mpc := MSelect\<rparr>)
                          else return_to c None (s\<lparr>mpc := MSelect\<rparr>))
               else None
           | _ \<Rightarrow> None)
      | MExited \<Rightarrow> None)"

lemma host_next_step: "host_next h = Some (h', errs) \<Longrightarrow> host_step h h' errs"
  by (auto simp: host_next_def Let_def split: host_pc.splits list.splits option.splits if_splits
      intro: host_step.intros)

lemma host_quit_step: "host_quit h = Some h' \<Longrightarrow> host_step h h' []"
  by (auto simp: host_quit_def split: if_splits intro: host_step.quit)

lemma main_next_step: "main_next c s = Some s' \<Longrightarrow> main_step s s'"
  by (auto simp: main_next_def simp del: log_done.simps
      split: main_pc.splits list.splits option.splits if_splits outcome.splits bool.splits
        client_pc.splits
      intro: main_step.intros main_step.m_hosts_shut [simplified] main_step.m_hosts_log [simplified])

text \<open>
  A client goes on: it sends if it can, else asks \<^verbatim>\<open>onQueueFull\<close>; it goes through \<^verbatim>\<open>Shutdown\<close>.
\<close>

definition client_next :: "nat \<Rightarrow> 't sys \<Rightarrow> 't sys option" where
  "client_next c s =
     (case clients s c of
        CEnq r k \<Rightarrow>
          (if q_can_send s then Some (after_enq c k (q_send r s))
           else case onQueueFull (opts s) of
                  None \<Rightarrow> Some (set_client c (CBlocked r k) s)
                | Some f \<Rightarrow>
                    (case f r (int (qCap s)) of
                       Panics e \<Rightarrow> Some (set_client c CGone s)
                     | Ret True \<Rightarrow> Some (after_enq c k s)
                     | Ret False \<Rightarrow> Some (set_client c (CBlocked r k) s)))
      | CBlocked r k \<Rightarrow> if q_can_send s then Some (after_enq c k (q_send r s)) else None
      | CSwap \<Rightarrow>
          Some (if lgrShutdown s then return_to c (Some shutdown_again) s
                else set_client c CClose (s\<lparr>lgrShutdown := True\<rparr>))
      | CClose \<Rightarrow> Some (set_client c CWaitDone (s\<lparr>quitClosed := True\<rparr>))
      | CWaitDone \<Rightarrow>
          (if doneClosed s \<and> wlock s = None
           then Some (set_client c (CHosts [0..<length (hosts s)] []) s) else None)
      | CHosts [] errs \<Rightarrow> Some (return_to c (errorOrNil s errs) s)
      | CHosts (i # is) errs \<Rightarrow>
          (case host_begin_shutdown (hosts s ! i) of
             Some h \<Rightarrow> Some (set_client c (CHostWait i is errs) (set_host i h s))
           | None \<Rightarrow> Some (set_client c (CHosts is (errs @ [host_shutdown_twice])) s))
      | CHostWait i is errs \<Rightarrow>
          (case host_finish_shutdown (hosts s ! i) of (err, h) \<Rightarrow>
             Some (set_client c (CHosts is (errs @ opt_list err)) (set_host i h s)))
      | CAdd h \<Rightarrow>
          (if wlock s = None \<and> \<not> main_rlocked (mpc s) \<and> \<not> lgrShutdown s
           then Some (return_to c None (s\<lparr>hosts := hosts s @ [h\<lparr>hBorn := length (fanned s)\<rparr>]\<rparr>))
           else None)
      | _ \<Rightarrow> None)"

lemma rlocked_past: "client_rlocked pc \<Longrightarrow> past_swap pc"
  by (cases pc) auto

lemma can_lock_open:
  "reachable s \<Longrightarrow> wlock s = None \<Longrightarrow> \<not> main_rlocked (mpc s) \<Longrightarrow> \<not> lgrShutdown s \<Longrightarrow> can_lock s"
proof -
  assume *: "reachable s" "wlock s = None" "\<not> main_rlocked (mpc s)" "\<not> lgrShutdown s"
  have "\<not> client_rlocked (clients s c)" for c
    using shut.holds [OF *(1)] *(4) by (meson shut_inv_def rlocked_past)
  with * show ?thesis by (simp add: can_lock_def)
qed

lemma client_next_step: "reachable s \<Longrightarrow> client_next c s = Some s' \<Longrightarrow> client_step c s s'"
  by (cases "clients s c")
    (auto simp: client_next_def can_lock_open
      split: list.splits option.splits if_splits outcome.splits bool.splits prod.splits
      intro: client_step.c_send client_step.c_drop client_step.c_panic client_step.c_block
        client_step.c_blocked_send client_step.c_swap_again client_step.c_swap
        client_step.c_close client_step.c_done client_step.c_host_shutdown
        client_step.c_host_twice client_step.c_host_down client_step.c_shutdown_end
        client_step.c_add_end)

section \<open>Runs\<close>

text \<open>
  What may happen next: a client starts a call (\<open>AAdd\<close> of a target of state \<open>st\<close>), goes on, or gives
  up waiting; the read loop moves, or times out at a full queue; a host's loop moves.
\<close>

datatype 't action =
    ALog nat log_rec
  | AFlush nat bool
  | AAdd nat "'t target_iface" 't host_options
  | AClient nat
  | AGiveUp nat
  | AMain nat
  | AMainQuit
  | AMainTimeout
  | AHost nat
  | AHostQuit nat

fun is_idle :: "'t client_pc \<Rightarrow> bool" where
  "is_idle CIdle = True"
| "is_idle _ = False"

lemma is_idle_iff: "is_idle pc \<longleftrightarrow> pc = CIdle"
  by (cases pc) auto

definition act :: "'t action \<Rightarrow> 't sys \<Rightarrow> 't sys option" where
  "act a s =
     (case a of
        ALog c r \<Rightarrow>
          (if is_idle (clients s c) \<and> \<not> lgrShutdown s \<and> flush r = None
           then Some (set_client c (CEnq r NLog) s) else None)
      | AFlush c sh \<Rightarrow>
          (if is_idle (clients s c) \<and> wlock s = None \<and> length (hosts s) \<noteq> 0 \<and> \<not> lgrShutdown s
           then Some (set_client c
             (CEnq (newFlushLogRec NewLogger (nextCh s)) (NFlush (nextCh s) sh))
             (s\<lparr>nextCh := nextCh s + 1\<rparr>))
           else None)
      | AAdd c target st ho \<Rightarrow>
          (if is_idle (clients s c) \<and> \<not> lgrShutdown s
           then (case newTargetHost (fmtEnv s) 0 target st ho of
                   Ret (g, Inr h) \<Rightarrow> Some (set_client c (CAdd h) s)
                 | _ \<Rightarrow> None)
           else None)
      | AClient c \<Rightarrow> client_next c s
      | AGiveUp c \<Rightarrow>
          (case clients s c of
             CBlocked r k \<Rightarrow> Some (after_enq c k (report [enqueue_timeout_error s r] s))
           | CWait ch sh \<Rightarrow> Some (return_to c (Some flush_timeout) s)
           | _ \<Rightarrow> None)
      | AMain c \<Rightarrow> main_next c s
      | AMainQuit \<Rightarrow>
          (if mpc s = MSelect \<and> quitClosed s
           then Some (s\<lparr>mpc := MExited, doneClosed := True\<rparr>) else None)
      | AMainTimeout \<Rightarrow>
          (case mpc s of
             MBlocked k r i \<Rightarrow> Some (log_done k i OTimedOut (report [target_timeout_error s r] s))
           | _ \<Rightarrow> None)
      | AHost i \<Rightarrow>
          (if i < length (hosts s)
           then (case host_next (hosts s ! i) of
                   Some (h, errs) \<Rightarrow> Some (report errs (set_host i h s)) | None \<Rightarrow> None)
           else None)
      | AHostQuit i \<Rightarrow>
          (if i < length (hosts s)
           then (case host_quit (hosts s ! i) of
                   Some h \<Rightarrow> Some (report [] (set_host i h s)) | None \<Rightarrow> None)
           else None))"

fun run :: "'t action list \<Rightarrow> 't sys \<Rightarrow> 't sys option" where
  "run [] s = Some s"
| "run (a # as) s = (case act a s of None \<Rightarrow> None | Some s' \<Rightarrow> run as s')"

lemma act_step: "reachable s \<Longrightarrow> act a s = Some s' \<Longrightarrow> sys_step s s'"
  by (auto simp: act_def is_idle_iff simp del: log_done.simps
      split: action.splits if_splits option.splits outcome.splits sum.splits prod.splits
        client_pc.splits main_pc.splits
      intro: sys_step.intros client_step.c_log client_step.c_flush [simplified] client_step.c_add
        client_step.c_blocked_timeout client_step.c_wait_timeout main_step.m_quit
        main_step.m_blocked_timeout main_next_step client_next_step host_next_step host_quit_step)

lemma run_reachable: "reachable s \<Longrightarrow> run as s = Some s' \<Longrightarrow> reachable s'"
  by (induction "as" arbitrary: s) (auto split: option.splits dest: act_step intro: reachable.step)

section \<open>A small engine\<close>

text \<open>
  An engine with the default options and a target that appends what it is given to its state. Its runs show that the situations that the
  properties speak of do occur.
\<close>

definition demo_target :: "bytes target_iface" where
  "demo_target =
     \<lparr>tType = ''*buffer'', tInit = (\<lambda>st. (None, st)),
      tWrite = (\<lambda>p r st. (Ret (int (length p), None), st @ p)), tShutdown = (\<lambda>st. (None, st))\<rparr>"

definition demo_host_options :: host_options where
  "demo_host_options =
     \<lparr>optName = ''demo'', optFilter = Some (StdFilter \<lparr>Lvl = Info, StackLvl = Panic\<rparr>),
      optFormatter = None, optMaxQueueSize = 2, optMetrics = None\<rparr>"

definition demo_sys :: "bytes sys" where
  "demo_sys = init_sys default_options demo_env (\<lambda>r. recMsg r) (\<lambda>pcs. [])
     (\<lambda>errs. if errs = [] then None else Some (MError errs))"

definition demo_rec :: "string \<Rightarrow> log_rec" where
  "demo_rec msg = NewLogRec zero_time [] Info NewLogger msg [] False"

lemma demo_sys_simps:
  "fmtEnv demo_sys = demo_env" "clients demo_sys c = CIdle" "lgrShutdown demo_sys = False" "hosts demo_sys = []"
  "mpc demo_sys = MSelect" "wlock demo_sys = None" "quitClosed demo_sys = False" "returns demo_sys = []"
  "errorOrNil demo_sys errs = (if errs = [] then None else Some (MError errs))"
  by (simp_all add: demo_sys_def init_sys_def)

lemma reachable_demo: "reachable demo_sys"
  unfolding demo_sys_def by (rule reachable.start) (simp add: default_options_def)

lemma run_demo: "run as demo_sys = Some s \<Longrightarrow> reachable s"
  by (rule run_reachable [OF reachable_demo])

text \<open>A target is added; a client logs a record while another flushes; up to the notification.\<close>

definition flush_run :: "bytes action list" where
  "flush_run =
    [AAdd 0 demo_target [] demo_host_options, AClient 0,
     ALog 0 (demo_rec ''one''), AClient 0, AFlush 1 False, AClient 1] @
    replicate 10 (AMain 1) @ replicate 5 (AHost 0) @ [AMain 1, AMain 1]"

text \<open>The channel a client waits on.\<close>

fun waits_on :: "'t client_pc \<Rightarrow> nat option" where
  "waits_on (CWait ch sh) = (if sh then None else Some ch)"
| "waits_on _ = None"

lemma waits_on_iff: "waits_on pc = Some ch \<longleftrightarrow> pc = CWait ch False"
  by (cases pc) auto

text \<open>What a run shows, as a test that can be evaluated.\<close>

definition ends :: "'t action list \<Rightarrow> 't sys \<Rightarrow> ('t sys \<Rightarrow> bool) \<Rightarrow> bool" where
  "ends as s P = (case run as s of None \<Rightarrow> False | Some s' \<Rightarrow> P s')"

lemma ends_demo: "ends as demo_sys P \<Longrightarrow> \<exists>s. reachable s \<and> P s"
  by (auto simp: ends_def dest: run_demo split: option.splits)

lemma ends_demoE:
  assumes "ends as demo_sys P"
  obtains s where "reachable s" "P s"
  using ends_demo [OF assms] by blast

end
