(* ===== verification/Delivery.thy ===== *)
theory Delivery
  imports Schedule "HOL-Library.Sublist"
begin

text \<open>
  What the invariants say of the delivery of records: the state of a host in a reachable state
  of the system, what a flush that is about to be notified has done, and flushes that can no
  longer be notified.
\<close>

section \<open>A host in a reachable state\<close>

lemma reachable_host_ok:
  "reachable s \<Longrightarrow> h \<in> set (hosts s) \<union> set (gone s) \<Longrightarrow> host_ok h"
  using hosts.holds [of s] by (auto simp: hosts_all_def list_all_iff)

text \<open>Written, in hand and queued records make up what the host took of what it was offered.\<close>

lemma host_ok_conserves:
  "host_ok h \<Longrightarrow> map fst (hLog h) @ host_holds (hPc h) @ log_recs (hIn h) = taken_offers (hOffers h)"
  by (auto simp: host_ok_def host_inv_def)

lemma taken_offers_subseq: "subseq (taken_offers ofs) (map fst ofs)"
  unfolding taken_offers_def by (intro subseq_map subseq_filter_left)

lemma visited_in_hand: "visited pc i = [] \<or> visited pc i = in_hand p pc"
  by (induction pc i rule: visited.induct) auto

text \<open>What is offered to a host is a part, in order, of what the engine took from its queue.\<close>

lemma acct_subseq: "acct h fan now \<Longrightarrow> subseq (map fst (hOffers h)) (fan @ now)"
proof -
  assume "acct h fan now"
  then have "map fst (hOffers h) = filter (host_enabled h) (drop (hBorn h) fan @ now)"
    by (simp add: acct_def)
  moreover have "subseq (filter (host_enabled h) (drop (hBorn h) fan @ now)) (drop (hBorn h) fan @ now)"
    by (rule subseq_filter_left)
  moreover have "subseq (drop (hBorn h) fan @ now) (fan @ now)"
    by (simp add: suffix_imp_subseq suffix_drop)
  ultimately show ?thesis
    by (metis subseq_order.trans)
qed

lemma offers_subseq:
  assumes "reachable s" "h \<in> set (hosts s) \<union> set (gone s)"
  shows "subseq (map fst (hOffers h)) (map (prepped s) (log_recs (taken s)))"
proof -
  have flow: "map (prepped s) (log_recs (taken s)) = fanned s @ in_hand (prepped s) (mpc s)"
    using flow.holds [OF assms(1)] by (simp add: flow_inv_def)
  consider i where "i < length (hosts s)" "h = hosts s ! i" | "h \<in> set (gone s)"
    using assms(2) by (auto simp: in_set_conv_nth)
  then show ?thesis
  proof cases
    case (1 i)
    then have "acct h (fanned s) (visited (mpc s) i)"
      using accts.holds [OF assms(1)] by (simp add: acct_inv_def)
    then have "subseq (map fst (hOffers h)) (fanned s @ visited (mpc s) i)"
      by (rule acct_subseq)
    with visited_in_hand [of "mpc s" i "prepped s"] show ?thesis
      unfolding flow by (auto intro: subseq_rev_drop_many)
  next
    case 2
    then obtain n where "acct h (take n (fanned s)) []"
      using accts.holds [OF assms(1)] by (auto simp: acct_inv_def)
    then have "subseq (map fst (hOffers h)) (take n (fanned s))"
      using acct_subseq by fastforce
    moreover have "subseq (take n (fanned s)) (fanned s)"
      by (simp add: prefix_imp_subseq take_is_prefix)
    ultimately show ?thesis
      unfolding flow by (metis subseq_order.trans subseq_rev_drop_many)
  qed
qed

section \<open>A flush that is notified\<close>

lemma host_quiet:
  assumes "host_ok h" "quiet h"
  shows "hIn h = []" "map fst (hLog h) = taken_offers (hOffers h)"
  using host_ok_conserves [OF assms(1)] assms(2) by (auto simp: quiet_def)

lemma notify_quiet:
  assumes "reachable s" "mpc s = MNotify ch" "h \<in> set (hosts s)"
  shows "hIn h = []" "map fst (hLog h) = taken_offers (hOffers h)"
    "map fst (hOffers h) = filter (host_enabled h) (drop (hBorn h) (fanned s))"
proof -
  obtain i where i: "i < length (hosts s)" "h = hosts s ! i"
    using assms(3) by (auto simp: in_set_conv_nth)
  have "quiet h"
    using flushing.holds [OF assms(1)] i assms(2) by (simp add: flush_inv_def flush_ok_def)
  with reachable_host_ok [OF assms(1), of h] assms(3)
  show "hIn h = []" "map fst (hLog h) = taken_offers (hOffers h)"
    by (simp_all add: host_quiet)
  show "map fst (hOffers h) = filter (host_enabled h) (drop (hBorn h) (fanned s))"
    using accts.holds [OF assms(1)] i assms(2) by (auto simp: acct_inv_def acct_def)
qed

lemma chans_split: "ch \<in> set (chans rs) \<Longrightarrow> \<exists>pre F post. rs = pre @ F # post \<and> flush F = Some ch"
proof (induction rs)
  case (Cons r rs)
  show ?case
  proof (cases "flush r = Some ch")
    case True
    then show ?thesis by (metis append_Nil)
  next
    case False
    with Cons obtain pre F post where "rs = pre @ F # post" "flush F = Some ch"
      by (auto split: option.splits)
    then show ?thesis by (metis append_Cons)
  qed
qed simp

lemma notify_before:
  assumes "reachable s" "mpc s = MNotify ch"
  shows "\<exists>pre F post rest. accepted s = pre @ F # post \<and> flush F = Some ch \<and>
    fanned s = map (prepped s) (log_recs pre) @ rest"
proof -
  have "ch \<in> set (chans (taken s))"
    using serve.holds [OF assms(1)] assms(2) by (simp add: serve_inv_def)
  then obtain pre F post where split: "taken s = pre @ F # post" "flush F = Some ch"
    by (auto dest: chans_split)
  have "accepted s = pre @ F # post @ qIn s"
    "fanned s = map (prepped s) (log_recs pre) @ map (prepped s) (log_recs post)"
    using flow.holds [OF assms(1)] assms(2) split by (simp_all add: flow_inv_def)
  with split show ?thesis by blast
qed

text \<open>A call of \<^verbatim>\<open>Flush\<close> returns nil in one way only: the read loop notifies it.\<close>

lemma main_step_returns:
  "main_step s s' \<Longrightarrow> returns s' = returns s \<or>
   (\<exists>c ch. mpc s = MNotify ch \<and> clients s c = CWait ch False \<and> returns s' = returns s @ [(c, None)])"
  by (induction rule: main_step.induct)
    (auto simp: log_eqs drain_got_def after_enq_def split: log_cont.splits)

lemma client_step_returns:
  "client_step c s s' \<Longrightarrow> clients s c = CWait ch sh \<Longrightarrow>
   returns s' = returns s @ [(c, Some flush_timeout)]"
  by (erule client_step.cases) (auto simp: sys_upd_defs)

lemma client_step_other:
  "client_step c' s s' \<Longrightarrow> returns s' = returns s @ [(c, res)] \<Longrightarrow> c = c'"
  by (induction rule: client_step.induct)
    (auto simp: sys_upd_defs after_enq_def q_send_def split: if_splits)

lemma flush_returns_nil:
  assumes "sys_step s s'" "clients s c = CWait ch False" "returns s' = returns s @ [(c, None)]"
  shows "mpc s = MNotify ch"
  using assms
proof (induction rule: sys_step.induct)
  case (main s s')
  then show ?case using main_step_returns [of s s'] by auto
next
  case (client c' s s')
  then show ?case using client_step_other client_step_returns by fastforce
qed (auto simp: sys_upd_defs)

section \<open>Flushes that nobody waits for, and flushes that nobody notifies\<close>

text \<open>
  The read loop is about to send on the channel of a flush whose caller has given up: no client
  receives from the channel, now or later.
\<close>

definition wedged :: "nat \<Rightarrow> 't sys \<Rightarrow> bool" where
  "wedged ch s \<longleftrightarrow> mpc s = MNotify ch \<and> ch < nextCh s \<and> (\<forall>c. ch \<notin> set (owns (clients s c)))"

lemma owns_waits: "\<forall>c. ch \<notin> set (owns (clients s c)) \<Longrightarrow> clients s c \<noteq> CWait ch sh"
  by (metis list.set_intros(1) owns.simps(3))

lemma wedged_main: "main_step s s' \<Longrightarrow> wedged ch s \<Longrightarrow> False"
  by (erule main_step.cases) (auto simp: wedged_def dest: owns_waits)

lemma owns_blocked: "owns (CBlocked r k :: 't client_pc) = owns (CEnq r k :: 't client_pc)"
  by (cases k) auto

lemma owns_client:
  "client_step c s s' \<Longrightarrow> nextCh s \<le> nextCh s' \<and>
   (\<forall>c'. \<forall>ch\<in>set (owns (clients s' c')). ch \<in> set (owns (clients s c')) \<or> nextCh s \<le> ch)"
  by (induction rule: client_step.induct)
    (auto simp: sys_upd_defs after_enq_def q_send_def owns_blocked split: enq_next.splits if_splits)

text \<open>
  A flush is lost when its record was received as a redundant one, or never queued, so that the
  read loop does not serve its channel and will not.
\<close>

definition lost :: "nat \<Rightarrow> 't sys \<Rightarrow> bool" where
  "lost ch s \<longleftrightarrow>
     ch < nextCh s \<and> ch \<notin> set (serves (mpc s)) \<and> ch \<notin> set (chans (qIn s)) \<and>
     (\<forall>c. ch \<notin> set (unsent (clients s c)))"

text \<open>A flush record that was taken and is not being served is lost.\<close>

lemma taken_unserved_lost:
  assumes "reachable s" "ch \<in> set (chans (taken s))" "ch \<notin> set (serves (mpc s))"
  shows "lost ch s"
proof -
  have "accepted s = taken s @ qIn s"
    using flow.holds [OF assms(1)] by (simp add: flow_inv_def)
  with channels.holds [OF assms(1)] assms(2,3) show ?thesis
    by (auto simp: lost_def chan_inv_def)
qed

lemma awaited_single: "awaited pc j = [a] \<Longrightarrow> \<exists>ch is. pc = MAck ch j is a"
  by (cases pc) (auto split: if_splits)

text \<open>Queues without flush records.\<close>

lemma chans_Nil: "chans rs = [] \<longleftrightarrow> log_recs rs = rs"
proof (induction rs)
  case (Cons r rs)
  have "length (log_recs rs) \<le> length rs"
    by (simp add: log_recs_def)
  then have "log_recs rs \<noteq> r # rs"
    by (metis Suc_n_not_le_n length_Cons)
  with Cons show ?case by (auto split: option.splits)
qed simp

lemma lost_main: "main_step s s' \<Longrightarrow> lost ch s \<Longrightarrow> lost ch s'"
proof (induction rule: main_step.induct)
  case (m_drain_handoff s ch' c r k)
  then have "ch \<notin> set (chans [r])"
    by (metis lost_def unsent.simps(2))
  with m_drain_handoff show ?case
    by (auto simp: lost_def sys_upd_defs drain_got_def after_enq_def split: enq_next.splits)
qed (auto simp: lost_def log_eqs drain_got_def split: log_cont.splits option.splits)

lemma unsent_client:
  "client_step c s s' \<Longrightarrow> nextCh s \<le> nextCh s' \<and>
   (\<forall>c'. \<forall>ch\<in>set (unsent (clients s' c')). ch \<in> set (unsent (clients s c')) \<or> nextCh s \<le> ch) \<and>
   set (serves (mpc s')) \<subseteq> set (serves (mpc s)) \<union> set (unsent (clients s c)) \<and>
   set (chans (qIn s')) \<subseteq> set (chans (qIn s)) \<union> set (unsent (clients s c))"
  by (induction rule: client_step.induct)
    (auto simp: sys_upd_defs after_enq_def q_send_def newFlushLogRec_def
      split: enq_next.splits option.splits if_splits)

lemma lost_step: "sys_step s s' \<Longrightarrow> lost ch s \<Longrightarrow> lost ch s'"
proof (induction rule: sys_step.induct)
  case (client c s s')
  then show ?case
    using unsent_client [OF client(1)] unfolding lost_def by (meson UnE leD le_trans not_less subsetD)
qed (auto simp: lost_main, auto simp: lost_def sys_upd_defs)

lemma lost_steps: "sys_step\<^sup>*\<^sup>* s s' \<Longrightarrow> lost ch s \<Longrightarrow> lost ch s'"
  by (induction rule: rtranclp_induct) (auto intro: lost_step)

lemma wedged_step:
  "sys_step s s' \<Longrightarrow> wedged ch s \<Longrightarrow>
   wedged ch s' \<and> taken s' = taken s \<and> fanned s' = fanned s"
proof (induction rule: sys_step.induct)
  case (main s s')
  then show ?case using wedged_main by blast
next
  case (client c s s')
  have "mpc s' = mpc s"
    using client_step_mpc [OF client(1)] client(2) by (auto simp: wedged_def)
  moreover have "taken s' = taken s \<and> fanned s' = fanned s"
    using client by (induction rule: client_step.induct)
      (auto simp: wedged_def sys_upd_defs after_enq_def q_send_def q_can_send_def split: if_splits)
  ultimately show ?case
    using owns_client [OF client(1)] client(2) unfolding wedged_def
    by (fastforce dest: leD)
qed (auto simp: wedged_def sys_upd_defs)

lemma wedged_steps:
  "sys_step\<^sup>*\<^sup>* s s' \<Longrightarrow> wedged ch s \<Longrightarrow> wedged ch s' \<and> taken s' = taken s \<and> fanned s' = fanned s"
  by (induction rule: rtranclp_induct) (auto dest: wedged_step)

end
