(* ===== verification/Targets.thy ===== *)
theory Targets
  imports Host
begin

text \<open>
  The other targets (\<^verbatim>\<open>targets/writer.go\<close>, \<^verbatim>\<open>targets/file.go\<close>, \<^verbatim>\<open>targets/testing.go\<close>,
  \<^verbatim>\<open>targets/syslog.go\<close>, \<^verbatim>\<open>targets/syslog_unsupported.go\<close>, \<^verbatim>\<open>targets/utils.go\<close>): what they do with
  the bytes they are given. Files, sockets and the syslog client are parameters.
\<close>

section \<open>Writer\<close>

text \<open>\<^verbatim>\<open>ioutil.Discard\<close> accepts everything and keeps nothing.\<close>

definition discard_Write :: "'s writer" where
  "discard_Write p st = ((int (length p), None), st)"

definition NewWriterTarget :: "'s writer option \<Rightarrow> 's writer" where
  "NewWriterTarget out = (case out of None \<Rightarrow> discard_Write | Some w \<Rightarrow> w)"

definition Writer_Write :: "'s writer \<Rightarrow> bytes \<Rightarrow> log_rec \<Rightarrow> 's \<Rightarrow> (int \<times> go_error option) \<times> 's" where
  "Writer_Write out p r st = out p st"

text \<open>The target as the host holds it; \<^verbatim>\<open>Init\<close> and \<^verbatim>\<open>Shutdown\<close> do nothing.\<close>

definition writer_target :: "'s writer \<Rightarrow> 's target_iface" where
  "writer_target out =
     \<lparr>tType = ''*targets.Writer'', tInit = (\<lambda>st. (None, st)),
      tWrite = (\<lambda>p r st. case Writer_Write out p r st of (res, st') \<Rightarrow> (Ret res, st')),
      tShutdown = (\<lambda>st. (None, st))\<rparr>"

section \<open>File\<close>

record file_options =
  Filename :: string
  MaxSize :: int
  MaxAge :: int
  MaxBackups :: int
  Compress :: bool

definition FileOptions_CheckValid :: "file_options \<Rightarrow> go_error option" where
  "FileOptions_CheckValid fo =
     (if Filename fo = [] then Some (ErrorText ''filename cannot be empty'') else None)"

text \<open>
  The rotating logger is third-party: it is made from the options, and writes and closes.
\<close>

record 's rotator =
  rotOptions :: file_options
  rotWrite :: "file_options \<Rightarrow> 's writer"
  rotClose :: "file_options \<Rightarrow> 's \<Rightarrow> go_error option \<times> 's"

definition NewFileTarget ::
  "(file_options \<Rightarrow> 's writer) \<Rightarrow> (file_options \<Rightarrow> 's \<Rightarrow> go_error option \<times> 's) \<Rightarrow> file_options \<Rightarrow> 's rotator" where
  "NewFileTarget wr cl fo =
     \<lparr>rotOptions = \<lparr>Filename = Filename fo, MaxSize = MaxSize fo, MaxAge = MaxAge fo,
        MaxBackups = MaxBackups fo, Compress = Compress fo\<rparr>, rotWrite = wr, rotClose = cl\<rparr>"

definition File_Write :: "'s rotator \<Rightarrow> bytes \<Rightarrow> log_rec \<Rightarrow> 's \<Rightarrow> (int \<times> go_error option) \<times> 's" where
  "File_Write f p r st = rotWrite f (rotOptions f) p st"

definition File_Shutdown :: "'s rotator \<Rightarrow> 's \<Rightarrow> go_error option \<times> 's" where
  "File_Shutdown f st = rotClose f (rotOptions f) st"

definition file_target :: "'s rotator \<Rightarrow> 's target_iface" where
  "file_target f =
     \<lparr>tType = ''*targets.File'', tInit = (\<lambda>st. (None, st)),
      tWrite = (\<lambda>p r st. case File_Write f p r st of (res, st') \<Rightarrow> (Ret res, st')),
      tShutdown = File_Shutdown f\<rparr>"

section \<open>Testing\<close>

text \<open>The log of the test, or none once the target was shut down.\<close>

type_synonym testing = "string list option"

definition Testing_Write :: "bytes \<Rightarrow> log_rec \<Rightarrow> testing \<Rightarrow> (int \<times> go_error option) \<times> testing" where
  "Testing_Write p r tt =
     ((int (length p), None), case tt of None \<Rightarrow> None | Some log \<Rightarrow> Some (log @ [TrimSpace p]))"

definition Testing_Shutdown :: "testing \<Rightarrow> go_error option \<times> testing" where
  "Testing_Shutdown tt = (None, None)"

definition testing_target :: "testing target_iface" where
  "testing_target =
     \<lparr>tType = ''*targets.Testing'', tInit = (\<lambda>st. (None, st)),
      tWrite = (\<lambda>p r st. case Testing_Write p r st of (res, st') \<Rightarrow> (Ret res, st')),
      tShutdown = Testing_Shutdown\<rparr>"

section \<open>Certificates\<close>

text \<open>
  \<^verbatim>\<open>GetCertPoolOrNil\<close>: the environment variable, the file system, the base64 decoder and the parser
  of certificates are parameters.
\<close>

record 'p cert_env =
  os_Getenv :: "string \<Rightarrow> string"
  os_ReadFile :: "string \<Rightarrow> go_error + bytes"
  base64_Decode :: "string \<Rightarrow> go_error + bytes"
  AppendCertsFromPEM :: "bytes \<Rightarrow> 'p option"

definition DefaultCertKey :: string where
  "DefaultCertKey = ''LOGR_DEFAULT_CERT''"

definition getDefaultCert :: "'p cert_env \<Rightarrow> string" where
  "getDefaultCert ce = os_Getenv ce DefaultCertKey"

definition GetCertPoolOrNil :: "'p cert_env \<Rightarrow> string \<Rightarrow> go_error + 'p option" where
  "GetCertPoolOrNil ce cert =
     (let cert = (if cert = [] then getDefaultCert ce else cert)
      in if cert = [] then Inr None
         else case (case os_ReadFile ce cert of
                      Inr b \<Rightarrow> Inr b
                    | Inl e \<Rightarrow> (case base64_Decode ce cert of
                        Inr b \<Rightarrow> Inr b | Inl e' \<Rightarrow> Inl (ErrorText ''cert cannot be read''))) of
                Inl e \<Rightarrow> Inl e
              | Inr serverCert \<Rightarrow>
                  (case AppendCertsFromPEM ce serverCert of
                     Some pool \<Rightarrow> Inr (Some pool)
                   | None \<Rightarrow> Inl (ErrorText ''cannot parse cert'')))"

text \<open>No pool means that no certificate was named anywhere.\<close>

lemma GetCertPoolOrNil_None:
  "GetCertPoolOrNil ce cert = Inr None \<longleftrightarrow> cert = [] \<and> getDefaultCert ce = []"
  by (auto simp: GetCertPoolOrNil_def Let_def split: sum.split option.split)

section \<open>Syslog\<close>

record syslog_options =
  sIP :: string
  sHost :: string
  sPort :: int
  sTLS :: bool
  sCert :: string
  sInsecure :: bool
  sTag :: string

definition SyslogOptions_CheckValid :: "syslog_options \<Rightarrow> go_error option" where
  "SyslogOptions_CheckValid so =
     (if sHost so = [] \<and> sIP so = [] then Some (ErrorText ''missing host'')
      else if sPort so = 0 then Some (ErrorText ''missing port'')
      else None)"

definition NewSyslogTarget :: "syslog_options option \<Rightarrow> go_error + syslog_options" where
  "NewSyslogTarget params =
     (case params of None \<Rightarrow> Inl (ErrorText ''params cannot be nil'') | Some p \<Rightarrow> Inr p)"

datatype severity = Crit | SErr | Warning | SDebug | SInfo

text \<open>
  \<^verbatim>\<open>Init\<close>: \<open>dial\<close> is \<^verbatim>\<open>DialWithTLSConfig\<close> for a network, an address, a tag and, with TLS, whether to
  skip the verification and the certificates; it makes the client's state.
\<close>

definition Syslog_Init ::
  "'p cert_env \<Rightarrow>
   (string \<Rightarrow> string \<Rightarrow> string \<Rightarrow> (bool \<times> 'p option) option \<Rightarrow> go_error option \<times> 's) \<Rightarrow>
   syslog_options \<Rightarrow> 's \<Rightarrow> go_error option \<times> 's" where
  "Syslog_Init ce dial params st =
     (let host = (if sHost params = [] then sIP params else sHost params);
          raddr = host @ '':'' @ dec_int (sPort params)
      in case (if sTLS params
               then (case GetCertPoolOrNil ce (sCert params) of
                       Inl e \<Rightarrow> Inl e
                     | Inr pool \<Rightarrow> Inr (''tcp+tls'', Some (sInsecure params, pool)))
               else Inr (''tcp'', None)) of
           Inl e \<Rightarrow> (Some e, st)
         | Inr (network, config) \<Rightarrow>
             (if raddr = '':0'' then dial [] [] (sTag params) config
              else dial network raddr (sTag params) config))"

text \<open>The \<^verbatim>\<open>switch\<close> of \<^verbatim>\<open>Write\<close> compares whole levels.\<close>

definition syslog_severity :: "level \<Rightarrow> severity" where
  "syslog_severity l =
     (if l = Panic \<or> l = Fatal then Crit
      else if l = Error then SErr
      else if l = Warn then Warning
      else if l = Debug \<or> l = Trace then SDebug
      else SInfo)"

definition Syslog_Write ::
  "(severity \<Rightarrow> string \<Rightarrow> 's \<Rightarrow> go_error option \<times> 's) \<Rightarrow> bytes \<Rightarrow> log_rec \<Rightarrow> 's \<Rightarrow>
   (int \<times> go_error option) \<times> 's" where
  "Syslog_Write send p r st =
     (case send (syslog_severity (LogRec_Level r)) p st of
        (err, st') \<Rightarrow> ((if err \<noteq> None then 0 else int (length p), err), st'))"

definition Syslog_Shutdown :: "('s \<Rightarrow> go_error option \<times> 's) \<Rightarrow> 's \<Rightarrow> go_error option \<times> 's" where
  "Syslog_Shutdown close_client st = close_client st"

text \<open>On the other platforms every operation fails.\<close>

definition unsupported :: go_error where
  "unsupported = ErrorText ''Syslog target is not supported on this platform.''"

definition SyslogOptions_CheckValid_unsupported :: "syslog_options \<Rightarrow> go_error option" where
  "SyslogOptions_CheckValid_unsupported so = Some unsupported"

definition NewSyslogTarget_unsupported :: "syslog_options option \<Rightarrow> go_error + syslog_options" where
  "NewSyslogTarget_unsupported params = Inl unsupported"

definition Syslog_Init_unsupported :: "'s \<Rightarrow> go_error option \<times> 's" where
  "Syslog_Init_unsupported st = (Some unsupported, st)"

definition Syslog_Write_unsupported ::
  "bytes \<Rightarrow> log_rec \<Rightarrow> 's \<Rightarrow> (int \<times> go_error option) \<times> 's" where
  "Syslog_Write_unsupported p r st = ((0, Some unsupported), st)"

definition Syslog_Shutdown_unsupported :: "'s \<Rightarrow> go_error option \<times> 's" where
  "Syslog_Shutdown_unsupported st = (Some unsupported, st)"

section \<open>The severity of a record\<close>

text \<open>Severities are ordered by their numbers in the syslog protocol: the lower, the more severe.\<close>

primrec severity_code :: "severity \<Rightarrow> nat" where
  "severity_code Crit = 2"
| "severity_code SErr = 3"
| "severity_code Warning = 4"
| "severity_code SInfo = 6"
| "severity_code SDebug = 7"

lemma severity_code_inject: "severity_code a = severity_code b \<Longrightarrow> a = b"
  by (cases a; cases b) simp_all

instantiation severity :: linorder
begin

definition less_eq_severity :: "severity \<Rightarrow> severity \<Rightarrow> bool" where
  "less_eq_severity a b \<longleftrightarrow> severity_code a \<le> severity_code b"

definition less_severity :: "severity \<Rightarrow> severity \<Rightarrow> bool" where
  "less_severity a b \<longleftrightarrow> severity_code a < severity_code b"

instance
  by standard (auto simp: less_eq_severity_def less_severity_def intro: severity_code_inject)

end

lemma eq_std_level:
  "l = Panic \<longleftrightarrow> ID l = 0 \<and> std_level_of l = l" "l = Fatal \<longleftrightarrow> ID l = 1 \<and> std_level_of l = l"
  "l = Error \<longleftrightarrow> ID l = 2 \<and> std_level_of l = l" "l = Warn \<longleftrightarrow> ID l = 3 \<and> std_level_of l = l"
  "l = Debug \<longleftrightarrow> ID l = 5 \<and> std_level_of l = l" "l = Trace \<longleftrightarrow> ID l = 6 \<and> std_level_of l = l"
  by (auto simp: std_level_of_def)

text \<open>
  The severity of a record goes by the whole level, not by its ID. A level that shares its ID with
  a standard one but differs in anything else, such as one that asks for a stack trace, is sent with
  the severity of information, also when its ID is that of an error or a panic. The standard levels
  keep their order.
\<close>

theorem syslog_severity_needs_exact_level:
  "syslog_severity l =
     (if l = std_level_of l \<and> unat (ID l) \<le> 6
      then [Crit, Crit, SErr, Warning, SInfo, SDebug, SDebug] ! unat (ID l) else SInfo) \<and>
   syslog_severity (Panic\<lparr>Stacktrace := True\<rparr>) = SInfo \<and>
   sorted (map syslog_severity [Panic, Fatal, Error, Warn, Info, Debug, Trace])"
proof (intro conjI)
  show "syslog_severity (Panic\<lparr>Stacktrace := True\<rparr>) = SInfo"
    by (simp add: syslog_severity_def std_level_defs)
  show "sorted (map syslog_severity [Panic, Fatal, Error, Warn, Info, Debug, Trace])"
    by (simp add: syslog_severity_def std_level_defs less_eq_severity_def)
  have sev: "syslog_severity l =
     (if \<not> std_level_of l = l then SInfo
      else if ID l = 0 \<or> ID l = 1 then Crit
      else if ID l = 2 then SErr
      else if ID l = 3 then Warning
      else if ID l = 5 \<or> ID l = 6 then SDebug
      else SInfo)"
    unfolding syslog_severity_def eq_std_level by auto
  show "syslog_severity l =
     (if l = std_level_of l \<and> unat (ID l) \<le> 6
      then [Crit, Crit, SErr, Warning, SInfo, SDebug, SDebug] ! unat (ID l) else SInfo)"
  proof (cases "ID l > 6")
    case True
    then have "\<not> unat (ID l) \<le> 6" by (simp add: word_less_nat_alt)
    with True show ?thesis
      unfolding sev by (auto simp: eq_commute [of l])
  next
    case False
    then consider "ID l = 0" | "ID l = 1" | "ID l = 2" | "ID l = 3" | "ID l = 4" | "ID l = 5" | "ID l = 6"
      using word_le_6_cases [of "ID l"] by (auto simp: not_less)
    then show ?thesis
      unfolding sev by cases (simp_all add: eq_commute [of l])
  qed
qed

end
