(* ===== verification/Pipeline.thy ===== *)
theory Pipeline
  imports Delivery Targets
begin

text \<open>
  From the engine's queue to the bytes of a target: the engine with its goroutines leaves a target
  in the state that a program without any would have produced, by formatting and writing the same
  records one after the other.
\<close>

section \<open>Writing without an engine\<close>

text \<open>
  The state of the target of \<open>h\<close> after it was initialised and the records \<open>rs\<close> were written to it by
  direct calls of \<^verbatim>\<open>writeRec\<close>.
\<close>

definition write_to :: "'t host \<Rightarrow> log_rec \<Rightarrow> 't \<Rightarrow> 't" where
  "write_to h r st = snd (writeRec (h\<lparr>hState := st\<rparr>) r)"

definition sync_target :: "'t host \<Rightarrow> log_rec list \<Rightarrow> 't" where
  "sync_target h rs = fold (write_to h) rs (hInit h)"

text \<open>What the target depends on is fixed when the host is made.\<close>

definition same_sink :: "'t host \<Rightarrow> 't host \<Rightarrow> bool" where
  "same_sink h h' \<longleftrightarrow>
     hFilter h' = hFilter h \<and> hFormatter h' = hFormatter h \<and> hTarget h' = hTarget h \<and>
     hName h' = hName h \<and> hInit h' = hInit h"

lemma write_to_same: "same_sink h h' \<Longrightarrow> write_to h' = write_to h"
  unfolding write_to_def same_sink_def
  by (intro ext arg_cong [where f = snd] writeRec_same) simp_all

lemma sync_target_same: "same_sink h h' \<Longrightarrow> sync_target h' = sync_target h"
  by (intro ext) (simp add: sync_target_def write_to_same, simp add: same_sink_def)

text \<open>The state of a target that was not shut down is what its records make of it.\<close>

definition in_step :: "'t host \<Rightarrow> bool" where
  "in_step h \<longleftrightarrow> (\<not> hShutdown h \<longrightarrow> hState h = sync_target h (map fst (hLog h)))"

lemma in_step_same:
  "same_sink h h' \<Longrightarrow> hState h' = hState h \<Longrightarrow> hLog h' = hLog h \<Longrightarrow> hShutdown h' = hShutdown h \<Longrightarrow>
   in_step h \<Longrightarrow> in_step h'"
  by (simp add: in_step_def sync_target_same)

lemma in_step_write:
  assumes "host_write counted pc h r = (h', errs)" "in_step h"
  shows "in_step h'"
proof -
  have "same_sink h h'" "hState h' = write_to h r (hState h)" "hShutdown h' = hShutdown h"
      "map fst (hLog h') = map fst (hLog h) @ [r]"
    using assms(1)
    by (auto simp: host_write_def metric_defs write_to_def same_sink_def Let_def
        split: prod.splits outcome.splits option.splits if_splits)
  with assms(2) show ?thesis
    by (simp add: in_step_def sync_target_same) (simp add: sync_target_def)
qed

lemma in_step_step: "in_step h \<Longrightarrow> host_step h h' errs \<Longrightarrow> in_step h'"
proof (rotate_tac, induction rule: host_step.induct)
  case (drain_rec h ch r rs h' errs)
  have "in_step (h\<lparr>hIn := rs, hTaken := hTaken h @ [r]\<rparr>)"
    using drain_rec(5) by (rule in_step_same [rotated -1]) (simp_all add: same_sink_def)
  with drain_rec(4) show ?case by (rule in_step_write)
next
  case (write_rec h r h' errs)
  then show ?case by (blast intro: in_step_write)
qed (auto elim!: in_step_same [rotated -1] simp: same_sink_def)

definition untouched :: "'t host \<Rightarrow> bool" where
  "untouched h \<longleftrightarrow> hState h = hInit h \<and> hLog h = []"

interpretation sinks: host_predicate untouched in_step
proof
  fix h h' :: "'a host" and n
  show "untouched h \<Longrightarrow> in_step (h\<lparr>hBorn := n\<rparr>)"
    by (simp add: untouched_def in_step_def sync_target_def)
  show "in_step h \<Longrightarrow> host_begin_shutdown h = Some h' \<Longrightarrow> in_step h'"
    by (auto simp: host_begin_shutdown_def in_step_def split: if_splits)
  fix err
  show "in_step h \<Longrightarrow> hShutdown h \<Longrightarrow> host_finish_shutdown h = (err, h') \<Longrightarrow> in_step h'"
    by (auto simp: host_finish_shutdown_def in_step_def split: prod.splits)
qed (auto simp: newTargetHost_def untouched_def Let_def in_step_step add_offer_def host_send_def metric_defs
    same_sink_def elim!: in_step_same [rotated -1]
    split: if_splits sum.splits prod.splits option.splits)

section \<open>In-memory targets\<close>

text \<open>The text a host makes of a record; nothing if the level is not enabled or formatting fails.\<close>

definition host_text :: "'t host \<Rightarrow> log_rec \<Rightarrow> bytes" where
  "host_text h r =
     (case GetEnabledLevel (hFilter h) (recLevel r) of (level, enabled) \<Rightarrow>
        if enabled then (case Format (hFormatter h) r level [] of Ret (Inr b) \<Rightarrow> b | _ \<Rightarrow> []) else [])"

lemma buffer_writer_target:
  "tWrite (writer_target buffer_Write) p r st = (Ret (int (length p), None), st @ p)"
  by (simp add: writer_target_def Writer_Write_def buffer_Write_def)

lemma sync_target_buffer:
  assumes "hTarget h = writer_target buffer_Write"
  shows "sync_target h rs = hInit h @ concat (map (host_text h) rs)"
proof -
  have "write_to h r st = st @ host_text h r" for r st
    using assms
    by (auto simp: write_to_def writeRec_def host_text_def buffer_writer_target
        split: prod.splits outcome.splits sum.splits)
  then have "fold (write_to h) rs st = st @ concat (map (host_text h) rs)" for st
    by (induction rs arbitrary: st) simp_all
  then show ?thesis
    by (simp add: sync_target_def)
qed

lemma host_text_default:
  assumes "hFormatter h = DefaultFormatter env" "host_enabled h r"
    and "\<forall>f\<in>set (fieldsAll r). value_text env shouldQuote f \<noteq> None"
  shows "host_text h r = default_text env r (fst (GetEnabledLevel (hFilter h) (recLevel r)))"
  using assms(1,2) DefaultFormatter_Format_text [OF assms(3), of _ "Some []"]
  by (auto simp: host_text_def DefaultFormatter_def host_enabled_def host_IsLevelEnabled_def
      split: prod.splits)

section \<open>The engine writes what a direct program would\<close>

text \<open>
  C3: Asynchronous logging refines synchronous logging. When a call of \<^verbatim>\<open>Flush\<close> returns nil, a target
  that is not shut down and whose host refused no record is in the state that direct calls of
  \<^verbatim>\<open>writeRec\<close> leave it in, one for each record that the host enables, in the order of the engine's
  queue, since the target was added. For a target that writes to memory with the default formatter
  this is the text of these records, one line after the other, after what \<^verbatim>\<open>Init\<close> left there.
\<close>

theorem flush_refines_direct_writes:
  assumes "reachable s" "sys_step s s'"
    and "clients s c = CWait ch False" "returns s' = returns s @ [(c, None)]"
    and "h \<in> set (hosts s)" "\<not> hShutdown h" "\<forall>p\<in>set (hOffers h). snd p = OAccepted"
  defines "due \<equiv> filter (host_enabled h) (drop (hBorn h) (fanned s))"
  shows "hState h = sync_target h due \<and>
    (hTarget h = writer_target buffer_Write \<longrightarrow> hFormatter h = DefaultFormatter env \<longrightarrow>
     (\<forall>r\<in>set due. \<forall>f\<in>set (fieldsAll r). value_text env shouldQuote f \<noteq> None) \<longrightarrow>
     hState h = hInit h @
       concat (map (\<lambda>r. default_text env r (fst (GetEnabledLevel (hFilter h) (recLevel r)))) due))"
proof -
  have pc: "mpc s = MNotify ch"
    using assms(2-4) by (rule flush_returns_nil)
  have "in_step h"
    using sinks.holds [OF assms(1)] assms(5) by (auto simp: hosts_all_def list_all_iff)
  moreover have "taken_offers (hOffers h) = map fst (hOffers h)"
    using assms(7) by (simp add: taken_offers_def)
  ultimately have "hState h = sync_target h due"
    using notify_quiet [OF assms(1) pc assms(5)] assms(6) by (simp add: in_step_def due_def)
  moreover have "host_enabled h r" if "r \<in> set due" for r
    using that by (simp add: due_def)
  ultimately show ?thesis
    by (auto simp: sync_target_buffer host_text_default intro!: arg_cong [where f = concat])
qed

theorem flush_refines_direct_writes_witness:
  "\<exists>s :: bytes sys. hState (hosts s ! 0) = ''now info one '' @ Newline \<and>
     hState (hosts s ! 0) = sync_target (hosts s ! 0)
       (filter (host_enabled (hosts s ! 0)) (drop (hBorn (hosts s ! 0)) (fanned s)))"
proof -
  have "ends flush_run demo_sys (\<lambda>s. mpc s = MNotify 0 \<and> waits_on (clients s 1) = Some 0 \<and>
      length (hosts s) = 1 \<and> list_all (\<lambda>p. snd p = OAccepted) (hOffers (hosts s ! 0)) \<and>
      \<not> hShutdown (hosts s ! 0) \<and> hState (hosts s ! 0) = ''now info one '' @ Newline)"
    by code_simp
  then obtain s :: "bytes sys" where s: "reachable s" "mpc s = MNotify 0" "clients s 1 = CWait 0 False"
      "length (hosts s) = 1" "\<forall>p\<in>set (hOffers (hosts s ! 0)). snd p = OAccepted"
      "\<not> hShutdown (hosts s ! 0)" "hState (hosts s ! 0) = ''now info one '' @ Newline"
    by (elim ends_demoE) (auto simp: waits_on_iff list_all_iff)
  have "sys_step s (return_to 1 None (s\<lparr>mpc := MSelect\<rparr>))"
    using s(2,3) by (intro sys_step.main main_step.m_notify)
  moreover have "hosts s ! 0 \<in> set (hosts s)"
    using s(4) by simp
  ultimately have "hState (hosts s ! 0) = sync_target (hosts s ! 0)
      (filter (host_enabled (hosts s ! 0)) (drop (hBorn (hosts s ! 0)) (fanned s)))"
    using flush_refines_direct_writes [OF s(1) _ s(3) _ _ s(6,5)] by (simp add: return_to_def)
  with s(7) show ?thesis by blast
qed

end
