(* ===== verification/Progress.thy ===== *)
theory Progress
  imports Delivery
begin

text \<open>
  What a flush rests on: hosts that are open and whose targets do not panic, and that stay so whatever
  the loops do. The read loop gets stuck for good when a host does not take the flush record.
\<close>

section \<open>Hosts that serve a flush\<close>

definition ready :: "'t host \<Rightarrow> bool" where
  "ready h \<longleftrightarrow> \<not> hShutdown h \<and> never_panics h"

text \<open>What the steps of hosts and of the read loop leave alone.\<close>

definition fixed :: "'t host \<Rightarrow> filter_obj \<times> formatter_iface \<times> 't target_iface \<times> string \<times> bool" where
  "fixed h = (hFilter h, hFormatter h, hTarget h, hName h, hShutdown h)"

lemma ready_fixed: "fixed h' = fixed h \<Longrightarrow> ready h' = ready h"
proof -
  assume *: "fixed h' = fixed h"
  then have "writeRec (h'\<lparr>hState := st\<rparr>) r = writeRec (h\<lparr>hState := st\<rparr>) r" for st r
    by (intro writeRec_same) (simp_all add: fixed_def)
  with * show ?thesis
    by (simp add: ready_def never_panics_def fixed_def)
qed

lemma host_step_fixed: "host_step h h' errs \<Longrightarrow> fixed h' = fixed h"
proof (induction rule: host_step.induct)
  case (write_rec h r h' errs)
  then show ?case
    by (auto simp: host_write_def fixed_def metric_defs Let_def
        split: prod.splits outcome.splits option.splits)
next
  case (drain_rec h ch r rs h' errs)
  then show ?case
    by (auto simp: host_write_def fixed_def metric_defs Let_def
        split: prod.splits outcome.splits option.splits)
qed (simp_all add: fixed_def)

lemma open_not_exited: "host_ok h \<Longrightarrow> ready h \<Longrightarrow> hPc h \<noteq> HExited"
  by (auto simp: host_ok_def host_inv_def ready_def)

lemma fixed_ops [simp]:
  "fixed (add_offer r ofr h) = fixed h" "fixed (host_send h r) = fixed h"
  "fixed (incDroppedCounter h) = fixed h" "fixed (incBlockedCounter h) = fixed h"
  "fixed (h\<lparr>hPc := pc\<rparr>) = fixed h"
  by (simp_all add: fixed_def add_offer_def host_send_def metric_defs)

lemma skip_hosts_fixed: "map fixed (skip_hosts r is hs) = map fixed hs"
  by (induction r "is" hs rule: skip_hosts.induct) (auto simp: map_upd_same)

lemma main_step_fixed: "main_step s s' \<Longrightarrow> map fixed (hosts s') = map fixed (hosts s)"
  by (induction rule: main_step.induct)
    (auto simp: log_eqs drain_got_def after_enq_def map_upd_same nth_upd skip_hosts_fixed
      split: enq_next.splits log_cont.splits)

lemma main_step_settings: "main_step s s' \<Longrightarrow> wlock s' = wlock s \<and> opts s' = opts s"
  by (induction rule: main_step.induct)
    (auto simp: log_eqs drain_got_def after_enq_def split: enq_next.splits log_cont.splits)

lemma list_all_ready_fixed: "map fixed hs' = map fixed hs \<Longrightarrow> list_all ready hs \<Longrightarrow> list_all ready hs'"
  by (metis (mono_tags, lifting) length_map list_all_length nth_map ready_fixed)

lemma flushes_send:
  "host_can_send h \<Longrightarrow> flushes h = [] \<Longrightarrow> flush r = Some a \<Longrightarrow> flushes (host_send h r) = [a]"
  by (auto simp: flushes_def host_send_def host_can_send_def split: if_splits)

text \<open>An engine with one host whose formatter cannot fail, and its flush record just received.\<close>

definition open_host :: "bytes host" where
  "open_host =
     \<lparr>hName = ''open'', hFilter = StdFilter \<lparr>Lvl = Info, StackLvl = zero_level\<rparr>,
      hFormatter = \<lparr>IsStacktraceNeeded = False, Format = (\<lambda>r l b. Ret (Inr (b @ recMsg r)))\<rparr>,
      hTarget = demo_target, hState = [], hIn = [], hCap = 1, hQuit = False, hDone = False,
      hShutdown = False, hMetrics = None, hPc = HSelect, hAccepted = [], hTaken = [], hLog = [],
      hOffers = [], hBorn = 0, hInit = []\<rparr>"

lemma open_host_made:
  "newTargetHost env 0 demo_target []
     \<lparr>optName = ''open'', optFilter = Some (hFilter open_host),
      optFormatter = Some (hFormatter open_host), optMaxQueueSize = 1, optMetrics = None\<rparr> =
   Ret (None, Inr open_host)"
  by (simp add: newTargetHost_def host_initMetrics_def open_host_def demo_target_def)

lemma open_host_never_panics: "never_panics open_host"
  by (simp add: never_panics_def writeRec_def open_host_def demo_target_def split: prod.split)

lemma flush_received:
  obtains s :: "bytes sys" where "reachable s" "mpc s = MGot (newFlushLogRec NewLogger 0)"
    "clients s 1 = CWait 0 False" "wlock s = None" "opts s = default_options" "hosts s = [open_host]"
    "returns s = [(0, None)]"
proof -
  define s1 where "s1 = set_client 0 (CAdd open_host) demo_sys"
  define s2 where "s2 = return_to 0 None (s1\<lparr>hosts := hosts s1 @ [open_host\<lparr>hBorn := length (fanned s1)\<rparr>]\<rparr>)"
  define s3 where "s3 = set_client 1 (CEnq (newFlushLogRec NewLogger (nextCh s2)) (NFlush (nextCh s2) False))
      (s2\<lparr>nextCh := nextCh s2 + 1\<rparr>)"
  define s4 where "s4 = after_enq 1 (NFlush 0 False) (q_send (newFlushLogRec NewLogger 0) s3)"
  define s5 where "s5 = s4\<lparr>qIn := [], taken := taken s4 @ [newFlushLogRec NewLogger 0],
      mpc := MGot (newFlushLogRec NewLogger 0)\<rparr>"
  note defs = s1_def s2_def s3_def s4_def s5_def demo_sys_def init_sys_def sys_upd_defs after_enq_def
    q_send_def q_can_send_def qCap_def default_options_def
  have "client_step 0 demo_sys s1"
    unfolding s1_def
    by (rule client_step.c_add [OF _ _ open_host_made]) (simp_all add: demo_sys_def init_sys_def)
  moreover have "client_step 0 s1 s2"
    unfolding s2_def by (rule client_step.c_add_end) (simp_all add: s1_def demo_sys_def init_sys_def sys_upd_defs can_lock_def)
  moreover have "client_step 1 s2 s3"
    unfolding s3_def
    by (rule client_step.c_flush) (simp_all add: s2_def s1_def demo_sys_def init_sys_def sys_upd_defs)
  moreover have "client_step 1 s3 s4"
    unfolding s4_def by (rule client_step.c_send) (simp_all add: defs)
  moreover have "main_step s4 s5"
    unfolding s5_def by (rule main_step.m_recv) (simp_all add: defs)
  ultimately have "reachable s5"
    by (meson reachable_demo reachable.step sys_step.client sys_step.main)
  then show thesis
    by (rule that) (simp_all add: defs open_host_def)
qed

section \<open>A flush record that a host does not take\<close>

lemma after_fan_no_ack [simp]: "after_fan c \<noteq> MAck ch i is a"
  by (cases c) auto

text \<open>The read loop waits for a host that has no flush record to serve.\<close>

definition stuck :: "nat \<Rightarrow> nat \<Rightarrow> nat list \<Rightarrow> nat \<Rightarrow> 't sys \<Rightarrow> bool" where
  "stuck ch i is a s \<longleftrightarrow>
     lock_inv s \<and> mpc s = MAck ch i is a \<and> i < length (hosts s) \<and> flushes (hosts s ! i) = []"

lemma flushes_shutdown:
  "host_begin_shutdown h = Some h' \<Longrightarrow> flushes h' = flushes h"
  "host_finish_shutdown h = (err, h') \<Longrightarrow> flushes h' = flushes h"
  by (auto simp: host_begin_shutdown_def host_finish_shutdown_def flushes_def
      split: if_splits prod.splits)

lemma stuck_client:
  assumes "client_step c s s'" "stuck ch i is a s"
  shows "stuck ch i is a s' \<and> taken s' = taken s \<and> fanned s' = fanned s"
proof -
  have "lock_inv s'"
    using assms by (auto simp: stuck_def intro: lock_inv_client)
  have "\<not> removing (clients s c)"
    using assms(2) by (auto simp: stuck_def lock_inv_def)
  with assms \<open>lock_inv s'\<close> show ?thesis
    by (induction rule: client_step.induct)
      (auto simp: stuck_def sys_upd_defs after_enq_def q_send_def q_can_send_def can_lock_def nth_upd
        flushes_shutdown nth_append split: enq_next.splits if_splits)
qed

lemma stuck_main: "main_step s s' \<Longrightarrow> \<not> stuck ch i is a s"
  by (induction rule: main_step.induct) (auto simp: stuck_def flushes_def)

lemma stuck_step:
  "sys_step s s' \<Longrightarrow> stuck ch i is a s \<Longrightarrow> stuck ch i is a s' \<and> taken s' = taken s \<and> fanned s' = fanned s"
proof (induction rule: sys_step.induct)
  case (main s s')
  then show ?case using stuck_main by blast
next
  case (client c s s')
  then show ?case by (rule stuck_client)
next
  case (host j s h errs)
  moreover have "lock_inv (report errs (set_host j h s))"
    using host by (auto simp: stuck_def lock_inv_def sys_upd_defs)
  ultimately show ?case
    using flushes_host_step [OF host(2)] by (auto simp: stuck_def sys_upd_defs nth_upd)
next
  case (gone_host j s h errs)
  then show ?case by (auto simp: stuck_def lock_inv_def sys_upd_defs)
qed

lemma stuck_steps:
  "sys_step\<^sup>*\<^sup>* s s' \<Longrightarrow> stuck ch i is a s \<Longrightarrow> stuck ch i is a s' \<and> taken s' = taken s \<and> fanned s' = fanned s"
  by (induction rule: rtranclp_induct) (auto dest: stuck_step)

text \<open>
  C12: A host that does not take the flush record stops the engine for good. When \<^verbatim>\<open>TargetHost.Log\<close> returns
  without having sent the flush record - its time was up, the handler for full queues dropped it, or
  the host is shut down - the read loop waits for a flush that nobody will serve: whatever happens
  later, it stays where it is, and no record is taken from the queue or fanned out.
\<close>

theorem flush_record_refused_wedges:
  assumes "reachable s" "main_step s s1" "mpc s1 = MAck ch i is a"
    and "hAccepted (hosts s1 ! i) = hAccepted (hosts s ! i)" "sys_step\<^sup>*\<^sup>* s1 s'"
  shows "mpc s' = MAck ch i is a \<and> taken s' = taken s \<and> fanned s' = fanned s"
proof -
  have pc: "pc_inv s" and "lock_inv s" and flush: "flush_inv s"
    using assms(1) by (simp_all add: pcs.holds lock.holds flushing.holds)
  then have "lock_inv s1"
    using assms(2) by (blast intro: lock_inv_main)
  with assms(2,3,4) pc flush have "stuck ch i is a s1 \<and> taken s1 = taken s \<and> fanned s1 = fanned s"
    by (cases rule: main_step.cases)
      (auto simp: stuck_def log_eqs drain_got_def after_enq_def pc_inv_def final_upt_Cons flush_inv_def
        flush_ok_def host_send_def metric_defs flushes_def nth_upd split: log_cont.splits if_splits)
  with stuck_steps [OF assms(5)] show ?thesis
    by (auto simp: stuck_def)
qed

fun blocked_on :: "main_pc \<Rightarrow> (nat \<times> nat list \<times> nat \<times> nat) option" where
  "blocked_on (MBlocked (LFlush ch is a) r i) = Some (ch, is, a, i)"
| "blocked_on _ = None"

lemma blocked_on_iff:
  "blocked_on pc = Some (ch, is, a, i) \<longleftrightarrow> (\<exists>r. pc = MBlocked (LFlush ch is a) r i)"
  by (cases pc rule: blocked_on.cases) auto

theorem flush_record_refused_wedges_witness:
  "\<exists>s :: bytes sys. reachable s \<and> mpc s = MAck 0 0 [] 1 \<and>
     (\<forall>s'. sys_step\<^sup>*\<^sup>* s s' \<longrightarrow> mpc s' = MAck 0 0 [] 1 \<and> fanned s' = fanned s)"
proof -
  have "ends ([AAdd 0 demo_target [] demo_host_options, AClient 0,
       ALog 0 (demo_rec ''one''), AClient 0, ALog 0 (demo_rec ''two''), AClient 0,
       AFlush 1 False, AClient 1] @ replicate 15 (AMain 1)) demo_sys
      (\<lambda>s. blocked_on (mpc s) = Some (0, [], 1, 0))"
    by code_simp
  then obtain s :: "bytes sys" and r where s: "reachable s" "mpc s = MBlocked (LFlush 0 [] 1) r 0"
    by (elim ends_demoE) (auto simp: blocked_on_iff)
  define s1 where "s1 = log_done (LFlush 0 [] 1) 0 OTimedOut (report [target_timeout_error s r] s)"
  have step: "main_step s s1"
    unfolding s1_def using s(2) by (rule main_step.m_blocked_timeout)
  have s1: "mpc s1 = MAck 0 0 [] 1" "hAccepted (hosts s1 ! 0) = hAccepted (hosts s ! 0)"
      "fanned s1 = fanned s"
    by (simp_all add: s1_def sys_upd_defs)
  have "mpc s' = MAck 0 0 [] 1 \<and> fanned s' = fanned s1" if "sys_step\<^sup>*\<^sup>* s1 s'" for s'
    using flush_record_refused_wedges [OF s(1) step s1(1,2) that] s1(3) by simp
  moreover have "reachable s1"
    by (rule reachable.step [OF s(1) sys_step.main [OF step]])
  ultimately show ?thesis
    using s1(1) by blast
qed

end
