(* ===== verification/Multicast.thy ===== *)
theory Multicast
  imports Delivery
begin

text \<open>
  An abstract specification of the engine and the proof that the engine refines it: a list of
  published records, and subscribers that see the records they want, each in the published order,
  may lose any of them on the way, and write those they do not lose, in order. Queues, locks,
  goroutines, flushes and shutdowns are gone.
\<close>

section \<open>The specification\<close>

text \<open>
  A subscriber: how many records were published before it came, which records it wants, the records
  it has seen with what became of each, and those it has written.
\<close>

record box =
  since :: nat
  wants :: "log_rec \<Rightarrow> bool"
  seen :: "(log_rec \<times> offer) list"
  outbox :: "log_rec list"

record topic =
  published :: "log_rec list"
  boxes :: "box list"
  closed :: "box list"

definition wanted :: "log_rec list \<Rightarrow> box \<Rightarrow> log_rec list" where
  "wanted rs b = filter (wants b) (drop (since b) rs)"

text \<open>
  A subscriber sees the next record that it wants, and writes the next of those it took. One that has
  left may still write. Several may leave at once.
\<close>

inductive topic_step :: "topic \<Rightarrow> topic \<Rightarrow> bool" where
  publishes: "topic_step t (t\<lparr>published := published t @ [r]\<rparr>)"
| sees: "i < length (boxes t) \<Longrightarrow> b = boxes t ! i \<Longrightarrow>
    prefix (map fst (seen b) @ [r]) (wanted (published t) b) \<Longrightarrow>
    topic_step t (t\<lparr>boxes := (boxes t)[i := b\<lparr>seen := seen b @ [(r, ofr)]\<rparr>]\<rparr>)"
| writes: "i < length (boxes t) \<Longrightarrow> b = boxes t ! i \<Longrightarrow> prefix (outbox b @ [r]) (taken_offers (seen b)) \<Longrightarrow>
    topic_step t (t\<lparr>boxes := (boxes t)[i := b\<lparr>outbox := outbox b @ [r]\<rparr>]\<rparr>)"
| writes_late: "i < length (closed t) \<Longrightarrow> b = closed t ! i \<Longrightarrow>
    prefix (outbox b @ [r]) (taken_offers (seen b)) \<Longrightarrow>
    topic_step t (t\<lparr>closed := (closed t)[i := b\<lparr>outbox := outbox b @ [r]\<rparr>]\<rparr>)"
| joins: "n \<le> length (published t) \<Longrightarrow>
    topic_step t (t\<lparr>boxes := boxes t @ [\<lparr>since = n, wants = w, seen = [], outbox = []\<rparr>]\<rparr>)"
| leaves: "sorted_wrt (<) kept \<Longrightarrow> list_all (\<lambda>i. i < length (boxes t)) kept \<Longrightarrow>
    topic_step t (t\<lparr>boxes := map ((!) (boxes t)) kept,
      closed := closed t @ map ((!) (boxes t)) (filter (\<lambda>i. i \<notin> set kept) [0..<length (boxes t)])\<rparr>)"

definition empty_topic :: topic where
  "empty_topic = \<lparr>published = [], boxes = [], closed = []\<rparr>"

text \<open>What the specification promises of each subscriber, proved from its steps alone.\<close>

definition box_ok :: "log_rec list \<Rightarrow> box \<Rightarrow> bool" where
  "box_ok rs b \<longleftrightarrow>
     since b \<le> length rs \<and> prefix (map fst (seen b)) (wanted rs b) \<and>
     prefix (outbox b) (taken_offers (seen b))"

definition topic_ok :: "topic \<Rightarrow> bool" where
  "topic_ok t \<longleftrightarrow> list_all (box_ok (published t)) (boxes t) \<and> list_all (box_ok (published t)) (closed t)"

lemma box_ok_publish: "box_ok rs b \<Longrightarrow> box_ok (rs @ [r]) b"
  by (auto simp: box_ok_def wanted_def prefix_def)

lemma box_ok_see: "box_ok rs b \<Longrightarrow> prefix (map fst (seen b) @ [r]) (wanted rs b) \<Longrightarrow>
    box_ok rs (b\<lparr>seen := seen b @ [(r, ofr)]\<rparr>)"
  by (auto simp: box_ok_def wanted_def prefix_def)

lemma box_ok_write: "box_ok rs b \<Longrightarrow> prefix (outbox b @ [r]) (taken_offers (seen b)) \<Longrightarrow>
    box_ok rs (b\<lparr>outbox := outbox b @ [r]\<rparr>)"
  by (simp add: box_ok_def wanted_def)

lemma topic_ok_step: "topic_step t t' \<Longrightarrow> topic_ok t \<Longrightarrow> topic_ok t'"
proof (induction rule: topic_step.induct)
  case (publishes t r)
  then show ?case
    by (auto simp: topic_ok_def list_all_iff box_ok_publish)
next
  case (leaves kept t)
  then show ?case
    by (auto simp: topic_ok_def list_all_iff)
qed (auto simp: topic_ok_def list_all_at box_ok_see box_ok_write intro!: list_all_upd,
    simp add: box_ok_def wanted_def)

lemma topic_ok_steps: "topic_step\<^sup>*\<^sup>* t t' \<Longrightarrow> topic_ok t \<Longrightarrow> topic_ok t'"
  by (induction rule: rtranclp_induct) (auto intro: topic_ok_step)

lemma box_written:
  assumes "box_ok rs b"
  shows "subseq (outbox b) (filter (wants b) rs)"
proof -
  have "subseq (outbox b) (map fst (seen b))"
    using assms taken_offers_subseq [of "seen b"] unfolding box_ok_def
    by (meson prefix_imp_subseq subseq_order.trans)
  also have "subseq (map fst (seen b)) (wanted rs b)"
    using assms by (simp add: box_ok_def prefix_imp_subseq)
  also have "subseq (wanted rs b) (filter (wants b) rs)"
    unfolding wanted_def by (metis append_take_drop_id filter_append subseq_drop_many subseq_order.refl)
  finally show ?thesis .
qed

section \<open>The abstraction of a state of the engine\<close>

definition box_of :: "'t host \<Rightarrow> box" where
  "box_of h = \<lparr>since = hBorn h, wants = host_enabled h, seen = hOffers h, outbox = map fst (hLog h)\<rparr>"

definition topic_of :: "'t sys \<Rightarrow> topic" where
  "topic_of s =
     \<lparr>published = map (prepped s) (log_recs (taken s)), boxes = map box_of (hosts s),
      closed = map box_of (gone s)\<rparr>"

lemma prepped_main: "main_step s s' \<Longrightarrow> prepped s' = prepped s"
  by (induction rule: main_step.induct)
    (auto simp: log_eqs drain_got_def after_enq_def split: log_cont.splits enq_next.splits)

lemma prepped_client: "client_step c s s' \<Longrightarrow> prepped s' = prepped s"
  by (induction rule: client_step.induct)
    (auto simp: sys_upd_defs after_enq_def q_send_def split: enq_next.splits)

lemma main_step_taken: "main_step s s' \<Longrightarrow> taken s' = taken s \<or> (\<exists>r. taken s' = taken s @ [r])"
  by (induction rule: main_step.induct)
    (auto simp: log_eqs drain_got_def after_enq_def split: log_cont.splits enq_next.splits)

lemma published_steps:
  assumes "ts' = ts \<or> (\<exists>r. ts' = ts @ [r])" "published t = map p (log_recs ts)"
  shows "topic_step\<^sup>*\<^sup>* t (t\<lparr>published := map p (log_recs ts')\<rparr>)"
proof -
  have step: "topic_step\<^sup>*\<^sup>* t (t\<lparr>published := published t @ [r]\<rparr>)" for r
    using publishes by (rule r_into_rtranclp)
  have id: "t\<lparr>published := map p (log_recs ts)\<rparr> = t"
    unfolding assms(2) [symmetric] by simp
  from assms(1) show ?thesis
  proof (elim disjE exE)
    fix r assume ts': "ts' = ts @ [r]"
    show ?thesis
    proof (cases "flush r")
      case None
      with ts' step [of "p r"] show ?thesis by (simp add: assms(2))
    next
      case (Some ch)
      with ts' show ?thesis by (simp add: id)
    qed
  qed (simp add: id)
qed

text \<open>Subscribers see any number of further records, as long as they are wanted ones, in order.\<close>

definition sees_more :: "log_rec list \<Rightarrow> box \<Rightarrow> box \<Rightarrow> bool" where
  "sees_more rs b b' \<longleftrightarrow>
     (\<exists>new. b' = b\<lparr>seen := seen b @ new\<rparr>) \<and> prefix (map fst (seen b')) (wanted rs b)"

lemma sees_one:
  "i < length (boxes t) \<Longrightarrow> sees_more (published t) (boxes t ! i) b' \<Longrightarrow>
   topic_step\<^sup>*\<^sup>* t (t\<lparr>boxes := (boxes t)[i := b']\<rparr>)"
proof -
  assume i: "i < length (boxes t)" and "sees_more (published t) (boxes t ! i) b'"
  then obtain new where b': "b' = (boxes t ! i)\<lparr>seen := seen (boxes t ! i) @ new\<rparr>"
      and pre: "prefix (map fst (seen (boxes t ! i) @ new)) (wanted (published t) (boxes t ! i))"
    by (auto simp: sees_more_def)
  from pre have "topic_step\<^sup>*\<^sup>* t (t\<lparr>boxes := (boxes t)[i := (boxes t ! i)\<lparr>seen := seen (boxes t ! i) @ new\<rparr>]\<rparr>)"
  proof (induction new rule: rev_induct)
    case Nil
    then show ?case by simp
  next
    case (snoc x new)
    obtain r ofr where x: "x = (r, ofr)" by (cases x)
    define b where "b = (boxes t ! i)\<lparr>seen := seen (boxes t ! i) @ new\<rparr>"
    define u where "u = t\<lparr>boxes := (boxes t)[i := b]\<rparr>"
    have "prefix (map fst (seen b) @ [r]) (wanted (published u) b)"
      using snoc.prems by (simp add: b_def u_def x wanted_def)
    then have "topic_step u (u\<lparr>boxes := (boxes u)[i := b\<lparr>seen := seen b @ [(r, ofr)]\<rparr>]\<rparr>)"
      using i by (intro sees) (simp_all add: u_def)
    moreover have "prefix (map fst (seen (boxes t ! i) @ new)) (wanted (published t) (boxes t ! i))"
      using snoc.prems by (auto simp: prefix_def)
    then have "topic_step\<^sup>*\<^sup>* t u"
      using snoc.IH by (simp add: u_def b_def)
    ultimately show ?case
      by (simp add: u_def b_def x)
  qed
  then show ?thesis by (simp add: b')
qed

lemma sees_all:
  assumes "length bs = length (boxes t)"
    and "\<And>i. i < length bs \<Longrightarrow> sees_more (published t) (boxes t ! i) (bs ! i)"
  shows "topic_step\<^sup>*\<^sup>* t (t\<lparr>boxes := bs\<rparr>)"
proof -
  have "topic_step\<^sup>*\<^sup>* t (t\<lparr>boxes := take n bs @ drop n (boxes t)\<rparr>)" if "n \<le> length bs" for n
    using that
  proof (induction n)
    case (Suc n)
    define u where "u = t\<lparr>boxes := take n bs @ drop n (boxes t)\<rparr>"
    have "sees_more (published u) (boxes u ! n) (bs ! n)" "n < length (boxes u)"
      using Suc.prems assms by (simp_all add: u_def nth_append min_def)
    then have "topic_step\<^sup>*\<^sup>* u (u\<lparr>boxes := (boxes u)[n := bs ! n]\<rparr>)"
      by (intro sees_one)
    moreover have "(boxes u)[n := bs ! n] = take (Suc n) bs @ drop (Suc n) (boxes t)"
      using Suc.prems assms(1)
      by (simp add: u_def list_update_append min_def take_Suc_conv_app_nth flip: Cons_nth_drop_Suc)
    ultimately show ?case
      using Suc by (auto simp: u_def intro: rtranclp_trans)
  qed simp
  from this [of "length bs"] show ?thesis
    using assms(1) by simp
qed

section \<open>The read loop\<close>

lemma main_step_offers:
  "main_step s s' \<Longrightarrow> pc_inv s \<Longrightarrow> j < length (hosts s) \<Longrightarrow>
   (\<exists>new. hOffers (hosts s' ! j) = hOffers (hosts s ! j) @ new) \<and>
   hBorn (hosts s' ! j) = hBorn (hosts s ! j) \<and> hFilter (hosts s' ! j) = hFilter (hosts s ! j) \<and>
   hLog (hosts s' ! j) = hLog (hosts s ! j)"
  by (induction rule: main_step.induct)
    (auto simp: log_eqs drain_got_def after_enq_def pc_inv_def nth_upd skip_hosts_nth final_upt_Cons
      add_offer_def host_send_def metric_defs split: log_cont.splits if_splits)

lemma acct_seen:
  assumes "flow_inv s" "acct h (fanned s) (visited (mpc s) i)"
  shows "prefix (map fst (hOffers h)) (wanted (map (prepped s) (log_recs (taken s))) (box_of h))"
proof -
  have flow: "map (prepped s) (log_recs (taken s)) = fanned s @ in_hand (prepped s) (mpc s)"
    using assms(1) by (simp add: flow_inv_def)
  moreover have "prefix (visited (mpc s) i) (in_hand (prepped s) (mpc s))"
    using visited_in_hand [of "mpc s" i "prepped s"] by auto
  ultimately show ?thesis
    using assms(2) by (auto simp: acct_def wanted_def box_of_def prefix_def)
qed

lemma refines_main:
  assumes "reachable s" "main_step s s'"
  shows "topic_step\<^sup>*\<^sup>* (topic_of s) (topic_of s')"
proof -
  have s': "reachable s'"
    using assms by (blast intro: reachable.step sys_step.main)
  have len: "length (hosts s') = length (hosts s)"
    using same_hostsD(1) [OF main_step_hosts [OF assms(2)]] .
  define t where "t = (topic_of s)\<lparr>published := map (prepped s) (log_recs (taken s'))\<rparr>"
  have "topic_step\<^sup>*\<^sup>* (topic_of s) t"
    unfolding t_def using main_step_taken [OF assms(2)]
    by (rule published_steps) (simp add: topic_of_def)
  moreover have "topic_step\<^sup>*\<^sup>* t (t\<lparr>boxes := map box_of (hosts s')\<rparr>)"
  proof (intro sees_all)
    show "length (map box_of (hosts s')) = length (boxes t)"
      by (simp add: t_def topic_of_def len)
    fix i assume "i < length (map box_of (hosts s'))"
    then have i: "i < length (hosts s')" "i < length (hosts s)"
      by (simp_all add: len)
    note offers = main_step_offers [OF assms(2) pcs.holds [OF assms(1)] i(2)]
    then have enabled: "host_enabled (hosts s' ! i) = host_enabled (hosts s ! i)"
      by (intro host_enabled_same) simp
    have "prefix (map fst (hOffers (hosts s' ! i)))
        (wanted (map (prepped s') (log_recs (taken s'))) (box_of (hosts s' ! i)))"
      using flow.holds [OF s'] accts.holds [OF s'] i(1) by (intro acct_seen) (auto simp: acct_inv_def)
    with offers enabled i prepped_main [OF assms(2)]
    show "sees_more (published t) (boxes t ! i) (map box_of (hosts s') ! i)"
      by (auto simp: sees_more_def t_def topic_of_def box_of_def wanted_def)
  qed
  moreover have "t\<lparr>boxes := map box_of (hosts s')\<rparr> = topic_of s'"
    using main_step_gone [OF assms(2)] prepped_main [OF assms(2)] by (simp add: t_def topic_of_def)
  ultimately show ?thesis by simp
qed

section \<open>The hosts\<close>

lemma box_of_step:
  assumes "host_step h h' errs" "host_ok h"
  shows "box_of h' = box_of h \<or>
    (\<exists>r. box_of h' = (box_of h)\<lparr>outbox := outbox (box_of h) @ [r]\<rparr> \<and>
      prefix (outbox (box_of h) @ [r]) (taken_offers (seen (box_of h))))"
proof -
  have frame: "hBorn h' = hBorn h" "host_enabled h' = host_enabled h" "hOffers h' = hOffers h"
    using host_step_frame [OF assms(1)] by (auto intro: host_enabled_same)
  have "hLog h' = hLog h \<or> (\<exists>p. hLog h' = hLog h @ [p])"
    using assms(1) by (induction rule: host_step.induct) (auto dest: host_write_fields(1))
  moreover have "prefix (map fst (hLog h')) (taken_offers (hOffers h'))"
    using host_ok_conserves [OF host_ok_steps(3) [OF assms(2,1)]] by (metis prefixI)
  ultimately show ?thesis
    using frame by (auto simp: box_of_def)
qed

lemma refines_host:
  assumes "reachable s" "i < length (hosts s)" "host_step (hosts s ! i) h errs"
  shows "topic_step\<^sup>*\<^sup>* (topic_of s) (topic_of (report errs (set_host i h s)))"
proof -
  have ok: "host_ok (hosts s ! i)"
    using assms(1,2) by (intro reachable_host_ok) auto
  have eq: "topic_of (report errs (set_host i h s)) =
      (topic_of s)\<lparr>boxes := (boxes (topic_of s))[i := box_of h]\<rparr>"
    by (simp add: topic_of_def sys_upd_defs map_update)
  from box_of_step [OF assms(3) ok] show ?thesis
  proof (elim disjE exE conjE)
    assume "box_of h = box_of (hosts s ! i)"
    then have "(boxes (topic_of s))[i := box_of h] = boxes (topic_of s)"
      using map_upd_same [of box_of h "hosts s" i] by (simp add: topic_of_def map_update)
    then show ?thesis
      unfolding eq by simp
  next
    fix r
    assume "box_of h = (box_of (hosts s ! i))\<lparr>outbox := outbox (box_of (hosts s ! i)) @ [r]\<rparr>"
      "prefix (outbox (box_of (hosts s ! i)) @ [r]) (taken_offers (seen (box_of (hosts s ! i))))"
    then show ?thesis
      unfolding eq using writes [of i "topic_of s" "box_of (hosts s ! i)" r] assms(2)
      by (simp add: topic_of_def r_into_rtranclp)
  qed
qed

lemma refines_gone:
  assumes "reachable s" "i < length (gone s)" "host_step (gone s ! i) h errs"
  shows "topic_step\<^sup>*\<^sup>* (topic_of s) (topic_of (report errs (s\<lparr>gone := (gone s)[i := h]\<rparr>)))"
proof -
  have ok: "host_ok (gone s ! i)"
    using assms(1,2) by (intro reachable_host_ok) auto
  have eq: "topic_of (report errs (s\<lparr>gone := (gone s)[i := h]\<rparr>)) =
      (topic_of s)\<lparr>closed := (closed (topic_of s))[i := box_of h]\<rparr>"
    by (simp add: topic_of_def sys_upd_defs map_update)
  from box_of_step [OF assms(3) ok] show ?thesis
  proof (elim disjE exE conjE)
    assume "box_of h = box_of (gone s ! i)"
    then have "(closed (topic_of s))[i := box_of h] = closed (topic_of s)"
      using map_upd_same [of box_of h "gone s" i] by (simp add: topic_of_def map_update)
    then show ?thesis
      unfolding eq by simp
  next
    fix r
    assume "box_of h = (box_of (gone s ! i))\<lparr>outbox := outbox (box_of (gone s ! i)) @ [r]\<rparr>"
      "prefix (outbox (box_of (gone s ! i)) @ [r]) (taken_offers (seen (box_of (gone s ! i))))"
    then show ?thesis
      unfolding eq using writes_late [of i "topic_of s" "box_of (gone s ! i)" r] assms(2)
      by (simp add: topic_of_def r_into_rtranclp)
  qed
qed

section \<open>The clients\<close>

lemma box_of_shutdown:
  "host_begin_shutdown h = Some h' \<Longrightarrow> box_of h' = box_of h"
  "host_finish_shutdown h = (err, h') \<Longrightarrow> box_of h' = box_of h"
  by (auto simp: host_begin_shutdown_def host_finish_shutdown_def box_of_def fun_eq_iff
      host_enabled_def host_IsLevelEnabled_def split: if_splits prod.splits)

lemma boxes_upd: "box_of h = box_of (hs ! i) \<Longrightarrow> map box_of (hs[i := h]) = map box_of hs"
  by (rule map_upd_same)

text \<open>A client adds a host, removes some, or leaves all of them as they are.\<close>

lemma client_step_boxes:
  "client_step c s s' \<Longrightarrow> \<forall>h. clients s c = CAdd h \<longrightarrow> fresh_host h \<Longrightarrow> rem_inv s \<Longrightarrow>
   (taken s' = taken s \<or> (\<exists>r. taken s' = taken s @ [r])) \<and>
     map box_of (hosts s') = map box_of (hosts s) \<and> gone s' = gone s \<or>
   taken s' = taken s \<and> gone s' = gone s \<and>
     (\<exists>h. hosts s' = hosts s @ [h\<lparr>hBorn := length (fanned s)\<rparr>] \<and> fresh_host h) \<or>
   taken s' = taken s \<and>
     (\<exists>kept. sorted_wrt (<) kept \<and> list_all (\<lambda>i. i < length (hosts s)) kept \<and>
       hosts s' = map ((!) (hosts s)) kept \<and>
       gone s' = gone s @ map ((!) (hosts s)) (filter (\<lambda>i. i \<notin> set kept) [0..<length (hosts s)]))"
proof (induction rule: client_step.induct)
  case (c_remove_end s c kept f errs)
  then have "sorted_wrt (<) kept" "list_all (\<lambda>i. i < length (hosts s)) kept"
    by (auto simp: rem_inv_def dest: spec [of _ c])
  then show ?case
    by (intro disjI2 conjI exI [of _ kept]) (simp_all add: return_to_def)
qed (auto simp: sys_upd_defs after_enq_def q_send_def boxes_upd box_of_shutdown split: enq_next.splits)

lemma refines_client:
  assumes "reachable s" "client_step c s s'"
  shows "topic_step\<^sup>*\<^sup>* (topic_of s) (topic_of s')"
proof -
  have same: "prepped s' = prepped s"
    using assms(2) by (rule prepped_client)
  have fresh: "\<forall>h. clients s c = CAdd h \<longrightarrow> fresh_host h"
    using hosts.holds [OF assms(1)] by (simp add: hosts_all_def)
  from client_step_boxes [OF assms(2) fresh rem.holds [OF assms(1)]] show ?thesis
  proof (elim disjE conjE exE)
    assume hs: "map box_of (hosts s') = map box_of (hosts s)" "gone s' = gone s"
    have "topic_step\<^sup>*\<^sup>* (topic_of s) (topic_of s')"
      if "taken s' = taken s \<or> (\<exists>r. taken s' = taken s @ [r])"
      using published_steps [OF that, of "topic_of s" "prepped s"] hs same by (simp add: topic_of_def)
    then show "taken s' = taken s \<Longrightarrow> ?thesis" "\<And>r. taken s' = taken s @ [r] \<Longrightarrow> ?thesis"
      by blast+
  next
    fix h
    assume ts: "taken s' = taken s" "gone s' = gone s"
      and h: "hosts s' = hosts s @ [h\<lparr>hBorn := length (fanned s)\<rparr>]" "fresh_host h"
    have "map (prepped s) (log_recs (taken s)) = fanned s @ in_hand (prepped s) (mpc s)"
      using flow.holds [OF assms(1)] by (simp add: flow_inv_def)
    then have "length (fanned s) \<le> length (published (topic_of s))"
      by (simp add: topic_of_def)
    then have "topic_step (topic_of s) ((topic_of s)\<lparr>boxes := boxes (topic_of s) @
        [\<lparr>since = length (fanned s), wants = host_enabled (h\<lparr>hBorn := length (fanned s)\<rparr>), seen = [], outbox = []\<rparr>]\<rparr>)"
      by (rule joins)
    moreover have "\<dots> = topic_of s'"
      using ts h same by (simp add: topic_of_def box_of_def fresh_host_def)
    ultimately show ?thesis by auto
  next
    fix kept
    assume ts: "taken s' = taken s"
      and kept: "sorted_wrt (<) kept" "list_all (\<lambda>i. i < length (hosts s)) kept"
        "hosts s' = map ((!) (hosts s)) kept"
        "gone s' = gone s @ map ((!) (hosts s)) (filter (\<lambda>i. i \<notin> set kept) [0..<length (hosts s)])"
    define n where "n = length (boxes (topic_of s))"
    have "topic_step (topic_of s) ((topic_of s)\<lparr>boxes := map ((!) (boxes (topic_of s))) kept,
        closed := closed (topic_of s) @ map ((!) (boxes (topic_of s))) (filter (\<lambda>i. i \<notin> set kept) [0..<n])\<rparr>)"
      unfolding n_def using kept(1,2) by (intro leaves) (simp_all add: topic_of_def)
    moreover have "\<dots> = topic_of s'"
      using ts kept same by (auto simp: topic_of_def n_def list_all_iff)
    ultimately show ?thesis by auto
  qed
qed

section \<open>Refinement\<close>

inductive topic_reachable :: "topic \<Rightarrow> bool" where
  start: "topic_reachable empty_topic"
| step: "topic_reachable t \<Longrightarrow> topic_step t t' \<Longrightarrow> topic_reachable t'"

lemma topic_reachable_steps: "topic_step\<^sup>*\<^sup>* t t' \<Longrightarrow> topic_reachable t \<Longrightarrow> topic_reachable t'"
  by (induction rule: rtranclp_induct) (auto intro: topic_reachable.step)

lemma topic_reachable_ok: "topic_reachable t \<Longrightarrow> topic_ok t"
  by (induction rule: topic_reachable.induct)
    (simp add: topic_ok_def empty_topic_def, rule topic_ok_step)

lemma refines_step:
  assumes "sys_step s s'" "reachable s"
  shows "topic_step\<^sup>*\<^sup>* (topic_of s) (topic_of s')"
  using assms
  by (cases rule: sys_step.cases) (auto intro: refines_main refines_client refines_host refines_gone)

lemma refines_reachable: "reachable s \<Longrightarrow> topic_reachable (topic_of s)"
proof (induction rule: reachable.induct)
  case (start opt env render res eon)
  then show ?case
    using topic_reachable.start by (simp add: topic_of_def init_sys_def empty_topic_def)
next
  case (step s s')
  then show ?case by (blast intro: refines_step topic_reachable_steps)
qed

text \<open>
  C2: The engine is a multicast of its queue. Every reachable state abstracts to a state that the
  specification can reach, and every step of every goroutine abstracts to steps of the specification:
  records are published in the order of the queue, each target sees those it wants in this order and
  exactly once, and writes what was not lost, in order.
\<close>

theorem engine_refines_multicast:
  assumes "reachable s"
  shows "topic_reachable (topic_of s) \<and> topic_ok (topic_of s) \<and>
    (\<forall>s'. sys_step s s' \<longrightarrow> topic_step\<^sup>*\<^sup>* (topic_of s) (topic_of s'))"
  using refines_reachable [OF assms] topic_reachable_ok refines_step assms by blast

theorem engine_refines_multicast_witness:
  "\<exists>s :: bytes sys. topic_reachable (topic_of s) \<and> map recMsg (published (topic_of s)) = [''one''] \<and>
     map (map recMsg \<circ> outbox) (boxes (topic_of s)) = [[''one'']]"
proof -
  have "ends flush_run demo_sys (\<lambda>s. map (recMsg \<circ> prepped s) (log_recs (taken s)) = [''one''] \<and>
      map (map (recMsg \<circ> fst) \<circ> hLog) (hosts s) = [[''one'']])"
    by code_simp
  then obtain s :: "bytes sys" where s: "reachable s"
      "map (recMsg \<circ> prepped s) (log_recs (taken s)) = [''one''] \<and>
       map (map (recMsg \<circ> fst) \<circ> hLog) (hosts s) = [[''one'']]"
    by (rule ends_demoE)
  have "topic_reachable (topic_of s)"
    using engine_refines_multicast [OF s(1)] by (rule conjunct1)
  moreover have "map recMsg (published (topic_of s)) = [''one'']"
      "map (map recMsg \<circ> outbox) (boxes (topic_of s)) = [[''one'']]"
    using s(2) by (simp_all add: topic_of_def box_of_def comp_def)
  ultimately show ?thesis by (intro exI [of _ s] conjI)
qed

end
