(* ===== verification/LevelCache.thy ===== *)
theory LevelCache
  imports Levels
begin

text \<open>
  The caches of \<^verbatim>\<open>IsLevelEnabled\<close> results (\<^verbatim>\<open>levelcache.go\<close>): \<^verbatim>\<open>arrayLevelCache\<close>, an array of
  \<^verbatim>\<open>MaxLevelID + 1\<close> entries, and \<^verbatim>\<open>syncMapLevelCache\<close>, a concurrent map. The interface
  \<^verbatim>\<open>levelCache\<close> is the locale \<open>level_cache\<close>. Its parameter \<open>covers\<close> says for which IDs an
  implementation keeps the contract: the array for every ID up to \<open>MaxLevelID\<close>, the map
  only below it, because the loop of its \<^verbatim>\<open>clear\<close> stops one short.
\<close>

section \<open>Entries\<close>

record level_status =
  Enabled :: bool
  NeedStack :: bool
  is_empty :: bool

text \<open>The zero value \<^verbatim>\<open>LevelStatus{}\<close>, and the mark of a free entry \<^verbatim>\<open>LevelStatus{empty: true}\<close>.\<close>

definition zero_status :: level_status where
  "zero_status = \<lparr>Enabled = False, NeedStack = False, is_empty = False\<rparr>"

definition empty_status :: level_status where
  "empty_status = zero_status\<lparr>is_empty := True\<rparr>"

lemma is_empty_simps [simp]: "\<not> is_empty zero_status" "is_empty empty_status"
  by (simp_all add: zero_status_def empty_status_def)

definition MaxLevelID :: uint where
  "MaxLevelID = 65535"

lemma unat_MaxLevelID [simp]: "unat MaxLevelID = 65535"
  by (simp add: MaxLevelID_def)

text \<open>The text of the error that both \<^verbatim>\<open>put\<close> methods return for an ID that is too big.\<close>

definition level_id_error :: go_error where
  "level_id_error = ErrorText ''level id cannot exceed MaxLevelID (65535)''"

section \<open>The cache in an array\<close>

record array_cache =
  arr :: "level_status list"

text \<open>The zero value \<^verbatim>\<open>arrayLevelCache{}\<close>: the length of the array is part of its type.\<close>

definition zero_array_cache :: array_cache where
  "zero_array_cache = \<lparr>arr = replicate (unat MaxLevelID + 1) zero_status\<rparr>"

definition array_cache_inv :: "array_cache \<Rightarrow> bool" where
  "array_cache_inv c \<longleftrightarrow> length (arr c) = unat MaxLevelID + 1"

definition array_get :: "array_cache \<Rightarrow> uint \<Rightarrow> (level_status \<times> bool) outcome" where
  "array_get c i =
     (if i > MaxLevelID then Ret (zero_status, False)
      else if unat i < length (arr c)
      then let status = arr c ! unat i; ok = \<not> is_empty status in Ret (status, ok)
      else Panics ''index out of range'')"

definition array_put ::
  "array_cache \<Rightarrow> uint \<Rightarrow> level_status \<Rightarrow> (array_cache \<times> go_error option) outcome" where
  "array_put c i status =
     (if i > MaxLevelID then Ret (c, Some level_id_error)
      else if unat i < length (arr c)
      then Ret (c\<lparr>arr := (arr c)[unat i := status]\<rparr>, None)
      else Panics ''index out of range'')"

text \<open>\<^verbatim>\<open>for i := range c.arr\<close> visits every index once, in order.\<close>

fun array_clear_loop :: "nat list \<Rightarrow> level_status list \<Rightarrow> level_status list" where
  "array_clear_loop [] a = a"
| "array_clear_loop (i # is) a = array_clear_loop is (a[i := empty_status])"

definition array_clear :: "array_cache \<Rightarrow> array_cache" where
  "array_clear c = c\<lparr>arr := array_clear_loop [0..<length (arr c)] (arr c)\<rparr>"

definition array_setup :: "array_cache \<Rightarrow> array_cache" where
  "array_setup c = array_clear c"

lemma array_clear_loop_length [simp]: "length (array_clear_loop is a) = length a"
  by (induction "is" arbitrary: a) auto

lemma array_clear_loop_nth:
  "k < length a \<Longrightarrow>
   array_clear_loop is a ! k = (if k \<in> set is then empty_status else a ! k)"
  by (induction "is" arbitrary: a) (auto simp: nth_list_update)

lemma array_clear_eq: "arr (array_clear c) = replicate (length (arr c)) empty_status"
  by (rule nth_equalityI) (simp_all add: array_clear_def array_clear_loop_nth)

lemma array_cache_inv_zero [simp]: "array_cache_inv zero_array_cache"
  by (simp add: array_cache_inv_def zero_array_cache_def)

lemma array_cache_inv_clear [simp]: "array_cache_inv c \<Longrightarrow> array_cache_inv (array_clear c)"
  by (simp add: array_cache_inv_def array_clear_eq)

lemma array_in_range:
  "array_cache_inv c \<Longrightarrow> i \<le> MaxLevelID \<Longrightarrow> unat i < length (arr c)"
  by (simp add: array_cache_inv_def word_le_nat_alt)

lemma array_get_covered [cache_simps]:
  "array_cache_inv c \<Longrightarrow> i \<le> MaxLevelID \<Longrightarrow>
   array_get c i = Ret (arr c ! unat i, \<not> is_empty (arr c ! unat i))"
  by (simp add: array_get_def array_in_range Let_def not_less [symmetric])

lemma array_put_covered [cache_simps]:
  "array_cache_inv c \<Longrightarrow> i \<le> MaxLevelID \<Longrightarrow>
   array_put c i s = Ret (c\<lparr>arr := (arr c)[unat i := s]\<rparr>, None)"
  by (simp add: array_put_def array_in_range not_less [symmetric])

lemma array_beyond [cache_simps]:
  "i > MaxLevelID \<Longrightarrow> array_get c i = Ret (zero_status, False)"
  "i > MaxLevelID \<Longrightarrow> array_put c i s = Ret (c, Some level_id_error)"
  by (simp_all add: array_get_def array_put_def)

section \<open>The cache in a sync.Map\<close>

text \<open>
  \<^verbatim>\<open>Load\<close> of a key that was never stored returns a nil interface, and the type assertion
  \<^verbatim>\<open>s.(LevelStatus)\<close> on it panics.
\<close>

record sync_cache =
  sm :: "uint \<rightharpoonup> level_status"

definition zero_sync_cache :: sync_cache where
  "zero_sync_cache = \<lparr>sm = Map.empty\<rparr>"

definition sync_get :: "sync_cache \<Rightarrow> uint \<Rightarrow> (level_status \<times> bool) outcome" where
  "sync_get c i =
     (if i > MaxLevelID then Ret (zero_status, False)
      else case sm c i of
             None \<Rightarrow> Panics ''interface conversion: interface {} is nil, not logr.LevelStatus''
           | Some status \<Rightarrow> Ret (status, \<not> is_empty status))"

definition sync_put ::
  "sync_cache \<Rightarrow> uint \<Rightarrow> level_status \<Rightarrow> (sync_cache \<times> go_error option) outcome" where
  "sync_put c i status =
     (if i > MaxLevelID then Ret (c, Some level_id_error)
      else Ret (c\<lparr>sm := (sm c)(i \<mapsto> status)\<rparr>, None))"

lemma unat_Suc_below_MaxLevelID:
  "i < MaxLevelID \<Longrightarrow> unat (i + 1) = Suc (unat i)"
  by (simp add: word_less_nat_alt unat_word_ariths)

text \<open>The loop \<^verbatim>\<open>for i = 0; i < MaxLevelID; i++\<close>, on a counter of the width of \<^verbatim>\<open>LevelID\<close>.\<close>

function sync_clear_loop :: "uint \<Rightarrow> (uint \<rightharpoonup> level_status) \<Rightarrow> (uint \<rightharpoonup> level_status)" where
  "sync_clear_loop i mp =
     (if i < MaxLevelID then sync_clear_loop (i + 1) (mp(i \<mapsto> empty_status)) else mp)"
  by pat_completeness auto

termination
  by (relation "measure (\<lambda>(i, mp). unat MaxLevelID - unat i)")
     (auto simp: unat_Suc_below_MaxLevelID word_less_nat_alt)

declare sync_clear_loop.simps [simp del]

definition sync_clear :: "sync_cache \<Rightarrow> sync_cache" where
  "sync_clear c = c\<lparr>sm := sync_clear_loop 0 (sm c)\<rparr>"

definition sync_setup :: "sync_cache \<Rightarrow> sync_cache" where
  "sync_setup c = sync_clear c"

lemma sync_clear_loop_eq:
  "sync_clear_loop i mp k = (if i \<le> k \<and> k < MaxLevelID then Some empty_status else mp k)"
proof (induction i mp rule: sync_clear_loop.induct)
  case (1 i mp)
  show ?case
  proof (cases "i < MaxLevelID")
    case True
    then have "i + 1 \<le> k \<longleftrightarrow> i < k"
      by (simp add: word_le_nat_alt word_less_nat_alt unat_Suc_below_MaxLevelID Suc_le_eq)
    with True show ?thesis
      by (subst sync_clear_loop.simps) (auto simp: 1 [OF True])
  next
    case False
    then show ?thesis by (subst sync_clear_loop.simps) auto
  qed
qed

lemma sync_clear_eq:
  "sm (sync_clear c) k = (if k < MaxLevelID then Some empty_status else sm c k)"
  by (simp add: sync_clear_def sync_clear_loop_eq)

text \<open>What \<^verbatim>\<open>setup\<close> establishes: an entry for every ID below \<open>MaxLevelID\<close>.\<close>

definition sync_cache_inv :: "sync_cache \<Rightarrow> bool" where
  "sync_cache_inv c \<longleftrightarrow> (\<forall>i < MaxLevelID. sm c i \<noteq> None)"

lemma sync_cache_inv_clear [simp]: "sync_cache_inv (sync_clear c)"
  by (simp add: sync_cache_inv_def sync_clear_eq)

lemma sync_put_covered [cache_simps]:
  "i \<le> MaxLevelID \<Longrightarrow> sync_put c i s = Ret (c\<lparr>sm := (sm c)(i \<mapsto> s)\<rparr>, None)"
  by (simp add: sync_put_def not_less [symmetric])

lemma sync_get_stored [cache_simps]:
  "i \<le> MaxLevelID \<Longrightarrow> sm c i = Some s \<Longrightarrow> sync_get c i = Ret (s, \<not> is_empty s)"
  by (simp add: sync_get_def not_less [symmetric])

lemma sync_beyond [cache_simps]:
  "i > MaxLevelID \<Longrightarrow> sync_get c i = Ret (zero_status, False)"
  "i > MaxLevelID \<Longrightarrow> sync_put c i s = Ret (c, Some level_id_error)"
  by (simp_all add: sync_get_def sync_put_def)

section \<open>The interface levelCache\<close>

text \<open>
  The engine's use of the cache, in \<^verbatim>\<open>IsLevelEnabled\<close>: look the ID up; on a miss compute the
  status and store it; if it cannot be stored, the level counts as disabled.
\<close>

definition memo_status ::
  "('c \<Rightarrow> uint \<Rightarrow> (level_status \<times> bool) outcome) \<Rightarrow>
   ('c \<Rightarrow> uint \<Rightarrow> level_status \<Rightarrow> ('c \<times> go_error option) outcome) \<Rightarrow>
   level_status \<Rightarrow> 'c \<Rightarrow> uint \<Rightarrow> (level_status \<times> 'c \<times> go_error option) outcome" where
  "memo_status get put computed c i =
     bind_outcome (get c i) (\<lambda>(status, ok).
       if ok then Ret (status, c, None)
       else bind_outcome (put c i computed) (\<lambda>(c', err).
         case err of
           Some e \<Rightarrow> Ret (zero_status, c', Some e)
         | None \<Rightarrow> Ret (computed, c', None)))"

text \<open>Every status a cache holds is the one \<open>answer\<close> gives for its ID.\<close>

definition cache_coherent ::
  "('c \<Rightarrow> uint \<Rightarrow> (level_status \<times> bool) outcome) \<Rightarrow> (uint \<Rightarrow> bool) \<Rightarrow>
   (uint \<Rightarrow> level_status) \<Rightarrow> 'c \<Rightarrow> bool" where
  "cache_coherent get covered answer c \<longleftrightarrow>
     (\<forall>i st. covered i \<longrightarrow> get c i = Ret (st, True) \<longrightarrow> st = answer i)"

locale level_cache =
  fixes get :: "'c \<Rightarrow> uint \<Rightarrow> (level_status \<times> bool) outcome"
    and put :: "'c \<Rightarrow> uint \<Rightarrow> level_status \<Rightarrow> ('c \<times> go_error option) outcome"
    and clear :: "'c \<Rightarrow> 'c"
    and covers :: "'c \<Rightarrow> uint \<Rightarrow> bool"
    and wf :: "'c \<Rightarrow> bool"
    and inv :: "'c \<Rightarrow> bool"
  assumes inv_wf: "inv c \<Longrightarrow> wf c"
    and inv_clear: "wf c \<Longrightarrow> inv (clear c)"
    and covers_bound: "covers c i \<Longrightarrow> i \<le> MaxLevelID"
    and covers_clear: "covers (clear c) = covers c"
    and get_clear: "wf c \<Longrightarrow> covers c i \<Longrightarrow> get (clear c) i = Ret (empty_status, False)"
    and get_returns: "inv c \<Longrightarrow> covers c i \<Longrightarrow> \<exists>st ok. get c i = Ret (st, ok)"
    and put_covered: "inv c \<Longrightarrow> covers c i \<Longrightarrow>
          \<exists>c'. put c i s = Ret (c', None) \<and> inv c' \<and> covers c' = covers c \<and>
               get c' i = Ret (s, \<not> is_empty s) \<and>
               (\<forall>j. covers c j \<longrightarrow> j \<noteq> i \<longrightarrow> get c' j = get c j)"
    and beyond: "i > MaxLevelID \<Longrightarrow>
          get c i = Ret (zero_status, False) \<and> put c i s = Ret (c, Some level_id_error)"
begin

lemma coherent_clear: "wf c \<Longrightarrow> cache_coherent get (covers (clear c)) answer (clear c)"
  by (simp add: cache_coherent_def covers_clear get_clear)

text \<open>
  On a coherent cache the answer is the computed one, whether it comes from the cache or
  not, and the cache stays coherent.
\<close>

lemma memo_status_coherent:
  assumes "inv c" and "covers c i" and coh: "cache_coherent get (covers c) answer c"
    and fresh: "\<not> is_empty (answer i)"
  shows "\<exists>c'. memo_status get put (answer i) c i = Ret (answer i, c', None) \<and> inv c' \<and>
              covers c' = covers c \<and> cache_coherent get (covers c') answer c'"
proof -
  obtain st ok where get: "get c i = Ret (st, ok)"
    using assms(1,2) get_returns by blast
  show ?thesis
  proof (cases ok)
    case True
    with get coh assms(2) have "st = answer i"
      by (simp add: cache_coherent_def)
    with True get assms(1) coh show ?thesis by (simp add: memo_status_def)
  next
    case False
    obtain c' where put: "put c i (answer i) = Ret (c', None)" "inv c'" "covers c' = covers c"
      and hit: "get c' i = Ret (answer i, \<not> is_empty (answer i))"
      and other: "\<forall>j. covers c j \<longrightarrow> j \<noteq> i \<longrightarrow> get c' j = get c j"
      using put_covered [OF assms(1,2), of "answer i"] by blast
    have "cache_coherent get (covers c') answer c'"
      unfolding cache_coherent_def
    proof (intro allI impI)
      fix j st'
      assume "covers c' j" and "get c' j = Ret (st', True)"
      with hit other coh put(3) show "st' = answer j"
        by (cases "j = i") (auto simp: cache_coherent_def)
    qed
    with False get put show ?thesis by (simp add: memo_status_def)
  qed
qed

text \<open>The first answer for an ID is the answer from then on, whatever is computed later.\<close>

lemma memo_status_again:
  assumes "inv c" and "covers c i" and coh: "cache_coherent get (covers c) answer c"
    and fresh: "\<not> is_empty (answer i)"
    and first: "memo_status get put (answer i) c i = Ret (st, c', e)"
  shows "st = answer i \<and> e = None \<and> memo_status get put computed c' i = Ret (st, c', None)"
proof -
  obtain st0 ok where get: "get c i = Ret (st0, ok)"
    using assms(1,2) get_returns by blast
  show ?thesis
  proof (cases ok)
    case True
    with get coh assms(2) have "st0 = answer i" by (simp add: cache_coherent_def)
    with True get first show ?thesis by (auto simp: memo_status_def)
  next
    case False
    obtain c1 where "put c i (answer i) = Ret (c1, None)" "get c1 i = Ret (answer i, \<not> is_empty (answer i))"
      using put_covered [OF assms(1,2), of "answer i"] by blast
    with False get first fresh show ?thesis by (auto simp: memo_status_def)
  qed
qed

lemma memo_status_beyond:
  "i > MaxLevelID \<Longrightarrow>
   memo_status get put computed c i = Ret (zero_status, c, Some level_id_error)"
  using beyond [of i c computed] by (simp add: memo_status_def)

end

interpretation arrc: level_cache array_get array_put array_clear "\<lambda>_ i. i \<le> MaxLevelID"
  array_cache_inv array_cache_inv
proof
  fix c i s
  assume c: "array_cache_inv c" and i: "i \<le> MaxLevelID"
  let ?c' = "c\<lparr>arr := (arr c)[unat i := s]\<rparr>"
  have inv: "array_cache_inv ?c'" using c by (simp add: array_cache_inv_def)
  have "array_get ?c' j = array_get c j" if "j \<le> MaxLevelID" "j \<noteq> i" for j
    using that c inv by (simp add: array_get_covered word_unat_eq_iff)
  moreover have "array_get ?c' i = Ret (s, \<not> is_empty s)"
    using c i inv by (simp add: array_get_covered array_in_range)
  ultimately show "\<exists>c'. array_put c i s = Ret (c', None) \<and> array_cache_inv c' \<and>
      (\<lambda>i. i \<le> MaxLevelID) = (\<lambda>i. i \<le> MaxLevelID) \<and> array_get c' i = Ret (s, \<not> is_empty s) \<and>
      (\<forall>j. j \<le> MaxLevelID \<longrightarrow> j \<noteq> i \<longrightarrow> array_get c' j = array_get c j)"
    using c i inv by (simp add: array_put_covered)
qed (auto simp: cache_simps array_clear_eq array_in_range)

interpretation syncc: level_cache sync_get sync_put sync_clear "\<lambda>_ i. i < MaxLevelID"
  "\<lambda>_. True" sync_cache_inv
proof
  fix c i s
  assume "sync_cache_inv c" and "i < MaxLevelID"
  then show "\<exists>c'. sync_put c i s = Ret (c', None) \<and> sync_cache_inv c' \<and>
      (\<lambda>i. i < MaxLevelID) = (\<lambda>i. i < MaxLevelID) \<and> sync_get c' i = Ret (s, \<not> is_empty s) \<and>
      (\<forall>j. j < MaxLevelID \<longrightarrow> j \<noteq> i \<longrightarrow> sync_get c' j = sync_get c j)"
    by (auto simp: sync_put_covered sync_cache_inv_def sync_get_def dest: order.asym)
next
  fix c i
  assume "sync_cache_inv c" and "i < MaxLevelID"
  then show "\<exists>st ok. sync_get c i = Ret (st, ok)"
    by (auto simp: sync_cache_inv_def sync_get_def)
qed (auto simp: cache_simps sync_clear_eq sync_get_def)

section \<open>The cache an engine holds\<close>

text \<open>A value of the interface type, with the dispatch of its methods.\<close>

datatype cache_obj = ArrayCache array_cache | SyncMapCache sync_cache

fun lc_get :: "cache_obj \<Rightarrow> uint \<Rightarrow> (level_status \<times> bool) outcome" where
  "lc_get (ArrayCache c) i = array_get c i"
| "lc_get (SyncMapCache c) i = sync_get c i"

fun lc_put ::
  "cache_obj \<Rightarrow> uint \<Rightarrow> level_status \<Rightarrow> (cache_obj \<times> go_error option) outcome" where
  "lc_put (ArrayCache c) i s =
     bind_outcome (array_put c i s) (\<lambda>(c', e). Ret (ArrayCache c', e))"
| "lc_put (SyncMapCache c) i s =
     bind_outcome (sync_put c i s) (\<lambda>(c', e). Ret (SyncMapCache c', e))"

fun lc_clear :: "cache_obj \<Rightarrow> cache_obj" where
  "lc_clear (ArrayCache c) = ArrayCache (array_clear c)"
| "lc_clear (SyncMapCache c) = SyncMapCache (sync_clear c)"

fun lc_setup :: "cache_obj \<Rightarrow> cache_obj" where
  "lc_setup (ArrayCache c) = ArrayCache (array_setup c)"
| "lc_setup (SyncMapCache c) = SyncMapCache (sync_setup c)"

fun lc_covers :: "cache_obj \<Rightarrow> uint \<Rightarrow> bool" where
  "lc_covers (ArrayCache c) i \<longleftrightarrow> i \<le> MaxLevelID"
| "lc_covers (SyncMapCache c) i \<longleftrightarrow> i < MaxLevelID"

fun lc_wf :: "cache_obj \<Rightarrow> bool" where
  "lc_wf (ArrayCache c) = array_cache_inv c"
| "lc_wf (SyncMapCache c) = True"

fun lc_inv :: "cache_obj \<Rightarrow> bool" where
  "lc_inv (ArrayCache c) = array_cache_inv c"
| "lc_inv (SyncMapCache c) = sync_cache_inv c"

lemma lc_setup_eq_clear: "lc_setup c = lc_clear c"
  by (cases c) (simp_all add: array_setup_def sync_setup_def)

lemma lc_put_covered:
  assumes "lc_inv c" and "lc_covers c i"
  shows "\<exists>c'. lc_put c i s = Ret (c', None) \<and> lc_inv c' \<and> lc_covers c' = lc_covers c \<and>
              lc_get c' i = Ret (s, \<not> is_empty s) \<and>
              (\<forall>j. lc_covers c j \<longrightarrow> j \<noteq> i \<longrightarrow> lc_get c' j = lc_get c j)"
proof (cases c)
  case (ArrayCache a)
  with assms obtain a' where "array_put a i s = Ret (a', None)" "array_cache_inv a'"
    "array_get a' i = Ret (s, \<not> is_empty s)"
    "\<forall>j. j \<le> MaxLevelID \<longrightarrow> j \<noteq> i \<longrightarrow> array_get a' j = array_get a j"
    using arrc.put_covered [of a i s] by auto
  with ArrayCache show ?thesis by (intro exI [of _ "ArrayCache a'"]) (simp add: fun_eq_iff)
next
  case (SyncMapCache a)
  with assms obtain a' where "sync_put a i s = Ret (a', None)" "sync_cache_inv a'"
    "sync_get a' i = Ret (s, \<not> is_empty s)"
    "\<forall>j. j < MaxLevelID \<longrightarrow> j \<noteq> i \<longrightarrow> sync_get a' j = sync_get a j"
    using syncc.put_covered [of a i s] by auto
  with SyncMapCache show ?thesis by (intro exI [of _ "SyncMapCache a'"]) (simp add: fun_eq_iff)
qed

lemma lc_get_returns: "lc_inv c \<Longrightarrow> lc_covers c i \<Longrightarrow> \<exists>st ok. lc_get c i = Ret (st, ok)"
  by (cases c) (auto dest: arrc.get_returns syncc.get_returns)

lemma lc_get_clear: "lc_wf c \<Longrightarrow> lc_covers c i \<Longrightarrow> lc_get (lc_clear c) i = Ret (empty_status, False)"
  by (cases c) (simp_all add: arrc.get_clear syncc.get_clear)

lemma lc_covers_clear: "lc_covers (lc_clear c) = lc_covers c"
  by (cases c) (simp_all add: fun_eq_iff)

lemma lc_covers_bound: "lc_covers c i \<Longrightarrow> i \<le> MaxLevelID"
  by (cases c) simp_all

lemma lc_beyond:
  "i > MaxLevelID \<Longrightarrow>
   lc_get c i = Ret (zero_status, False) \<and> lc_put c i s = Ret (c, Some level_id_error)"
  by (cases c) (simp_all add: cache_simps)

lemma lc_inv_wf: "lc_inv c \<Longrightarrow> lc_wf c"
  by (cases c) simp_all

lemma lc_inv_clear: "lc_wf c \<Longrightarrow> lc_inv (lc_clear c)"
  by (cases c) simp_all

interpretation lc: level_cache lc_get lc_put lc_clear lc_covers lc_wf lc_inv
  by unfold_locales
    (blast intro: lc_inv_wf lc_inv_clear lc_covers_bound lc_covers_clear lc_get_clear
       lc_get_returns lc_put_covered lc_beyond [THEN conjunct1] lc_beyond [THEN conjunct2])+

section \<open>The largest ID\<close>

text \<open>
  A \<^verbatim>\<open>syncMapLevelCache\<close> that was set up panics when it is asked about the ID \<^verbatim>\<open>MaxLevelID\<close>, which
  the array cache handles: \<^verbatim>\<open>clear\<close> stops one ID short. All IDs below are free entries.
\<close>

theorem sync_cache_panics_at_max:
  "lc_get (lc_setup (SyncMapCache zero_sync_cache)) i =
     (if i < MaxLevelID then Ret (empty_status, False)
      else if i = MaxLevelID
      then Panics ''interface conversion: interface {} is nil, not logr.LevelStatus''
      else Ret (zero_status, False)) \<and>
   lc_get (lc_setup (ArrayCache zero_array_cache)) MaxLevelID = Ret (empty_status, False)"
  by (auto simp: sync_setup_def array_setup_def sync_get_def sync_clear_eq zero_sync_cache_def
      arrc.get_clear not_less order.antisym)

section \<open>Either cache will do\<close>

text \<open>Calls of the methods of a cache, one after the other, and what they return.\<close>

datatype cache_call = GetCall uint | PutCall uint level_status | ClearCall

datatype cache_answer = Got level_status bool | Stored "go_error option" | Cleared

fun call_ID :: "cache_call \<Rightarrow> uint option" where
  "call_ID (GetCall i) = Some i"
| "call_ID (PutCall i st) = Some i"
| "call_ID ClearCall = None"

fun cache_do :: "cache_obj \<Rightarrow> cache_call \<Rightarrow> (cache_obj \<times> cache_answer) outcome" where
  "cache_do c (GetCall i) = bind_outcome (lc_get c i) (\<lambda>(st, ok). Ret (c, Got st ok))"
| "cache_do c (PutCall i st) = bind_outcome (lc_put c i st) (\<lambda>(c', e). Ret (c', Stored e))"
| "cache_do c ClearCall = Ret (lc_clear c, Cleared)"

fun cache_run :: "cache_obj \<Rightarrow> cache_call list \<Rightarrow> cache_answer list outcome" where
  "cache_run c [] = Ret []"
| "cache_run c (q # qs) =
     bind_outcome (cache_do c q) (\<lambda>(c', a). bind_outcome (cache_run c' qs) (\<lambda>as. Ret (a # as)))"

text \<open>The two hold the same below the largest ID.\<close>

definition same_entries :: "array_cache \<Rightarrow> sync_cache \<Rightarrow> bool" where
  "same_entries a m \<longleftrightarrow> array_cache_inv a \<and> (\<forall>i < MaxLevelID. sm m i = Some (arr a ! unat i))"

lemma same_entries_clear: "array_cache_inv a \<Longrightarrow> same_entries (array_clear a) (sync_clear m)"
  by (simp add: same_entries_def sync_clear_eq array_clear_eq array_in_range)

lemma same_entries_put:
  assumes "same_entries a m" "i < MaxLevelID"
  shows "same_entries (a\<lparr>arr := (arr a)[unat i := st]\<rparr>) (m\<lparr>sm := (sm m)(i \<mapsto> st)\<rparr>)"
  using assms
  by (auto simp: same_entries_def array_cache_inv_def nth_list_update word_unat_eq_iff word_less_nat_alt)

lemma same_entries_do:
  assumes "same_entries a m" "call_ID q \<noteq> Some MaxLevelID"
  shows "\<exists>a' m' ans. cache_do (ArrayCache a) q = Ret (ArrayCache a', ans) \<and>
    cache_do (SyncMapCache m) q = Ret (SyncMapCache m', ans) \<and> same_entries a' m'"
proof -
  have inv: "array_cache_inv a" and entry: "\<And>i. i < MaxLevelID \<Longrightarrow> sm m i = Some (arr a ! unat i)"
    using assms(1) by (auto simp: same_entries_def)
  show ?thesis
  proof (cases q)
    case (GetCall i)
    with assms inv entry [of i] show ?thesis
      by (cases i MaxLevelID rule: linorder_cases) (simp_all add: cache_simps)
  next
    case (PutCall i st)
    with assms inv same_entries_put [OF assms(1), of i st] show ?thesis
      by (cases i MaxLevelID rule: linorder_cases) (simp_all add: cache_simps)
  next
    case ClearCall
    with inv same_entries_clear [of a m] show ?thesis by simp
  qed
qed

lemma same_entries_run:
  "same_entries a m \<Longrightarrow> \<forall>q\<in>set qs. call_ID q \<noteq> Some MaxLevelID \<Longrightarrow>
   \<exists>as. cache_run (ArrayCache a) qs = Ret as \<and> cache_run (SyncMapCache m) qs = Ret as"
proof (induction qs arbitrary: a m)
  case (Cons q qs)
  obtain a' m' ans where q: "cache_do (ArrayCache a) q = Ret (ArrayCache a', ans)"
      "cache_do (SyncMapCache m) q = Ret (SyncMapCache m', ans)" "same_entries a' m'"
    using same_entries_do [OF Cons.prems(1)] Cons.prems(2) by force
  with Cons.IH [OF q(3)] Cons.prems(2) show ?case by auto
qed simp

text \<open>
  C21: The two caches are interchangeable, but for the largest ID: after \<^verbatim>\<open>setup\<close>, whatever calls of
  \<^verbatim>\<open>get\<close>, \<^verbatim>\<open>put\<close> and \<^verbatim>\<open>clear\<close> are made, also with IDs that are too big, both return the same, and
  neither panics, as long as no call is about \<^verbatim>\<open>MaxLevelID\<close> itself.
\<close>

theorem caches_equivalent:
  assumes "\<forall>q\<in>set qs. call_ID q \<noteq> Some MaxLevelID"
  shows "\<exists>as. cache_run (lc_setup (ArrayCache zero_array_cache)) qs = Ret as \<and>
    cache_run (lc_setup (SyncMapCache zero_sync_cache)) qs = Ret as \<and> length as = length qs"
proof -
  have "length as = length qs" if "cache_run c qs = Ret as" for c as
    using that by (induction c qs arbitrary: as rule: cache_run.induct) (auto simp: bind_outcome_Ret_iff)
  moreover have "same_entries (array_setup zero_array_cache) (sync_setup zero_sync_cache)"
    by (simp add: array_setup_def sync_setup_def same_entries_clear)
  ultimately show ?thesis
    using same_entries_run [OF _ assms] by fastforce
qed

theorem caches_equivalent_witness:
  "\<exists>as. cache_run (lc_setup (ArrayCache zero_array_cache)) [PutCall 4 zero_status, GetCall 4, ClearCall, GetCall 70000] = Ret as \<and>
     cache_run (lc_setup (SyncMapCache zero_sync_cache)) [PutCall 4 zero_status, GetCall 4, ClearCall, GetCall 70000] = Ret as \<and>
     length as = 4"
proof -
  have "\<forall>q\<in>set [PutCall 4 zero_status, GetCall 4, ClearCall, GetCall 70000]. call_ID q \<noteq> Some MaxLevelID"
    by (simp add: MaxLevelID_def)
  from caches_equivalent [OF this] show ?thesis
    by (simp add: eval_nat_numeral del: cache_run.simps lc_setup.simps)
qed

end
