(* ===== verification/Engine.thy ===== *)
theory Engine
  imports LevelCache Host
begin

text \<open>
  The calls on the engine that do not go through its queue (\<^verbatim>\<open>logr.go\<close>, \<^verbatim>\<open>logger.go\<close>): \<^verbatim>\<open>New\<close>,
  \<^verbatim>\<open>IsLevelEnabled\<close> with the level cache, the list of targets, error reports, the pool of
  buffers, and what \<^verbatim>\<open>Log\<close> and \<^verbatim>\<open>LogM\<close> hand to the queue; and \<^verbatim>\<open>IsTimeoutError\<close> (\<^verbatim>\<open>timeout.go\<close>).
\<close>

section \<open>The engine as its callers see it\<close>

text \<open>
  The fields of \<^verbatim>\<open>Logr\<close> that these calls read and write. \<open>eErrors\<close> lists the errors reported to
  the application; the error counter of the metrics counts them.
\<close>

record 't engine =
  eOpts :: options
  eCache :: cache_obj
  eHosts :: "'t host list"
  eShutdown :: bool
  eErrors :: "go_error list"

text \<open>
  \<^verbatim>\<open>New\<close>: the options in order, the first error ends it; then the stack filter for the packages of
  the program itself, \<open>pkgName\<close> being what \<^verbatim>\<open>GetLogrPackageName\<close> found; then the cache.
\<close>

definition engine_New :: "string \<Rightarrow> option_fun list \<Rightarrow> go_error + 't engine" where
  "engine_New pkgName fs =
     (case apply_options fs default_options of
        Inl e \<Rightarrow> Inl e
      | Inr opt \<Rightarrow>
          (let opt = (if pkgName \<noteq> []
                      then (case StackFilter [pkgName, pkgName @ ''/targets'', pkgName @ ''/formatters''] opt of
                              Inl e \<Rightarrow> opt | Inr opt' \<Rightarrow> opt')
                      else opt);
               cache = (if useSyncMapLevelCache opt then SyncMapCache zero_sync_cache
                        else ArrayCache zero_array_cache)
           in Inr \<lparr>eOpts = opt, eCache = lc_setup cache, eHosts = [], eShutdown = False, eErrors = []\<rparr>))"

text \<open>\<^verbatim>\<open>ReportError\<close>.\<close>

definition ReportError :: "go_error \<Rightarrow> 't engine \<Rightarrow> 't engine" where
  "ReportError e lgr = lgr\<lparr>eErrors := eErrors lgr @ [e]\<rparr>"

text \<open>
  The loop of \<^verbatim>\<open>IsLevelEnabled\<close> over the targets: it stops at the first one that both enables the
  level and needs a stack trace.
\<close>

fun scan_hosts :: "'t host list \<Rightarrow> level \<Rightarrow> level_status \<Rightarrow> level_status" where
  "scan_hosts [] lvl status = status"
| "scan_hosts (h # hs) lvl status =
     (let (enabled, level) = host_IsLevelEnabled h lvl
      in if enabled
         then let status = status\<lparr>Enabled := True\<rparr>
              in if Stacktrace level \<or> IsStacktraceNeeded (hFormatter h)
                 then status\<lparr>NeedStack := True\<rparr>
                 else scan_hosts hs lvl status
         else scan_hosts hs lvl status)"

definition engine_IsLevelEnabled ::
  "'t engine \<Rightarrow> level \<Rightarrow> (level_status \<times> 't engine) outcome" where
  "engine_IsLevelEnabled lgr lvl =
     (if eShutdown lgr then Ret (zero_status, lgr)
      else bind_outcome
             (memo_status lc_get lc_put (scan_hosts (eHosts lgr) lvl zero_status) (eCache lgr) (ID lvl))
             (\<lambda>(status, cache, err).
                let lgr' = lgr\<lparr>eCache := cache\<rparr>
                in Ret (status, case err of None \<Rightarrow> lgr' | Some e \<Rightarrow> ReportError e lgr')))"

definition HasTargets :: "'t engine \<Rightarrow> bool" where
  "HasTargets lgr \<longleftrightarrow> length (eHosts lgr) > 0"

text \<open>A \<^verbatim>\<open>TargetInfo\<close> is the pair of name and type.\<close>

definition TargetInfos :: "'t engine \<Rightarrow> (string \<times> string) list" where
  "TargetInfos lgr = map (\<lambda>h. (hName h, tType (hTarget h))) (eHosts lgr)"

definition ResetLevelCache :: "'t engine \<Rightarrow> 't engine" where
  "ResetLevelCache lgr = lgr\<lparr>eCache := lc_clear (eCache lgr)\<rparr>"

text \<open>\<^verbatim>\<open>AddTarget\<close> for a host that \<^verbatim>\<open>newTargetHost\<close> made, or with the error it returned.\<close>

definition AddTarget :: "'t engine \<Rightarrow> go_error + 't host \<Rightarrow> go_error option \<times> 't engine" where
  "AddTarget lgr made =
     (if eShutdown lgr then (Some (ErrorText ''AddTarget called after Logr shut down''), lgr)
      else case made of
             Inl e \<Rightarrow> (Some e, lgr)
           | Inr h \<Rightarrow> (None, ResetLevelCache (lgr\<lparr>eHosts := eHosts lgr @ [h]\<rparr>)))"

text \<open>What \<^verbatim>\<open>RemoveTargets\<close> does to the list and the cache; the shutdowns are steps of the system.\<close>

fun remove_loop :: "(string \<times> string \<Rightarrow> bool) \<Rightarrow> 't host list \<Rightarrow> 't host list \<Rightarrow> 't host list" where
  "remove_loop f [] kept = kept"
| "remove_loop f (h # hs) kept =
     (if f (hName h, tType (hTarget h)) then remove_loop f hs kept else remove_loop f hs (kept @ [h]))"

definition RemoveTargets :: "(string \<times> string \<Rightarrow> bool) \<Rightarrow> 't engine \<Rightarrow> 't engine" where
  "RemoveTargets f lgr = ResetLevelCache (lgr\<lparr>eHosts := remove_loop f (eHosts lgr) []\<rparr>)"

section \<open>Log and LogM\<close>

text \<open>
  The loop of \<^verbatim>\<open>enqueue\<close> that limits the fields of a record. It writes to the slice the record
  shares with its caller, so the result is also what the caller's slice holds afterwards.
\<close>

definition limit_field :: "fmt_env \<Rightarrow> int \<Rightarrow> field \<Rightarrow> field" where
  "limit_field env limit f =
     (case FType f of
        StringType \<Rightarrow> f\<lparr>FString := LimitString (FString f) limit\<rparr>
      | StringerType \<Rightarrow>
          (case as_Stringer env (Interface f) of
             Some s \<Rightarrow> f\<lparr>Interface := LimitedStringer (Interface f) limit\<rparr>
           | None \<Rightarrow> f)
      | _ \<Rightarrow> f)"

definition limit_rec :: "fmt_env \<Rightarrow> options \<Rightarrow> log_rec \<Rightarrow> log_rec" where
  "limit_rec env opt r =
     (let limit = maxFieldLen opt
      in if limit > 0
         then r\<lparr>recMsg := LimitString (recMsg r) limit,
                recFields := map (limit_field env limit) (recFields r)\<rparr>
         else r)"

text \<open>
  \<^verbatim>\<open>Log\<close>: the record it enqueues, if any, the slice of fields afterwards, and the engine. The time
  and the stack are what the runtime gives for this call.
\<close>

definition Logger_Log ::
  "fmt_env \<Rightarrow> gotime \<times> nat list \<Rightarrow> 't engine \<Rightarrow> logger \<Rightarrow> level \<Rightarrow> string \<Rightarrow> field list \<Rightarrow>
   (log_rec option \<times> field list \<times> 't engine) outcome" where
  "Logger_Log env rt lgr logger lvl msg flds =
     bind_outcome (engine_IsLevelEnabled lgr lvl) (\<lambda>(status, lgr').
       if Enabled status
       then let r = limit_rec env (eOpts lgr')
                      (NewLogRec (fst rt) (snd rt) lvl logger msg flds (NeedStack status))
            in Ret (Some r, recFields r, lgr')
       else Ret (None, flds, lgr'))"

text \<open>\<^verbatim>\<open>LogM\<close>: every call gets the same slice, which the calls before it may have changed.\<close>

fun Logger_LogM ::
  "fmt_env \<Rightarrow> gotime \<times> nat list \<Rightarrow> 't engine \<Rightarrow> logger \<Rightarrow> level list \<Rightarrow> string \<Rightarrow> field list \<Rightarrow>
   (log_rec list \<times> field list \<times> 't engine) outcome" where
  "Logger_LogM env rt lgr logger [] msg flds = Ret ([], flds, lgr)"
| "Logger_LogM env rt lgr logger (lvl # lvls) msg flds =
     bind_outcome (Logger_Log env rt lgr logger lvl msg flds) (\<lambda>(ro, flds', lgr').
       bind_outcome (Logger_LogM env rt lgr' logger lvls msg flds') (\<lambda>(rs, flds'', lgr'').
         Ret ((case ro of None \<Rightarrow> rs | Some r \<Rightarrow> r # rs), flds'', lgr'')))"

definition Logger_IsLevelEnabled :: "'t engine \<Rightarrow> level \<Rightarrow> (bool \<times> 't engine) outcome" where
  "Logger_IsLevelEnabled lgr lvl =
     bind_outcome (engine_IsLevelEnabled lgr lvl) (\<lambda>(status, lgr'). Ret (Enabled status, lgr'))"

section \<open>Buffers\<close>

text \<open>
  A buffer by its content and capacity. The pool hands out some buffer that was put back, or a
  new one; which one is the pool's choice, here \<open>pick\<close>.
\<close>

record pool_buffer =
  bContent :: bytes
  bCap :: int

definition new_buffer :: pool_buffer where
  "new_buffer = \<lparr>bContent = [], bCap = 0\<rparr>"

definition BorrowBuffer ::
  "options \<Rightarrow> nat \<Rightarrow> pool_buffer list \<Rightarrow> pool_buffer \<times> pool_buffer list" where
  "BorrowBuffer opt pick pool =
     (if disableBufferPool opt then (new_buffer, pool)
      else if pick < length pool then (pool ! pick, take pick pool @ drop (Suc pick) pool)
      else (new_buffer, pool))"

definition ReleaseBuffer :: "options \<Rightarrow> pool_buffer \<Rightarrow> pool_buffer list \<Rightarrow> pool_buffer list" where
  "ReleaseBuffer opt b pool =
     (if \<not> disableBufferPool opt \<and> bCap b < maxPooledBuffer opt
      then b\<lparr>bContent := []\<rparr> # pool else pool)"

section \<open>Timeouts\<close>

text \<open>\<^verbatim>\<open>IsTimeoutError\<close>, and the text of a \<^verbatim>\<open>timeoutError\<close>.\<close>

fun IsTimeoutError :: "go_error \<Rightarrow> bool" and any_timeout :: "go_error list \<Rightarrow> bool" where
  "IsTimeoutError (TimeoutError t) = True"
| "IsTimeoutError (MError es) = any_timeout es"
| "IsTimeoutError (ErrorText t) = False"
| "IsTimeoutError (WrapError t e) = False"
| "IsTimeoutError (ForeignError t) = False"
| "any_timeout [] = False"
| "any_timeout (e # es) = (if IsTimeoutError e then True else any_timeout es)"

section \<open>What the loop over the targets finds\<close>

definition enables_level :: "'t host \<Rightarrow> level \<Rightarrow> bool" where
  "enables_level h lvl = fst (host_IsLevelEnabled h lvl)"

definition wants_stack :: "'t host \<Rightarrow> level \<Rightarrow> bool" where
  "wants_stack h lvl \<longleftrightarrow>
     enables_level h lvl \<and>
     (Stacktrace (snd (host_IsLevelEnabled h lvl)) \<or> IsStacktraceNeeded (hFormatter h))"

text \<open>Stopping early changes nothing: both flags are what a look at all targets would give.\<close>

lemma scan_hosts_eq:
  "scan_hosts hs lvl status =
     status\<lparr>Enabled := Enabled status \<or> (\<exists>h\<in>set hs. enables_level h lvl),
            NeedStack := NeedStack status \<or> (\<exists>h\<in>set hs. wants_stack h lvl)\<rparr>"
proof (induction hs lvl status rule: scan_hosts.induct)
  case (2 h hs lvl status)
  obtain en l where hl: "host_IsLevelEnabled h lvl = (en, l)"
    by (cases "host_IsLevelEnabled h lvl")
  show ?case
    by (cases en; cases "Stacktrace l \<or> IsStacktraceNeeded (hFormatter h)")
      (auto simp: hl enables_level_def wants_stack_def 2 Let_def)
qed simp

lemma is_empty_scan [simp]: "is_empty (scan_hosts hs lvl status) = is_empty status"
  by (simp add: scan_hosts_eq)

section \<open>The cache never lies\<close>

text \<open>
  The cache is keyed by the ID of a level, so the answers are those for one level per ID:
  \<open>lvls\<close> gives the level an application uses under an ID. Every stored answer is what the
  loop over the targets finds for that level.
\<close>

definition engine_inv :: "(uint \<Rightarrow> level) \<Rightarrow> 't engine \<Rightarrow> bool" where
  "engine_inv lvls lgr \<longleftrightarrow>
     lc_inv (eCache lgr) \<and>
     cache_coherent lc_get (lc_covers (eCache lgr))
       (\<lambda>i. scan_hosts (eHosts lgr) (lvls i) zero_status) (eCache lgr)"

lemma engine_inv_clear:
  "lc_wf (eCache lgr) \<Longrightarrow> engine_inv lvls (lgr\<lparr>eCache := lc_clear (eCache lgr)\<rparr>)"
  by (simp add: engine_inv_def lc_inv_clear lc.coherent_clear)

lemma engine_New_cache:
  "engine_New pkgName fs = Inr lgr \<Longrightarrow> \<exists>c. eCache lgr = lc_clear c \<and> lc_wf c"
  using lc_wf.simps(2) [of zero_sync_cache] lc_wf.simps(1) [of zero_array_cache]
  unfolding engine_New_def Let_def lc_setup_eq_clear array_cache_inv_zero
  by (auto simp del: lc_wf.simps lc_clear.simps split: sum.splits if_splits)

lemma engine_inv_New: "engine_New pkgName fs = Inr lgr \<Longrightarrow> engine_inv lvls lgr"
  by (auto dest!: engine_New_cache simp: engine_inv_def lc_inv_clear lc.coherent_clear)

lemma engine_inv_Reset: "engine_inv lvls lgr \<Longrightarrow> engine_inv lvls (ResetLevelCache (lgr\<lparr>eHosts := hs\<rparr>))"
  using engine_inv_clear [of "lgr\<lparr>eHosts := hs\<rparr>" lvls]
  by (simp add: ResetLevelCache_def engine_inv_def lc_inv_wf)

lemma engine_inv_Add: "engine_inv lvls lgr \<Longrightarrow> engine_inv lvls (snd (AddTarget lgr made))"
  by (auto simp: AddTarget_def engine_inv_Reset split: sum.split)

lemma engine_inv_Remove: "engine_inv lvls lgr \<Longrightarrow> engine_inv lvls (RemoveTargets f lgr)"
  by (simp add: RemoveTargets_def engine_inv_Reset)

lemma engine_inv_shutdown: "engine_inv lvls (lgr\<lparr>eShutdown := b\<rparr>) = engine_inv lvls lgr"
  by (simp add: engine_inv_def)

lemma IsLevelEnabled_answer:
  assumes "engine_inv lvls lgr" "\<not> eShutdown lgr" "lc_covers (eCache lgr) (ID lvl)"
    and "lvls (ID lvl) = lvl"
  shows "\<exists>c. engine_IsLevelEnabled lgr lvl =
      Ret (scan_hosts (eHosts lgr) lvl zero_status, lgr\<lparr>eCache := c\<rparr>) \<and>
    engine_inv lvls (lgr\<lparr>eCache := c\<rparr>) \<and> lc_covers c = lc_covers (eCache lgr)"
proof -
  let ?answer = "\<lambda>i. scan_hosts (eHosts lgr) (lvls i) zero_status"
  obtain c where c: "memo_status lc_get lc_put (?answer (ID lvl)) (eCache lgr) (ID lvl) =
      Ret (?answer (ID lvl), c, None)" "lc_inv c" "lc_covers c = lc_covers (eCache lgr)"
      "cache_coherent lc_get (lc_covers c) ?answer c"
    using lc.memo_status_coherent [of "eCache lgr" "ID lvl" ?answer] assms(1,3)
    by (auto simp: engine_inv_def)
  then show ?thesis
    using assms(2,4) by (intro exI [of _ c]) (simp add: engine_IsLevelEnabled_def engine_inv_def)
qed

lemma IsLevelEnabled_shutdown: "eShutdown lgr \<Longrightarrow> engine_IsLevelEnabled lgr lvl = Ret (zero_status, lgr)"
  by (simp add: engine_IsLevelEnabled_def)

lemma IsLevelEnabled_beyond:
  "\<not> eShutdown lgr \<Longrightarrow> ID lvl > MaxLevelID \<Longrightarrow>
   engine_IsLevelEnabled lgr lvl = Ret (zero_status, ReportError level_id_error lgr)"
  by (simp add: engine_IsLevelEnabled_def lc.memo_status_beyond ReportError_def)

section \<open>Histories of calls\<close>

text \<open>
  The calls an application makes between queries; \<open>answers\<close> collects what \<^verbatim>\<open>IsLevelEnabled\<close> says
  and, beside it, what the targets of that moment would say.
\<close>

datatype 't call =
    Query uint
  | Add "go_error + 't host"
  | Remove "string \<times> string \<Rightarrow> bool"
  | Reset
  | SetShutdown

fun answers ::
  "(uint \<Rightarrow> level) \<Rightarrow> 't call list \<Rightarrow> 't engine \<Rightarrow> (level_status \<times> level_status) list outcome" where
  "answers lvls [] lgr = Ret []"
| "answers lvls (Query i # cs) lgr =
     bind_outcome (engine_IsLevelEnabled lgr (lvls i)) (\<lambda>(status, lgr').
       bind_outcome (answers lvls cs lgr') (\<lambda>rest.
         Ret ((status,
               if eShutdown lgr then zero_status
               else scan_hosts (eHosts lgr) (lvls i) zero_status) # rest)))"
| "answers lvls (Add made # cs) lgr = answers lvls cs (snd (AddTarget lgr made))"
| "answers lvls (Remove f # cs) lgr = answers lvls cs (RemoveTargets f lgr)"
| "answers lvls (Reset # cs) lgr = answers lvls cs (ResetLevelCache lgr)"
| "answers lvls (SetShutdown # cs) lgr = answers lvls cs (lgr\<lparr>eShutdown := True\<rparr>)"

fun queries :: "'t call list \<Rightarrow> uint list" where
  "queries [] = []"
| "queries (Query i # cs) = i # queries cs"
| "queries (Add made # cs) = queries cs"
| "queries (Remove f # cs) = queries cs"
| "queries (Reset # cs) = queries cs"
| "queries (SetShutdown # cs) = queries cs"

lemma lc_covers_calls [simp]:
  "lc_covers (eCache (ResetLevelCache lgr)) = lc_covers (eCache lgr)"
  "lc_covers (eCache (snd (AddTarget lgr made))) = lc_covers (eCache lgr)"
  "lc_covers (eCache (RemoveTargets f lgr)) = lc_covers (eCache lgr)"
  by (auto simp: ResetLevelCache_def AddTarget_def RemoveTargets_def lc_covers_clear split: sum.split)

lemma engine_inv_Reset0: "engine_inv lvls lgr \<Longrightarrow> engine_inv lvls (ResetLevelCache lgr)"
  using engine_inv_Reset [of lvls lgr "eHosts lgr"] by simp

lemma answers_true:
  assumes "\<And>i. ID (lvls i) = i"
  shows "engine_inv lvls lgr \<Longrightarrow> \<forall>i\<in>set (queries cs). lc_covers (eCache lgr) i \<Longrightarrow>
    \<exists>as. answers lvls cs lgr = Ret as \<and> list_all (\<lambda>(a, b). a = b) as"
proof (induction cs arbitrary: lgr)
  case (Cons c cs)
  show ?case
  proof (cases c)
    case (Query i)
    show ?thesis
    proof (cases "eShutdown lgr")
      case True
      obtain as where "answers lvls cs lgr = Ret as" "list_all (\<lambda>(a, b). a = b) as"
        using Cons Query by auto
      with True Query show ?thesis by (simp add: IsLevelEnabled_shutdown)
    next
      case False
      have "lc_covers (eCache lgr) (ID (lvls i))" "lvls (ID (lvls i)) = lvls i"
        using Cons.prems(2) Query assms by simp_all
      then obtain c' where c': "engine_IsLevelEnabled lgr (lvls i) =
            Ret (scan_hosts (eHosts lgr) (lvls i) zero_status, lgr\<lparr>eCache := c'\<rparr>)"
          "engine_inv lvls (lgr\<lparr>eCache := c'\<rparr>)" "lc_covers c' = lc_covers (eCache lgr)"
        using IsLevelEnabled_answer [OF Cons.prems(1) False] by blast
      obtain as where "answers lvls cs (lgr\<lparr>eCache := c'\<rparr>) = Ret as" "list_all (\<lambda>(a, b). a = b) as"
        using Cons.IH [OF c'(2)] Cons.prems(2) c'(3) Query by auto
      with False Query c'(1) show ?thesis by simp
    qed
  qed (use Cons in \<open>auto simp: engine_inv_Add engine_inv_Remove engine_inv_Reset0 engine_inv_shutdown\<close>)
qed simp

section \<open>Pooled buffers are empty\<close>

definition pool_ok :: "pool_buffer list \<Rightarrow> bool" where
  "pool_ok pool \<longleftrightarrow> list_all (\<lambda>b. bContent b = []) pool"

lemma pool_Release: "pool_ok pool \<Longrightarrow> pool_ok (ReleaseBuffer opt b pool)"
  by (simp add: pool_ok_def ReleaseBuffer_def)

lemma pool_Borrow:
  "pool_ok pool \<Longrightarrow> BorrowBuffer opt pick pool = (b, pool') \<Longrightarrow> bContent b = [] \<and> pool_ok pool'"
  by (auto simp: pool_ok_def BorrowBuffer_def new_buffer_def list_all_iff split: if_splits
      dest!: in_set_takeD in_set_dropD)

text \<open>A client that borrows, writes what it likes, and releases.\<close>

fun pool_uses :: "options \<Rightarrow> (nat \<times> (pool_buffer \<Rightarrow> pool_buffer)) list \<Rightarrow> pool_buffer list \<Rightarrow>
    bytes list \<times> pool_buffer list" where
  "pool_uses opt [] pool = ([], pool)"
| "pool_uses opt ((pick, write) # us) pool =
     (let (b, pool) = BorrowBuffer opt pick pool;
          (seen, pool) = pool_uses opt us (ReleaseBuffer opt (write b) pool)
      in (bContent b # seen, pool))"

lemma pool_uses_empty: "pool_ok pool \<Longrightarrow> set (fst (pool_uses opt us pool)) \<subseteq> {[]}"
proof (induction us arbitrary: pool)
  case (Cons u us)
  obtain pick wr where u: "u = (pick, wr)"
    by (cases u)
  obtain b pool1 where b: "BorrowBuffer opt pick pool = (b, pool1)"
    by (cases "BorrowBuffer opt pick pool")
  then have "bContent b = []" "pool_ok (ReleaseBuffer opt (wr b) pool1)"
    using pool_Borrow [OF Cons.prems b] by (simp_all add: pool_Release)
  with Cons.IH [of "ReleaseBuffer opt (wr b) pool1"] b u show ?case
    by (auto split: prod.splits)
qed simp

section \<open>Timeouts inside errors\<close>

lemma any_timeout_iff: "any_timeout es \<longleftrightarrow> (\<exists>e\<in>set es. IsTimeoutError e)"
  by (induction es) auto

section \<open>The records of LogM\<close>

lemma Logger_Log_record:
  assumes "engine_inv lvls lgr" "\<not> eShutdown lgr" "lc_covers (eCache lgr) (ID lvl)"
    and "lvls (ID lvl) = lvl"
  shows "\<exists>ro flds' c. Logger_Log env rt lgr logger lvl msg flds = Ret (ro, flds', lgr\<lparr>eCache := c\<rparr>) \<and>
    engine_inv lvls (lgr\<lparr>eCache := c\<rparr>) \<and> lc_covers c = lc_covers (eCache lgr) \<and>
    map recLevel (case ro of None \<Rightarrow> [] | Some r \<Rightarrow> [r]) =
      filter (\<lambda>l. \<exists>h\<in>set (eHosts lgr). enables_level h l) [lvl] \<and>
    (\<forall>r. ro = Some r \<longrightarrow> recMsg r = LimitString msg (maxFieldLen (eOpts lgr)))"
proof -
  obtain c where "engine_IsLevelEnabled lgr lvl =
        Ret (scan_hosts (eHosts lgr) lvl zero_status, lgr\<lparr>eCache := c\<rparr>)"
      "engine_inv lvls (lgr\<lparr>eCache := c\<rparr>)" "lc_covers c = lc_covers (eCache lgr)"
    using IsLevelEnabled_answer [OF assms] by blast
  then show ?thesis
    by (auto simp: Logger_Log_def scan_hosts_eq zero_status_def limit_rec_def Let_def
        NewLogRec_def zero_LogRec_def LimitString_unlimited)
qed

lemma LogM_records:
  "engine_inv lvls lgr \<Longrightarrow> \<not> eShutdown lgr \<Longrightarrow>
   \<forall>l\<in>set ls. lc_covers (eCache lgr) (ID l) \<and> lvls (ID l) = l \<Longrightarrow>
   \<exists>rs flds' lgr'. Logger_LogM env rt lgr logger ls msg flds = Ret (rs, flds', lgr') \<and>
     map recLevel rs = filter (\<lambda>l. \<exists>h\<in>set (eHosts lgr). enables_level h l) ls \<and>
     (\<forall>r\<in>set rs. recMsg r = LimitString msg (maxFieldLen (eOpts lgr)))"
proof (induction ls arbitrary: lgr flds)
  case (Cons l ls)
  obtain ro flds' c where l: "Logger_Log env rt lgr logger l msg flds = Ret (ro, flds', lgr\<lparr>eCache := c\<rparr>)"
      "engine_inv lvls (lgr\<lparr>eCache := c\<rparr>)" "lc_covers c = lc_covers (eCache lgr)"
      "map recLevel (case ro of None \<Rightarrow> [] | Some r \<Rightarrow> [r]) =
        filter (\<lambda>l. \<exists>h\<in>set (eHosts lgr). enables_level h l) [l]"
      "\<forall>r. ro = Some r \<longrightarrow> recMsg r = LimitString msg (maxFieldLen (eOpts lgr))"
    using Logger_Log_record [OF Cons.prems(1,2), of l env rt logger msg flds] Cons.prems(3) by auto
  obtain rs flds'' lgr'' where
      "Logger_LogM env rt (lgr\<lparr>eCache := c\<rparr>) logger ls msg flds' = Ret (rs, flds'', lgr'')"
      "map recLevel rs = filter (\<lambda>l. \<exists>h\<in>set (eHosts lgr). enables_level h l) ls"
      "\<forall>r\<in>set rs. recMsg r = LimitString msg (maxFieldLen (eOpts lgr))"
    using Cons.IH [OF l(2), of flds'] Cons.prems(2,3) l(3) by auto
  with l(1,4,5) show ?case
    by (cases ro) (auto split: if_splits)
qed simp

text \<open>Limiting a field twice, as \<^verbatim>\<open>LogM\<close> does, renders as limiting it once.\<close>

lemma limit_field_twice_text:
  "as_Stringer env (Interface f) = Some s \<Longrightarrow> FType f = StringerType \<Longrightarrow>
   as_Stringer env (Interface (limit_field env n (limit_field env n f))) =
     as_Stringer env (Interface (limit_field env n f))"
  by (simp add: limit_field_def LimitedStringer_String_def LimitString_idem)

lemma limit_field_twice_string:
  "FType f = StringType \<Longrightarrow> limit_field env n (limit_field env n f) = limit_field env n f"
  by (simp add: limit_field_def LimitString_idem)

section \<open>Properties of the engine's calls\<close>

lemma enables_level_iff: "enables_level h l = snd (GetEnabledLevel (hFilter h) l)"
  by (simp add: enables_level_def host_IsLevelEnabled_def split: prod.split)

lemma lc_covers_below: "i < MaxLevelID \<Longrightarrow> lc_covers c i"
  by (cases c) simp_all

text \<open>
  Whatever calls of \<^verbatim>\<open>AddTarget\<close>, \<^verbatim>\<open>RemoveTargets\<close>, \<^verbatim>\<open>ResetLevelCache\<close> and \<^verbatim>\<open>Shutdown\<close> come
  between them, no query of \<^verbatim>\<open>IsLevelEnabled\<close> on a new engine panics, and every answer is the one
  that the targets of that moment give, although most answers come from the cache; if the
  application uses one level per ID, below \<^verbatim>\<open>MaxLevelID\<close>, and filters do not change.
\<close>

theorem level_answers_never_stale:
  assumes "engine_New pkgName fs = Inr lgr" "\<And>i. ID (lvls i) = i"
    "\<forall>i\<in>set (queries cs). i < MaxLevelID"
  shows "\<exists>as. answers lvls cs lgr = Ret as \<and> list_all (\<lambda>(found, current). found = current) as"
  using answers_true [OF assms(2) engine_inv_New [OF assms(1)]] assms(3) lc_covers_below by blast

theorem level_answers_never_stale_witness:
  "\<exists>(lgr :: nat engine) as. engine_New [] [] = Inr lgr \<and>
     answers (\<lambda>i. std_level i ''any'' NoColor)
       [Query 4, Add (Inr tiny_host), Query 4, Query 5, Remove (\<lambda>_. True), Query 4] lgr = Ret as \<and>
     list_all (\<lambda>(found, current). found = current) as"
proof -
  obtain lgr :: "nat engine" where lgr: "engine_New [] [] = Inr lgr"
    by (simp add: engine_New_def)
  from level_answers_never_stale [OF lgr, of "\<lambda>i. std_level i ''any'' NoColor"
      "[Query 4, Add (Inr tiny_host), Query 4, Query 5, Remove (\<lambda>_. True), Query 4]"]
  show ?thesis using lgr by (auto simp: std_level_def MaxLevelID_def)
qed

text \<open>
  The first answer for an ID is final until the cache is reset: a later query with the same ID
  gets it, whatever the filters of the targets say by then (such as after \<^verbatim>\<open>CustomFilter.Add\<close>), and
  whatever else the level holds (such as its \<^verbatim>\<open>Stacktrace\<close> flag).
\<close>

theorem cached_answer_is_final:
  assumes "engine_New pkgName fs = Inr lgr" "ID lvl < MaxLevelID" "ID lvl' = ID lvl"
    and "engine_IsLevelEnabled (lgr\<lparr>eHosts := hs\<rparr>) lvl = Ret (status, lgr')"
  shows "engine_IsLevelEnabled (lgr'\<lparr>eHosts := hs'\<rparr>) lvl' = Ret (status, lgr'\<lparr>eHosts := hs'\<rparr>) \<and>
    status = scan_hosts hs lvl zero_status"
proof -
  obtain c where c: "eCache lgr = lc_clear c" "lc_wf c"
    using engine_New_cache [OF assms(1)] by blast
  have up: "\<not> eShutdown lgr"
    using assms(1) by (auto simp: engine_New_def Let_def split: sum.splits)
  obtain e where q: "memo_status lc_get lc_put (scan_hosts hs lvl zero_status) (lc_clear c) (ID lvl) =
        Ret (status, eCache lgr', e)"
    and lgr': "lgr' = (case e of None \<Rightarrow> lgr\<lparr>eHosts := hs, eCache := eCache lgr'\<rparr>
        | Some x \<Rightarrow> ReportError x (lgr\<lparr>eHosts := hs, eCache := eCache lgr'\<rparr>))"
    using assms(4) up c(1)
    by (auto simp: engine_IsLevelEnabled_def bind_outcome_Ret_iff Let_def ReportError_def
        split: prod.splits option.splits)
  have again: "status = scan_hosts hs lvl zero_status \<and> e = None \<and>
      memo_status lc_get lc_put computed (eCache lgr') (ID lvl) = Ret (status, eCache lgr', None)"
    for computed
    using lc.memo_status_again [OF lc_inv_clear [OF c(2)] lc_covers_below [OF assms(2)]
        lc.coherent_clear [OF c(2)], of "\<lambda>_. scan_hosts hs lvl zero_status"] q by simp
  then have "lgr' = lgr\<lparr>eHosts := hs, eCache := eCache lgr'\<rparr>" using lgr' by simp
  from arg_cong [OF this, of eShutdown] have "\<not> eShutdown lgr'" using up by simp
  with again show ?thesis by (simp add: engine_IsLevelEnabled_def assms(3))
qed

text \<open>The target enables \<^verbatim>\<open>info\<close> by a \<^verbatim>\<open>CustomFilter\<close> after the first query: it stays disabled.\<close>

theorem cached_answer_is_final_witness:
  "\<exists>(lgr :: nat engine) lgr'. engine_New [] [] = Inr lgr \<and>
     (let before = tiny_host\<lparr>hFilter := CustomFilter zero_CustomFilter\<rparr>;
          after = tiny_host\<lparr>hFilter := CustomFilter (CustomFilter_Add zero_CustomFilter [Info])\<rparr>
      in engine_IsLevelEnabled (lgr\<lparr>eHosts := [before]\<rparr>) Info = Ret (zero_status, lgr') \<and>
         engine_IsLevelEnabled (lgr'\<lparr>eHosts := [after]\<rparr>) Info = Ret (zero_status, lgr'\<lparr>eHosts := [after]\<rparr>) \<and>
         scan_hosts [after] Info zero_status = zero_status\<lparr>Enabled := True\<rparr>)"
proof -
  define before where "before = tiny_host\<lparr>hFilter := CustomFilter zero_CustomFilter\<rparr>"
  define after' where "after' = tiny_host\<lparr>hFilter := CustomFilter (CustomFilter_Add zero_CustomFilter [Info])\<rparr>"
  obtain lgr :: "nat engine" where lgr: "engine_New [] [] = Inr lgr"
    by (simp add: engine_New_def)
  have z: "scan_hosts [before] Info zero_status = zero_status"
    by (simp add: before_def host_IsLevelEnabled_def CustomFilter_GetEnabledLevel_def)
  have a: "scan_hosts [after'] Info zero_status = zero_status\<lparr>Enabled := True\<rparr>"
    by (simp add: after'_def host_IsLevelEnabled_def CustomFilter_GetEnabledLevel_def levels_get_Add
        tiny_host_def)
  have "engine_inv (\<lambda>_. Info) (lgr\<lparr>eHosts := [before]\<rparr>)" "\<not> eShutdown lgr"
    using lgr engine_New_cache [OF lgr]
    by (auto simp: engine_inv_def lc_inv_clear lc.coherent_clear engine_New_def)
  moreover have "lc_covers (eCache lgr) (ID Info)"
    by (rule lc_covers_below) (simp add: MaxLevelID_def)
  ultimately obtain lgr' where q: "engine_IsLevelEnabled (lgr\<lparr>eHosts := [before]\<rparr>) Info = Ret (zero_status, lgr')"
    using IsLevelEnabled_answer [of "\<lambda>_. Info" "lgr\<lparr>eHosts := [before]\<rparr>" Info] z by auto
  have "engine_IsLevelEnabled (lgr'\<lparr>eHosts := [after']\<rparr>) Info = Ret (zero_status, lgr'\<lparr>eHosts := [after']\<rparr>)"
    using cached_answer_is_final [OF lgr _ refl q, of "[after']"] by (simp add: MaxLevelID_def)
  with lgr q a show ?thesis
    unfolding before_def after'_def Let_def by blast
qed



text \<open>
  Every buffer that \<^verbatim>\<open>BorrowBuffer\<close> hands out is empty, whatever its earlier users wrote into it,
  and whichever buffer the pool picks.
\<close>

theorem borrowed_buffers_are_empty: "set (fst (pool_uses opt us [])) \<subseteq> {[]}"
  by (rule pool_uses_empty) (simp add: pool_ok_def)

text \<open>A timeout found by following collected errors.\<close>

inductive collects_timeout :: "go_error \<Rightarrow> bool" where
  here: "collects_timeout (TimeoutError t)"
| inside: "e \<in> set es \<Longrightarrow> collects_timeout e \<Longrightarrow> collects_timeout (MError es)"

inductive_simps collects_timeout_simps [simp]:
  "collects_timeout (TimeoutError t)" "collects_timeout (MError es)" "collects_timeout (ErrorText t)"
  "collects_timeout (WrapError t e)" "collects_timeout (ForeignError t)"

lemma IsTimeoutError_all:
  "IsTimeoutError e = collects_timeout e"
  "any_timeout es = (\<exists>e\<in>set es. collects_timeout e)"
  by (induction e and es rule: IsTimeoutError_any_timeout.induct) auto

text \<open>
  \<^verbatim>\<open>IsTimeoutError\<close> says whether a timeout is found by following the errors a \<^verbatim>\<open>MError\<close> collects,
  to any depth; it does not look below an error that \<^verbatim>\<open>fmt.Errorf\<close> wrapped.
\<close>

theorem IsTimeoutError_iff: "IsTimeoutError e \<longleftrightarrow> collects_timeout e"
  by (rule IsTimeoutError_all)

end
