(* ===== verification/Coherence.thy ===== *)
theory Coherence
  imports Engine
begin

text \<open>
  The calls that read and write the level cache while other goroutines make them too (\<^verbatim>\<open>logr.go\<close>,
  \<^verbatim>\<open>levelcache.go\<close>): \<^verbatim>\<open>IsLevelEnabled\<close>, \<^verbatim>\<open>AddTarget\<close>, \<^verbatim>\<open>RemoveTargets\<close>, \<^verbatim>\<open>ResetLevelCache\<close> and the
  reset in \<^verbatim>\<open>Shutdown\<close>, cut into the steps that happen at once: one access to the cache, one lock
  operation, one target of the loop. The theory \<open>Engine\<close> has the same calls one after the other.
  Here every goroutine has a place in a call, and the steps of all interleave.
\<close>

section \<open>Goroutines inside calls\<close>

text \<open>
  Where a goroutine is in \<^verbatim>\<open>IsLevelEnabled\<close>: about to load the shutdown flag, to look into the
  cache, to take \<^verbatim>\<open>tmux\<close> for reading, to look at the target of an index with the status so far, to
  store the status, and to return it. A return is reached in one of four ways.
\<close>

datatype answer_path = FromFlag | FromCache | FromTargets | FromError

datatype query_pc =
    QLoad
  | QGet
  | QLock
  | QHost nat level_status
  | QPut level_status
  | QReturn level_status answer_path

text \<open>
  Where it is in a call that changes the list of targets: before the checks of \<^verbatim>\<open>AddTarget\<close>, waiting
  for \<^verbatim>\<open>tmux\<close>, about to change the list, clearing the cache from an ID on, about to unlock.
\<close>

datatype change_pc = CCheck | CLock | CChange | CClear uint | CUnlock

text \<open>\<open>None\<close> of a shutdown is the place before the flag is swapped.\<close>

datatype 't call_pc =
    Idle
  | InQuery level query_pc
  | InAdd "go_error + 't host" change_pc
  | InRemove "string \<times> string \<Rightarrow> bool" change_pc
  | InReset uint
  | InShutdown "uint option"

text \<open>
  The engine, the holders of the read-write lock \<^verbatim>\<open>tmux\<close>, and the places of the goroutines. The rest
  is for the statements: \<open>past\<close> lists the lists of targets that were in force, a new one with every
  unlock; \<open>since\<close> is the index of the last one when a query began; \<open>answered\<close> has the finished
  queries: the level, the answer and how it came about, and the indices of the first and the last
  list that were in force during the call.
\<close>

record 't lsys =
  eng :: "'t engine"
  tmuxWriter :: "nat option"
  tmuxReaders :: "nat set"
  place :: "nat \<Rightarrow> 't call_pc"
  past :: "'t host list list"
  since :: "nat \<Rightarrow> nat"
  answered :: "(level \<times> level_status \<times> answer_path \<times> nat \<times> nat) list"

definition goto :: "nat \<Rightarrow> 't call_pc \<Rightarrow> 't lsys \<Rightarrow> 't lsys" where
  "goto t p s = s\<lparr>place := (place s)(t := p)\<rparr>"

definition set_cache :: "cache_obj \<Rightarrow> 't lsys \<Rightarrow> 't lsys" where
  "set_cache c s = s\<lparr>eng := (eng s)\<lparr>eCache := c\<rparr>\<rparr>"

definition lsys_init :: "'t engine \<Rightarrow> 't lsys" where
  "lsys_init lgr = \<lparr>eng = lgr, tmuxWriter = None, tmuxReaders = {}, place = (\<lambda>t. Idle), past = [eHosts lgr],
     since = (\<lambda>t. 0), answered = []\<rparr>"

section \<open>The steps of the calls\<close>

text \<open>
  \<^verbatim>\<open>IsLevelEnabled\<close>. A step that would panic, or that has to wait for the lock, is none. The deferred
  \<^verbatim>\<open>RUnlock\<close> is part of the return.
\<close>

fun query_step :: "nat \<Rightarrow> level \<Rightarrow> query_pc \<Rightarrow> 't lsys \<Rightarrow> 't lsys option" where
  "query_step t lvl QLoad s =
     Some (goto t (InQuery lvl (if eShutdown (eng s) then QReturn zero_status FromFlag else QGet)) s)"
| "query_step t lvl QGet s =
     (case lc_get (eCache (eng s)) (ID lvl) of
        Panics p \<Rightarrow> None
      | Ret (status, ok) \<Rightarrow>
          Some (goto t (InQuery lvl (if ok then QReturn status FromCache else QLock)) s))"
| "query_step t lvl QLock s =
     (if tmuxWriter s = None
      then Some (goto t (InQuery lvl (QHost 0 zero_status)) (s\<lparr>tmuxReaders := insert t (tmuxReaders s)\<rparr>))
      else None)"
| "query_step t lvl (QHost k status) s =
     (if k < length (eHosts (eng s))
      then let h = eHosts (eng s) ! k;
               (enabled, level) = host_IsLevelEnabled h lvl
           in if enabled
              then let status = status\<lparr>Enabled := True\<rparr>
                   in if Stacktrace level \<or> IsStacktraceNeeded (hFormatter h)
                      then Some (goto t (InQuery lvl (QPut (status\<lparr>NeedStack := True\<rparr>))) s)
                      else Some (goto t (InQuery lvl (QHost (k + 1) status)) s)
              else Some (goto t (InQuery lvl (QHost (k + 1) status)) s)
      else Some (goto t (InQuery lvl (QPut status)) s))"
| "query_step t lvl (QPut status) s =
     (case lc_put (eCache (eng s)) (ID lvl) status of
        Panics p \<Rightarrow> None
      | Ret (c, None) \<Rightarrow> Some (goto t (InQuery lvl (QReturn status FromTargets)) (set_cache c s))
      | Ret (c, Some e) \<Rightarrow>
          Some (goto t (InQuery lvl (QReturn zero_status FromError))
            ((set_cache c s)\<lparr>eng := ReportError e (eng (set_cache c s))\<rparr>)))"
| "query_step t lvl (QReturn status how) s =
     Some (goto t Idle (s\<lparr>answered := answered s @ [(lvl, status, how, since s t, length (past s) - 1)],
       tmuxReaders := tmuxReaders s - {t}\<rparr>))"

text \<open>
  One step of \<^verbatim>\<open>clear\<close>: the array is cleared under its mutex, at once; the map one entry after the
  other. The result is the cache, and the ID to go on with, if any.
\<close>

fun clear_step :: "cache_obj \<Rightarrow> uint \<Rightarrow> cache_obj \<times> uint option" where
  "clear_step (ArrayCache c) i = (ArrayCache (array_clear c), None)"
| "clear_step (SyncMapCache c) i =
     (if i < MaxLevelID then (SyncMapCache (c\<lparr>sm := (sm c)(i \<mapsto> empty_status)\<rparr>), Some (i + 1))
      else (SyncMapCache c, None))"

definition resume :: "nat \<Rightarrow> (uint \<Rightarrow> 't call_pc) \<Rightarrow> 't call_pc \<Rightarrow> uint \<Rightarrow> 't lsys \<Rightarrow> 't lsys" where
  "resume t again fin i s =
     (case clear_step (eCache (eng s)) i of
        (c, Some j) \<Rightarrow> goto t (again j) (set_cache c s)
      | (c, None) \<Rightarrow> goto t fin (set_cache c s))"

definition lock_step :: "nat \<Rightarrow> 't call_pc \<Rightarrow> 't lsys \<Rightarrow> 't lsys option" where
  "lock_step t p s =
     (if tmuxWriter s = None \<and> tmuxReaders s = {} then Some (goto t p (s\<lparr>tmuxWriter := Some t\<rparr>)) else None)"

definition unlock_step :: "nat \<Rightarrow> 't lsys \<Rightarrow> 't lsys" where
  "unlock_step t s = goto t Idle (s\<lparr>tmuxWriter := None, past := past s @ [eHosts (eng s)]\<rparr>)"

text \<open>\<^verbatim>\<open>AddTarget\<close>; \<open>made\<close> is what \<^verbatim>\<open>newTargetHost\<close> returns.\<close>

fun add_step :: "nat \<Rightarrow> go_error + 't host \<Rightarrow> change_pc \<Rightarrow> 't lsys \<Rightarrow> 't lsys option" where
  "add_step t made CCheck s =
     Some (goto t (if eShutdown (eng s) then Idle
                   else case made of Inl e \<Rightarrow> Idle | Inr h \<Rightarrow> InAdd made CLock) s)"
| "add_step t made CLock s = lock_step t (InAdd made CChange) s"
| "add_step t made CChange s =
     (case made of
        Inl e \<Rightarrow> None
      | Inr h \<Rightarrow> Some (goto t (InAdd made (CClear 0))
                   (s\<lparr>eng := (eng s)\<lparr>eHosts := eHosts (eng s) @ [h]\<rparr>\<rparr>)))"
| "add_step t made (CClear i) s = Some (resume t (\<lambda>j. InAdd made (CClear j)) (InAdd made CUnlock) i s)"
| "add_step t made CUnlock s = Some (unlock_step t s)"

text \<open>\<^verbatim>\<open>RemoveTargets\<close>; the list is assigned once, after the loop.\<close>

fun remove_step ::
  "nat \<Rightarrow> (string \<times> string \<Rightarrow> bool) \<Rightarrow> change_pc \<Rightarrow> 't lsys \<Rightarrow> 't lsys option" where
  "remove_step t f CCheck s = Some (goto t (InRemove f CLock) s)"
| "remove_step t f CLock s = lock_step t (InRemove f CChange) s"
| "remove_step t f CChange s =
     Some (goto t (InRemove f (CClear 0))
       (s\<lparr>eng := (eng s)\<lparr>eHosts := remove_loop f (eHosts (eng s)) []\<rparr>\<rparr>))"
| "remove_step t f (CClear i) s = Some (resume t (\<lambda>j. InRemove f (CClear j)) (InRemove f CUnlock) i s)"
| "remove_step t f CUnlock s = Some (unlock_step t s)"

text \<open>The start of \<^verbatim>\<open>ShutdownWithTimeout\<close>, after its flush: the flag, and the reset, without the lock.\<close>

fun shutdown_step :: "nat \<Rightarrow> uint option \<Rightarrow> 't lsys \<Rightarrow> 't lsys" where
  "shutdown_step t None s =
     (if eShutdown (eng s) then goto t Idle s
      else goto t (InShutdown (Some 0)) (s\<lparr>eng := (eng s)\<lparr>eShutdown := True\<rparr>\<rparr>))"
| "shutdown_step t (Some i) s = resume t (\<lambda>j. InShutdown (Some j)) Idle i s"

fun advance :: "nat \<Rightarrow> 't call_pc \<Rightarrow> 't lsys \<Rightarrow> 't lsys option" where
  "advance t Idle s = None"
| "advance t (InQuery lvl p) s = query_step t lvl p s"
| "advance t (InAdd made p) s = add_step t made p s"
| "advance t (InRemove f p) s = remove_step t f p s"
| "advance t (InReset i) s = Some (resume t InReset Idle i s)"
| "advance t (InShutdown i) s = Some (shutdown_step t i s)"

text \<open>
  The calls a goroutine may begin. The cache is keyed by the ID, so an application uses one level
  per ID, the one \<open>lvls\<close> gives.
\<close>

inductive first_place :: "(uint \<Rightarrow> level) \<Rightarrow> 't call_pc \<Rightarrow> bool" for lvls where
  "lvls (ID lvl) = lvl \<Longrightarrow> first_place lvls (InQuery lvl QLoad)"
| "first_place lvls (InAdd made CCheck)"
| "first_place lvls (InRemove f CCheck)"
| "first_place lvls (InReset 0)"
| "first_place lvls (InShutdown None)"

text \<open>
  A step of the system. The last rule, which \<open>mut\<close> enables, is a call of \<^verbatim>\<open>CustomFilter.Add\<close> on the
  filter of a target.
\<close>

inductive lvl_step :: "(uint \<Rightarrow> level) \<Rightarrow> bool \<Rightarrow> 't lsys \<Rightarrow> 't lsys \<Rightarrow> bool" for lvls mut where
  enter: "place s t = Idle \<Longrightarrow> first_place lvls p \<Longrightarrow>
    lvl_step lvls mut s (goto t p (s\<lparr>since := (since s)(t := length (past s) - 1)\<rparr>))"
| move: "advance t (place s t) s = Some s' \<Longrightarrow> lvl_step lvls mut s s'"
| refilter: "mut \<Longrightarrow> k < length (eHosts (eng s)) \<Longrightarrow>
    hFilter (eHosts (eng s) ! k) = CustomFilter cf \<Longrightarrow>
    lvl_step lvls mut s (s\<lparr>eng := (eng s)\<lparr>eHosts := (eHosts (eng s))
      [k := (eHosts (eng s) ! k)\<lparr>hFilter := CustomFilter (CustomFilter_Add cf ls)\<rparr>]\<rparr>\<rparr>)"

section \<open>What every goroutine relies on\<close>

text \<open>Who holds the lock, by place; and the places between the change of the list and the unlock.\<close>

fun reading :: "'t call_pc \<Rightarrow> bool" where
  "reading (InQuery lvl (QHost k status)) = True"
| "reading (InQuery lvl (QPut status)) = True"
| "reading (InQuery lvl (QReturn status how)) = (how \<in> {FromTargets, FromError})"
| "reading _ = False"

fun change_of :: "'t call_pc \<Rightarrow> change_pc option" where
  "change_of (InAdd made p) = Some p"
| "change_of (InRemove f p) = Some p"
| "change_of _ = None"

fun writing :: "'t call_pc \<Rightarrow> bool" where
  "writing (InAdd made p) = (p \<noteq> CCheck \<and> p \<noteq> CLock)"
| "writing (InRemove f p) = (p \<noteq> CCheck \<and> p \<noteq> CLock)"
| "writing _ = False"

fun changed :: "'t call_pc \<Rightarrow> bool" where
  "changed (InAdd made p) = (p \<notin> {CCheck, CLock, CChange})"
| "changed (InRemove f p) = (p \<notin> {CCheck, CLock, CChange})"
| "changed _ = False"

text \<open>No answer is stored for the IDs that a clearing under the lock has passed.\<close>

definition no_answer :: "cache_obj \<Rightarrow> uint \<Rightarrow> bool" where
  "no_answer c i \<longleftrightarrow> (\<forall>st. lc_get c i \<noteq> Ret (st, True))"

definition cleared :: "change_pc option \<Rightarrow> cache_obj \<Rightarrow> bool" where
  "cleared p c \<longleftrightarrow>
     (case p of
        Some (CClear i) \<Rightarrow> (\<forall>j<i. lc_covers c j \<longrightarrow> no_answer c j)
      | Some CUnlock \<Rightarrow> (\<forall>j. lc_covers c j \<longrightarrow> no_answer c j)
      | _ \<Rightarrow> True)"

text \<open>
  An answer is right for the bounds \<open>a\<close> and \<open>b\<close> if it is what the loop finds for one of the lists
  of targets that were in force between them.
\<close>

definition answer_ok ::
  "(uint \<Rightarrow> bool) \<Rightarrow> 't host list list \<Rightarrow> level \<times> level_status \<times> answer_path \<times> nat \<times> nat \<Rightarrow> bool" where
  "answer_ok covered hss ans =
     (case ans of (lvl, status, how, a, b) \<Rightarrow>
        (how = FromFlag \<longrightarrow> status = zero_status) \<and>
        (how \<noteq> FromFlag \<and> covered (ID lvl) \<longrightarrow>
           (\<exists>k. a \<le> k \<and> k \<le> b \<and> k < length hss \<and> status = scan_hosts (hss ! k) lvl zero_status)))"

fun query_ok :: "'t lsys \<Rightarrow> nat \<Rightarrow> level \<Rightarrow> query_pc \<Rightarrow> bool" where
  "query_ok s t lvl (QHost k status) \<longleftrightarrow>
     \<not> is_empty status \<and>
     scan_hosts (drop k (eHosts (eng s))) lvl status = scan_hosts (eHosts (eng s)) lvl zero_status"
| "query_ok s t lvl (QPut status) \<longleftrightarrow> status = scan_hosts (eHosts (eng s)) lvl zero_status"
| "query_ok s t lvl (QReturn status how) \<longleftrightarrow>
     answer_ok (lc_covers (eCache (eng s))) (past s) (lvl, status, how, since s t, length (past s) - 1)"
| "query_ok s t lvl _ = True"

fun place_ok :: "(uint \<Rightarrow> level) \<Rightarrow> 't lsys \<Rightarrow> nat \<Rightarrow> 't call_pc \<Rightarrow> bool" where
  "place_ok lvls s t (InQuery lvl p) \<longleftrightarrow>
     lvls (ID lvl) = lvl \<and> since s t < length (past s) \<and> query_ok s t lvl p"
| "place_ok lvls s t _ = True"

definition locks_ok :: "'t lsys \<Rightarrow> bool" where
  "locks_ok s \<longleftrightarrow>
     (\<forall>t. t \<in> tmuxReaders s \<longleftrightarrow> reading (place s t)) \<and>
     (\<forall>t. tmuxWriter s = Some t \<longleftrightarrow> writing (place s t)) \<and>
     (tmuxWriter s \<noteq> None \<longrightarrow> tmuxReaders s = {})"

definition store_ok :: "(uint \<Rightarrow> level) \<Rightarrow> 't lsys \<Rightarrow> bool" where
  "store_ok lvls s \<longleftrightarrow>
     lc_inv (eCache (eng s)) \<and> past s \<noteq> [] \<and>
     cache_coherent lc_get (lc_covers (eCache (eng s)))
       (\<lambda>i. scan_hosts (last (past s)) (lvls i) zero_status) (eCache (eng s)) \<and>
     (\<forall>ans\<in>set (answered s). answer_ok (lc_covers (eCache (eng s))) (past s) ans)"

definition lvl_inv :: "(uint \<Rightarrow> level) \<Rightarrow> 't lsys \<Rightarrow> bool" where
  "lvl_inv lvls s \<longleftrightarrow>
     locks_ok s \<and> store_ok lvls s \<and>
     (\<forall>t. place_ok lvls s t (place s t) \<and> cleared (change_of (place s t)) (eCache (eng s))) \<and>
     ((\<forall>t. \<not> changed (place s t)) \<longrightarrow> eHosts (eng s) = last (past s))"

lemma changed_writing: "changed p \<Longrightarrow> writing p"
  by (cases p) auto

lemma goto_simps [simp]:
  "eng (goto t p s) = eng s" "tmuxWriter (goto t p s) = tmuxWriter s"
  "tmuxReaders (goto t p s) = tmuxReaders s" "place (goto t p s) = (place s)(t := p)"
  "past (goto t p s) = past s" "since (goto t p s) = since s" "answered (goto t p s) = answered s"
  by (simp_all add: goto_def)

lemma set_cache_simps [simp]:
  "eng (set_cache c s) = (eng s)\<lparr>eCache := c\<rparr>" "tmuxWriter (set_cache c s) = tmuxWriter s"
  "tmuxReaders (set_cache c s) = tmuxReaders s" "place (set_cache c s) = place s"
  "past (set_cache c s) = past s" "since (set_cache c s) = since s" "answered (set_cache c s) = answered s"
  by (simp_all add: set_cache_def)

text \<open>What a goroutine relies on depends on the shared state only through these components.\<close>

lemma query_ok_cong:
  assumes "eHosts (eng s') = eHosts (eng s)" "lc_covers (eCache (eng s')) = lc_covers (eCache (eng s))"
    and "past s' = past s" "since s' t = since s t"
  shows "query_ok s' t lvl p = query_ok s t lvl p"
  by (cases p) (simp_all add: assms)

lemma place_ok_cong:
  assumes "eHosts (eng s') = eHosts (eng s)" "lc_covers (eCache (eng s')) = lc_covers (eCache (eng s))"
    and "past s' = past s" "since s' t = since s t"
  shows "place_ok lvls s' t p = place_ok lvls s t p"
  by (cases p) (simp_all add: query_ok_cong [OF assms] assms)

lemma store_ok_cong:
  "eCache (eng s') = eCache (eng s) \<Longrightarrow> past s' = past s \<Longrightarrow> answered s' = answered s \<Longrightarrow>
   store_ok lvls s' = store_ok lvls s"
  by (simp add: store_ok_def)

text \<open>A move that does not touch the list of targets; it may take or give back the lock.\<close>

lemma inv_move:
  assumes inv: "lvl_inv lvls s"
    and locks: "locks_ok (goto t p (s\<lparr>tmuxWriter := W, tmuxReaders := R\<rparr>))"
    and "changed p = changed (place s t)" "place_ok lvls s t p" "cleared (change_of p) (eCache (eng s))"
  shows "lvl_inv lvls (goto t p (s\<lparr>tmuxWriter := W, tmuxReaders := R\<rparr>))"
proof -
  let ?s = "goto t p (s\<lparr>tmuxWriter := W, tmuxReaders := R\<rparr>)"
  have ok: "place_ok lvls ?s u q = place_ok lvls s u q" for u q
    by (rule place_ok_cong) simp_all
  have store: "store_ok lvls ?s = store_ok lvls s"
    by (rule store_ok_cong) simp_all
  have upd: "changed (place ?s u) = changed (place s u)" for u
    using assms(3) by simp
  have rest: "eng ?s = eng s" "past ?s = past s"
    by simp_all
  have "place_ok lvls s u (place ?s u) \<and> cleared (change_of (place ?s u)) (eCache (eng s))" for u
    using inv assms(4,5) by (simp add: lvl_inv_def)
  then show ?thesis
    using inv locks unfolding lvl_inv_def ok store upd rest by blast
qed

lemma inv_goto:
  assumes inv: "lvl_inv lvls s"
    and "reading p = reading (place s t)" "writing p = writing (place s t)"
    and "changed p = changed (place s t)" "place_ok lvls s t p" "cleared (change_of p) (eCache (eng s))"
  shows "lvl_inv lvls (goto t p s)"
proof -
  have upd: "reading (((place s)(t := p)) u) = reading (place s u)"
      "writing (((place s)(t := p)) u) = writing (place s u)" for u
    using assms(2,3) by simp_all
  have "locks_ok (goto t p s) = locks_ok s"
    unfolding locks_ok_def goto_simps upd ..
  moreover have "locks_ok s"
    using inv by (simp add: lvl_inv_def)
  ultimately show ?thesis
    using inv_move [OF inv _ assms(4-), where W = "tmuxWriter s" and R = "tmuxReaders s"] by simp
qed

lemma inv_set_cache:
  assumes inv: "lvl_inv lvls s"
    and "lc_inv c" and covers: "lc_covers c = lc_covers (eCache (eng s))"
    and "cache_coherent lc_get (lc_covers c) (\<lambda>i. scan_hosts (last (past s)) (lvls i) zero_status) c"
    and "\<And>u. cleared (change_of (place s u)) c"
  shows "lvl_inv lvls (set_cache c s)"
proof -
  have ok: "place_ok lvls (set_cache c s) u q = place_ok lvls s u q" for u q
    by (rule place_ok_cong) (simp_all add: covers)
  have "store_ok lvls (set_cache c s)"
    using inv assms(2-4) by (simp add: lvl_inv_def store_ok_def)
  then show ?thesis
    using inv assms(5) by (simp add: lvl_inv_def ok locks_ok_def)
qed

lemma inv_answered:
  assumes inv: "lvl_inv lvls s" and "answer_ok (lc_covers (eCache (eng s))) (past s) ans"
  shows "lvl_inv lvls (s\<lparr>answered := answered s @ [ans]\<rparr>)"
proof -
  let ?s = "s\<lparr>answered := answered s @ [ans]\<rparr>"
  have "place_ok lvls ?s u q = place_ok lvls s u q" for u q
    by (rule place_ok_cong) simp_all
  then show ?thesis
    using assms by (auto simp: lvl_inv_def store_ok_def locks_ok_def)
qed

lemma inv_engine:
  assumes inv: "lvl_inv lvls s" and "eHosts lgr = eHosts (eng s)" "eCache lgr = eCache (eng s)"
  shows "lvl_inv lvls (s\<lparr>eng := lgr\<rparr>)"
proof -
  have "place_ok lvls (s\<lparr>eng := lgr\<rparr>) u q = place_ok lvls s u q" for u q
    by (rule place_ok_cong) (simp_all add: assms)
  then show ?thesis
    using assms by (simp add: lvl_inv_def store_ok_def locks_ok_def)
qed

section \<open>Queries\<close>

lemma cleared_trivial: "\<not> writing p \<Longrightarrow> cleared (change_of p) c"
  by (cases p) (auto simp: cleared_def split: change_pc.split)

lemma hosts_in_force:
  "lvl_inv lvls s \<Longrightarrow> (\<And>u. writing (place s u) \<Longrightarrow> \<not> changed (place s u)) \<Longrightarrow>
   eHosts (eng s) = last (past s)"
  by (auto simp: lvl_inv_def dest: changed_writing)

lemma reading_no_writer:
  "lvl_inv lvls s \<Longrightarrow> reading (place s t) \<Longrightarrow> tmuxWriter s = None \<and> (\<forall>u. \<not> writing (place s u))"
  by (auto simp: lvl_inv_def locks_ok_def)

lemma lc_put_frame:
  assumes "lc_inv c" and "lc_put c i st = Ret (c', e)"
  shows "lc_inv c' \<and> lc_covers c' = lc_covers c \<and>
    (\<forall>j. j \<noteq> i \<longrightarrow> lc_get c' j = lc_get c j) \<and>
    (lc_covers c i \<longrightarrow> e = None \<and> lc_get c' i = Ret (st, \<not> is_empty st))"
proof (cases c)
  case (ArrayCache a)
  show ?thesis
  proof (cases "i \<le> MaxLevelID")
    case True
    with assms ArrayCache have c': "c' = ArrayCache (a\<lparr>arr := (arr a)[unat i := st]\<rparr>)" "e = None"
      by (auto simp: array_put_covered)
    moreover have "unat i < 65536"
      using True by (simp add: word_le_nat_alt)
    ultimately show ?thesis
      using assms(1) True ArrayCache
      by (auto simp: array_cache_inv_def array_get_def Let_def word_unat_eq_iff nth_list_update fun_eq_iff)
  next
    case False
    with assms ArrayCache show ?thesis by (auto simp: array_beyond not_le)
  qed
next
  case (SyncMapCache a)
  with assms show ?thesis
    by (auto simp: sync_put_def sync_get_def sync_cache_inv_def fun_eq_iff split: if_splits)
qed

lemma query_QHost:
  assumes inv: "lvl_inv lvls s" and at: "place s t = InQuery lvl (QHost k status)"
    and "query_step t lvl (QHost k status) s = Some s'"
  shows "lvl_inv lvls s'"
proof -
  have ok: "place_ok lvls s t (InQuery lvl (QHost k status))"
    using inv at by (metis lvl_inv_def)
  have "lvl_inv lvls (goto t (InQuery lvl q) s)"
    if "query_ok s t lvl q" "q \<in> {QHost (k + 1) st, QPut st}" for q st
    by (rule inv_goto [OF inv]) (use that ok at in \<open>auto simp: cleared_def\<close>)
  moreover have "drop k (eHosts (eng s)) = eHosts (eng s) ! k # drop (k + 1) (eHosts (eng s))"
    if "k < length (eHosts (eng s))"
    using that by (simp add: Cons_nth_drop_Suc)
  ultimately show ?thesis
    using assms(3) ok by (auto simp: Let_def split: if_splits prod.splits)
qed

lemma query_QGet:
  assumes inv: "lvl_inv lvls s" and at: "place s t = InQuery lvl QGet"
    and step: "query_step t lvl QGet s = Some s'"
  shows "lvl_inv lvls s'"
proof -
  obtain status ok where get: "lc_get (eCache (eng s)) (ID lvl) = Ret (status, ok)"
    and s': "s' = goto t (InQuery lvl (if ok then QReturn status FromCache else QLock)) s"
    using step by (auto split: outcome.splits)
  have lvl: "lvls (ID lvl) = lvl" "since s t < length (past s)"
    using inv at by (metis lvl_inv_def place_ok.simps(1))+
  have "answer_ok (lc_covers (eCache (eng s))) (past s) (lvl, status, FromCache, since s t, length (past s) - 1)"
    if "ok"
    using that get inv lvl
    by (auto simp: answer_ok_def lvl_inv_def store_ok_def cache_coherent_def last_conv_nth
        intro!: exI [of _ "length (past s) - 1"])
  then show ?thesis
    unfolding s' by (intro inv_goto [OF inv]) (simp_all add: at lvl cleared_def)
qed

lemma query_QLock:
  assumes inv: "lvl_inv lvls s" and at: "place s t = InQuery lvl QLock"
    and step: "query_step t lvl QLock s = Some s'"
  shows "lvl_inv lvls s'"
proof -
  have free: "tmuxWriter s = None"
    and s': "s' = goto t (InQuery lvl (QHost 0 zero_status))
               (s\<lparr>tmuxWriter := None, tmuxReaders := insert t (tmuxReaders s)\<rparr>)"
    using step by (auto split: if_splits)
  have lvl: "lvls (ID lvl) = lvl" "since s t < length (past s)" and locks: "locks_ok s"
    using inv at by (metis lvl_inv_def place_ok.simps(1))+
  show ?thesis
    unfolding s'
  proof (rule inv_move [OF inv])
    show "locks_ok (goto t (InQuery lvl (QHost 0 zero_status))
            (s\<lparr>tmuxWriter := None, tmuxReaders := insert t (tmuxReaders s)\<rparr>))"
      using locks free by (auto simp: locks_ok_def)
  qed (simp_all add: at lvl cleared_def)
qed

lemma query_QPut:
  assumes inv: "lvl_inv lvls s" and at: "place s t = InQuery lvl (QPut status)"
    and step: "query_step t lvl (QPut status) s = Some s'"
  shows "lvl_inv lvls s'"
proof -
  let ?c = "eCache (eng s)"
  obtain c e where put: "lc_put ?c (ID lvl) status = Ret (c, e)"
    using step by (auto split: outcome.splits)
  have lvl: "lvls (ID lvl) = lvl" "since s t < length (past s)"
    and now: "status = scan_hosts (eHosts (eng s)) lvl zero_status"
    using inv at by (metis lvl_inv_def place_ok.simps(1) query_ok.simps(2))+
  have alone: "\<forall>u. \<not> writing (place s u)"
    using reading_no_writer [OF inv, of t] by (simp add: at)
  then have force: "eHosts (eng s) = last (past s)"
    using hosts_in_force [OF inv] by blast
  have store: "store_ok lvls s"
    using inv by (simp add: lvl_inv_def)
  note frame = lc_put_frame [OF _ put]
  have inv_c: "lvl_inv lvls (set_cache c s)"
  proof (rule inv_set_cache [OF inv])
    show "lc_inv c" "lc_covers c = lc_covers ?c"
      using frame store by (simp_all add: store_ok_def)
    show "cache_coherent lc_get (lc_covers c) (\<lambda>i. scan_hosts (last (past s)) (lvls i) zero_status) c"
      unfolding cache_coherent_def
    proof (intro allI impI)
      fix j st
      assume "lc_covers c j" "lc_get c j = Ret (st, True)"
      then show "st = scan_hosts (last (past s)) (lvls j) zero_status"
        using frame store lvl now force
        by (cases "j = ID lvl") (auto simp: store_ok_def cache_coherent_def)
    qed
    show "cleared (change_of (place s u)) c" for u
      using alone by (simp add: cleared_trivial)
  qed
  have covers: "lc_covers c = lc_covers ?c" "e \<noteq> None \<Longrightarrow> \<not> lc_covers ?c (ID lvl)"
    using frame store by (auto simp: store_ok_def)
  show ?thesis
  proof (cases e)
    case None
    have "answer_ok (lc_covers ?c) (past s) (lvl, status, FromTargets, since s t, length (past s) - 1)"
      using lvl now force store
      by (auto simp: answer_ok_def store_ok_def last_conv_nth intro!: exI [of _ "length (past s) - 1"])
    then have "lvl_inv lvls (goto t (InQuery lvl (QReturn status FromTargets)) (set_cache c s))"
      by (intro inv_goto [OF inv_c]) (simp_all add: at lvl covers cleared_def)
    with None step put show ?thesis by simp
  next
    case (Some e')
    let ?s = "(set_cache c s)\<lparr>eng := ReportError e' (eng (set_cache c s))\<rparr>"
    have inv_e: "lvl_inv lvls ?s"
      by (rule inv_engine [OF inv_c]) (simp_all add: ReportError_def)
    have "\<not> lc_covers ?c (ID lvl)"
      using Some covers by simp
    then have "lvl_inv lvls (goto t (InQuery lvl (QReturn zero_status FromError)) ?s)"
      by (intro inv_goto [OF inv_e]) (simp_all add: at lvl covers(1) cleared_def answer_ok_def ReportError_def)
    with Some step put show ?thesis by simp
  qed
qed

lemma query_QReturn:
  assumes inv: "lvl_inv lvls s" and at: "place s t = InQuery lvl (QReturn status how)"
    and step: "query_step t lvl (QReturn status how) s = Some s'"
  shows "lvl_inv lvls s'"
proof -
  let ?ans = "(lvl, status, how, since s t, length (past s) - 1)"
  let ?s = "s\<lparr>answered := answered s @ [?ans]\<rparr>"
  have s': "s' = goto t Idle (?s\<lparr>tmuxWriter := tmuxWriter ?s, tmuxReaders := tmuxReaders s - {t}\<rparr>)"
    using step by simp
  have "answer_ok (lc_covers (eCache (eng s))) (past s) ?ans"
    using inv at by (metis lvl_inv_def place_ok.simps(1) query_ok.simps(3))
  then have inv': "lvl_inv lvls ?s"
    by (rule inv_answered [OF inv])
  have "locks_ok s"
    using inv by (simp add: lvl_inv_def)
  then have "locks_ok s'"
    unfolding s' using at by (auto simp: locks_ok_def)
  then show ?thesis
    unfolding s' by (intro inv_move [OF inv']) (simp_all add: at cleared_def)
qed

lemma query_QLoad:
  assumes inv: "lvl_inv lvls s" and at: "place s t = InQuery lvl QLoad"
    and step: "query_step t lvl QLoad s = Some s'"
  shows "lvl_inv lvls s'"
proof -
  have "lvls (ID lvl) = lvl" "since s t < length (past s)"
    using inv at by (metis lvl_inv_def place_ok.simps(1))+
  then show ?thesis
    using step inv_goto [OF inv, of "InQuery lvl QGet" t]
      inv_goto [OF inv, of "InQuery lvl (QReturn zero_status FromFlag)" t]
    by (cases "eShutdown (eng s)") (simp_all add: at cleared_def answer_ok_def)
qed

lemma query_step_inv:
  assumes "lvl_inv lvls s" "place s t = InQuery lvl q" "query_step t lvl q s = Some s'"
  shows "lvl_inv lvls s'"
proof (cases q)
  case QLoad
  show ?thesis by (rule query_QLoad [OF assms [unfolded QLoad]])
next
  case QGet
  show ?thesis by (rule query_QGet [OF assms [unfolded QGet]])
next
  case QLock
  show ?thesis by (rule query_QLock [OF assms [unfolded QLock]])
next
  case (QHost k status)
  show ?thesis by (rule query_QHost [OF assms [unfolded QHost]])
next
  case (QPut status)
  show ?thesis by (rule query_QPut [OF assms [unfolded QPut]])
next
  case (QReturn status how)
  show ?thesis by (rule query_QReturn [OF assms [unfolded QReturn]])
qed

section \<open>Clearing\<close>

lemma no_answer_simps [simp]:
  "no_answer (SyncMapCache (c\<lparr>sm := (sm c)(i \<mapsto> empty_status)\<rparr>)) j \<longleftrightarrow>
     j = i \<or> no_answer (SyncMapCache c) j"
  by (auto simp: no_answer_def sync_get_def)

lemma clear_step_spec:
  assumes "lc_inv c" and "clear_step c i = (c', r)"
  shows "lc_inv c' \<and> lc_covers c' = lc_covers c \<and>
    (\<forall>j st. lc_covers c j \<longrightarrow> lc_get c' j = Ret (st, True) \<longrightarrow> lc_get c j = Ret (st, True)) \<and>
    (cleared (Some (CClear i)) c \<longrightarrow>
       cleared (Some (case r of Some j \<Rightarrow> CClear j | None \<Rightarrow> CUnlock)) c')"
proof (cases c)
  case (ArrayCache a)
  with assms have c': "c' = lc_clear c" "r = None"
    by simp_all
  have "lc_wf c"
    using assms(1) by (rule lc_inv_wf)
  then show ?thesis
    using lc_get_clear [of c] lc_inv_clear [of c] lc_covers_clear [of c]
    by (auto simp: c' cleared_def no_answer_def)
next
  case (SyncMapCache a)
  show ?thesis
  proof (cases "i < MaxLevelID")
    case True
    then have "j < i + 1 \<longleftrightarrow> j < i \<or> j = i" for j
      by (auto simp: word_less_nat_alt unat_Suc_below_MaxLevelID less_Suc_eq word_unat_eq_iff)
    with True assms SyncMapCache show ?thesis
      by (auto simp: cleared_def sync_get_def sync_cache_inv_def fun_eq_iff split: if_splits)
  next
    case False
    with assms SyncMapCache show ?thesis
      by (auto simp: cleared_def not_less intro: order.strict_trans2)
  qed
qed

lemma cleared_mono:
  assumes "cleared p c" and "lc_covers c' = lc_covers c"
    and "\<forall>j st. lc_covers c j \<longrightarrow> lc_get c' j = Ret (st, True) \<longrightarrow> lc_get c j = Ret (st, True)"
  shows "cleared p c'"
  using assms by (auto simp: cleared_def no_answer_def split: option.splits change_pc.splits)

lemma resume_inv:
  assumes inv: "lvl_inv lvls s" and at: "place s t = again i"
    and quiet: "\<And>j. \<not> reading (again j)" "\<not> reading fin"
    and locked: "\<And>j. writing (again j) = locked" "writing fin = locked"
      "\<And>j. changed (again j) = locked" "changed fin = locked"
    and ok: "\<And>s j. place_ok lvls s t (again j)" "\<And>s. place_ok lvls s t fin"
    and change: "\<And>j. change_of (again j) = (if locked then Some (CClear j) else None)"
      "change_of fin = (if locked then Some CUnlock else None)"
  shows "lvl_inv lvls (resume t again fin i s)"
proof -
  obtain c r where c: "clear_step (eCache (eng s)) i = (c, r)"
    by (cases "clear_step (eCache (eng s)) i")
  have store: "store_ok lvls s" and cl: "cleared (change_of (place s u)) (eCache (eng s))" for u
    using inv by (simp_all add: lvl_inv_def)
  then have "lc_inv (eCache (eng s))"
    by (simp add: store_ok_def)
  note spec = clear_step_spec [OF this c]
  have inv_c: "lvl_inv lvls (set_cache c s)"
  proof (rule inv_set_cache [OF inv])
    show "cache_coherent lc_get (lc_covers c) (\<lambda>i. scan_hosts (last (past s)) (lvls i) zero_status) c"
      using store spec by (auto simp: cache_coherent_def store_ok_def)
    show "cleared (change_of (place s u)) c" for u
      by (rule cleared_mono [OF cl]) (use spec in blast)+
  qed (use spec in blast)+
  have "cleared (change_of (case r of Some j \<Rightarrow> again j | None \<Rightarrow> fin)) c"
    using spec cl [of t] by (cases r; cases locked) (simp_all add: at change cleared_def)
  then have "lvl_inv lvls (goto t (case r of Some j \<Rightarrow> again j | None \<Rightarrow> fin) (set_cache c s))"
    by (intro inv_goto [OF inv_c]; cases r) (simp_all add: at quiet locked ok)
  then show ?thesis
    by (cases r) (simp_all add: resume_def c)
qed

section \<open>Changes of the list\<close>

lemma writing_alone:
  assumes "lvl_inv lvls s" "writing (place s t)"
  shows "tmuxWriter s = Some t" "tmuxReaders s = {}" "\<not> reading (place s u)" "u \<noteq> t \<Longrightarrow> \<not> writing (place s u)"
proof -
  have *: "\<forall>t. t \<in> tmuxReaders s \<longleftrightarrow> reading (place s t)"
      "\<forall>t. tmuxWriter s = Some t \<longleftrightarrow> writing (place s t)"
      "tmuxWriter s \<noteq> None \<longrightarrow> tmuxReaders s = {}"
    using assms(1) by (simp_all add: lvl_inv_def locks_ok_def)
  with assms(2) show w: "tmuxWriter s = Some t" "tmuxReaders s = {}"
    by auto
  with * show "\<not> reading (place s u)" "u \<noteq> t \<Longrightarrow> \<not> writing (place s u)"
    by (metis emptyE, metis option.inject)
qed

lemma lock_inv:
  assumes inv: "lvl_inv lvls s" and "lock_step t p s = Some s'"
    and "\<not> reading (place s t)" "\<not> changed (place s t)"
    and "change_of p = Some CChange" "writing p" "\<not> changed p" "\<not> reading p" "place_ok lvls s t p"
  shows "lvl_inv lvls s'"
proof -
  have free: "tmuxWriter s = None" "tmuxReaders s = {}"
    and s': "s' = goto t p (s\<lparr>tmuxWriter := Some t, tmuxReaders := {}\<rparr>)"
    using assms(2) by (auto simp: lock_step_def split: if_splits)
  have "locks_ok s"
    using inv by (simp add: lvl_inv_def)
  then have "locks_ok s'"
    unfolding s' using free assms by (auto simp: locks_ok_def)
  then show ?thesis
    unfolding s' by (intro inv_move [OF inv]) (use assms in \<open>simp_all add: cleared_def\<close>)
qed

lemma place_ok_not_reading:
  assumes "\<not> reading p" "lc_covers (eCache (eng s')) = lc_covers (eCache (eng s))"
    and "past s' = past s" "since s' t = since s t"
  shows "place_ok lvls s' t p = place_ok lvls s t p"
proof (cases p)
  case (InQuery lvl q)
  with assms show ?thesis by (cases q) simp_all
qed simp_all

lemma change_inv:
  assumes inv: "lvl_inv lvls s" and at: "writing (place s t)"
    and p: "change_of p = Some (CClear 0)" "writing p" "changed p" "\<not> reading p"
      "\<And>s. place_ok lvls s t p"
  shows "lvl_inv lvls (goto t p (s\<lparr>eng := (eng s)\<lparr>eHosts := hs\<rparr>\<rparr>))" (is "lvl_inv lvls ?s")
proof -
  have "place_ok lvls ?s u (place s u) = place_ok lvls s u (place s u)" for u
    by (rule place_ok_not_reading) (use writing_alone(3) [OF inv at] in simp_all)
  moreover have "store_ok lvls ?s"
    using inv by (simp add: lvl_inv_def store_ok_def)
  moreover have "locks_ok ?s"
    using inv at p by (auto simp: lvl_inv_def locks_ok_def)
  ultimately show ?thesis
    using inv p by (auto simp: lvl_inv_def cleared_def)
qed

lemma answer_ok_append: "b \<le> b' \<Longrightarrow> answer_ok cv hss (l, st, how, a, b) \<Longrightarrow> answer_ok cv (hss @ hss') (l, st, how, a, b')"
  by (auto simp: answer_ok_def nth_append intro: order.trans)

lemma query_ok_append:
  assumes "\<not> reading (InQuery lvl q)"
    and "eCache (eng s') = eCache (eng s)" "past s' = past s @ hss" "since s' t = since s t"
    and "query_ok s t lvl q"
  shows "query_ok s' t lvl q"
  using assms by (cases q) (auto intro: answer_ok_append [rotated])

lemma unlock_inv:
  assumes inv: "lvl_inv lvls s" and at: "writing (place s t)" "change_of (place s t) = Some CUnlock"
  shows "lvl_inv lvls (unlock_step t s)"
proof -
  let ?s = "unlock_step t s"
  note alone = writing_alone [OF inv at(1)]
  have ok: "place_ok lvls s u (place s u)" and "cleared (change_of (place s t)) (eCache (eng s))"
    and store: "store_ok lvls s" and locks: "locks_ok s" for u
    using inv by (simp_all add: lvl_inv_def)
  then have "\<And>j. lc_covers (eCache (eng s)) j \<Longrightarrow> no_answer (eCache (eng s)) j"
    by (simp add: at cleared_def)
  then have "store_ok lvls ?s"
    using store
    by (auto simp: store_ok_def unlock_step_def cache_coherent_def no_answer_def intro: answer_ok_append)
  moreover have "locks_ok ?s"
    using locks alone by (auto simp: locks_ok_def unlock_step_def)
  moreover have "place_ok lvls ?s u (place s u)" for u
    using ok [of u] alone(3) [of u]
    by (cases "place s u") (auto simp: unlock_step_def intro: query_ok_append)
  moreover have "\<not> changed (place s u)" if "u \<noteq> t" for u
    using that alone(4) changed_writing by blast
  moreover have "cleared (change_of (place s u)) (eCache (eng s))" for u
    using inv by (simp add: lvl_inv_def)
  ultimately show ?thesis
    by (auto simp: lvl_inv_def unlock_step_def cleared_def)
qed

lemma add_step_inv:
  assumes inv: "lvl_inv lvls s" and at: "place s t = InAdd made p" and step: "add_step t made p s = Some s'"
  shows "lvl_inv lvls s'"
proof (cases p)
  case CCheck
  with at step show ?thesis
    by (auto intro!: inv_goto [OF inv] simp: cleared_def split: sum.splits if_splits)
next
  case CLock
  with at step show ?thesis by (auto elim!: lock_inv [OF inv])
next
  case CChange
  with at step show ?thesis by (auto intro!: change_inv [OF inv] split: sum.splits)
next
  case (CClear i)
  with at step show ?thesis
    by (auto intro!: resume_inv [OF inv, where locked = True and again = "\<lambda>j. InAdd made (CClear j)"])
next
  case CUnlock
  with at step show ?thesis by (auto intro!: unlock_inv [OF inv])
qed

lemma remove_step_inv:
  assumes inv: "lvl_inv lvls s" and at: "place s t = InRemove f p" and step: "remove_step t f p s = Some s'"
  shows "lvl_inv lvls s'"
proof (cases p)
  case CCheck
  with at step show ?thesis by (auto intro!: inv_goto [OF inv] simp: cleared_def)
next
  case CLock
  with at step show ?thesis by (auto elim!: lock_inv [OF inv])
next
  case CChange
  with at step show ?thesis by (auto intro!: change_inv [OF inv])
next
  case (CClear i)
  with at step show ?thesis
    by (auto intro!: resume_inv [OF inv, where locked = True and again = "\<lambda>j. InRemove f (CClear j)"])
next
  case CUnlock
  with at step show ?thesis by (auto intro!: unlock_inv [OF inv])
qed

lemma shutdown_step_inv:
  assumes inv: "lvl_inv lvls s" and at: "place s t = InShutdown i"
  shows "lvl_inv lvls (shutdown_step t i s)"
proof (cases i)
  case None
  have "lvl_inv lvls (s\<lparr>eng := (eng s)\<lparr>eShutdown := True\<rparr>\<rparr>)"
    by (rule inv_engine [OF inv]) simp_all
  then show ?thesis
    using None at by (auto intro!: inv_goto inv simp: cleared_def)
next
  case (Some j)
  with at show ?thesis
    by (auto intro!: resume_inv [OF inv, where locked = False and again = "\<lambda>j. InShutdown (Some j)"])
qed

lemma advance_inv:
  assumes inv: "lvl_inv lvls s" and step: "advance t (place s t) s = Some s'"
  shows "lvl_inv lvls s'"
proof (cases "place s t")
  case (InQuery lvl q)
  with step query_step_inv [OF inv] show ?thesis by simp
next
  case (InAdd made p)
  with step add_step_inv [OF inv] show ?thesis by simp
next
  case (InRemove f p)
  with step remove_step_inv [OF inv] show ?thesis by simp
next
  case (InReset i)
  with step show ?thesis
    by (auto intro!: resume_inv [OF inv, where locked = False and again = InReset])
next
  case (InShutdown i)
  with step shutdown_step_inv [OF inv] show ?thesis by auto
qed (use step in simp)

lemma enter_inv:
  assumes inv: "lvl_inv lvls s" and at: "place s t = Idle" and p: "first_place lvls p"
  shows "lvl_inv lvls (goto t p (s\<lparr>since := (since s)(t := length (past s) - 1)\<rparr>))"
proof -
  let ?s = "s\<lparr>since := (since s)(t := length (past s) - 1)\<rparr>"
  have "place_ok lvls ?s u (place s u)" for u
  proof (cases "u = t")
    case False
    then have "place_ok lvls ?s u (place s u) = place_ok lvls s u (place s u)"
      by (intro place_ok_cong) simp_all
    with inv show ?thesis by (simp add: lvl_inv_def)
  qed (simp add: at)
  moreover have "store_ok lvls ?s = store_ok lvls s"
    by (rule store_ok_cong) simp_all
  moreover have "locks_ok ?s = locks_ok s"
    by (simp add: locks_ok_def)
  ultimately have inv': "lvl_inv lvls ?s"
    using inv by (simp add: lvl_inv_def)
  have "past s \<noteq> []"
    using inv by (simp add: lvl_inv_def store_ok_def)
  with p have "\<not> reading p \<and> \<not> writing p \<and> \<not> changed p \<and> place_ok lvls ?s t p \<and>
      cleared (change_of p) (eCache (eng ?s))"
    by (cases rule: first_place.cases) (auto simp: cleared_def)
  then show ?thesis
    by (intro inv_goto [OF inv']) (simp_all add: at)
qed

lemma lvl_step_inv: "lvl_step lvls False s s' \<Longrightarrow> lvl_inv lvls s \<Longrightarrow> lvl_inv lvls s'"
  by (cases rule: lvl_step.cases) (use enter_inv advance_inv in \<open>blast+\<close>)

lemma lvl_inv_init: "engine_inv lvls lgr \<Longrightarrow> lvl_inv lvls (lsys_init lgr)"
  by (simp add: lvl_inv_def locks_ok_def store_ok_def lsys_init_def engine_inv_def cleared_def)

lemma lvl_inv_reach:
  "(lvl_step lvls False)\<^sup>*\<^sup>* (lsys_init lgr) s \<Longrightarrow> engine_inv lvls lgr \<Longrightarrow> lvl_inv lvls s"
  by (induction rule: rtranclp_induct) (auto intro: lvl_inv_init lvl_step_inv)

section \<open>A call on its own\<close>

text \<open>
  With the lock free, the steps of a query, one after the other, are \<^verbatim>\<open>IsLevelEnabled\<close> of the theory
  \<open>Engine\<close>: it ends, with the same answer and the same engine.
\<close>

inductive alone :: "nat \<Rightarrow> 't lsys \<Rightarrow> 't lsys \<Rightarrow> bool" for t where
  stop: "alone t s s"
| move: "advance t (place s t) s = Some s' \<Longrightarrow> alone t s' s'' \<Longrightarrow> alone t s s''"

lemma alone_step: "advance t (place s t) s = Some s' \<Longrightarrow> alone t s s'"
  by (rule alone.move [OF _ alone.stop])

lemma alone_trans: "alone t s s' \<Longrightarrow> alone t s' s'' \<Longrightarrow> alone t s s''"
  by (induction rule: alone.induct) (auto intro: alone.move)

lemma alone_reaches: "alone t s s' \<Longrightarrow> (lvl_step lvls mut)\<^sup>*\<^sup>* s s'"
  by (induction rule: alone.induct) (auto intro: converse_rtranclp_into_rtranclp lvl_step.move)

lemma goto_goto [simp]: "goto t p (goto t q s) = goto t p s"
  by (simp add: goto_def)

lemma alone_scan:
  "k \<le> length (eHosts (eng s)) \<Longrightarrow>
   alone t (goto t (InQuery lvl (QHost k status)) s)
     (goto t (InQuery lvl (QPut (scan_hosts (drop k (eHosts (eng s))) lvl status))) s)"
proof (induction "length (eHosts (eng s)) - k" arbitrary: k status)
  case 0
  then show ?case by (intro alone_step) simp
next
  case (Suc n)
  let ?s = "\<lambda>p. goto t (InQuery lvl p) s" and ?h = "eHosts (eng s) ! k"
  have k: "k < length (eHosts (eng s))"
    using Suc by simp
  then have tail: "drop k (eHosts (eng s)) = ?h # drop (Suc k) (eHosts (eng s))"
    by (simp add: Cons_nth_drop_Suc)
  have next_host: "alone t (?s (QHost k status)) (?s (QHost (Suc k) st)) \<Longrightarrow>
      alone t (?s (QHost k status)) (?s (QPut (scan_hosts (drop (Suc k) (eHosts (eng s))) lvl st)))" for st
    by (erule alone_trans, rule Suc.hyps(1)) (use k Suc.hyps(2) in simp_all)
  obtain en level where h: "host_IsLevelEnabled ?h lvl = (en, level)"
    by (cases "host_IsLevelEnabled ?h lvl")
  show ?case
  proof (cases "en \<and> \<not> (Stacktrace level \<or> IsStacktraceNeeded (hFormatter ?h)) \<or> \<not> en")
    case True
    then show ?thesis
      using next_host [OF alone_step] by (auto simp: tail h k)
  next
    case False
    then show ?thesis
      by (intro alone_step) (simp add: tail h k)
  qed
qed

lemma query_ends:
  assumes "alone t s (goto t (InQuery lvl (QReturn status how)) s1)"
    and "eng s1 = lgr" "answered s1 = answered s" "since s1 t = since s t" "past s1 = past s"
  shows "\<exists>s' how. alone t s s' \<and> eng s' = lgr \<and> place s' t = Idle \<and>
    answered s' = answered s @ [(lvl, status, how, since s t, length (past s) - 1)]"
proof -
  let ?s = "goto t (InQuery lvl (QReturn status how)) s1"
  obtain s' where s': "advance t (place ?s t) ?s = Some s'"
    by simp
  with assms(1) have "alone t s s'"
    by (blast intro: alone_trans alone_step)
  moreover have "eng s' = lgr \<and> place s' t = Idle \<and>
      answered s' = answered s @ [(lvl, status, how, since s t, length (past s) - 1)]"
    using s' assms(2-) by auto
  ultimately show ?thesis by blast
qed

text \<open>With the lock free, a goroutine that runs alone gets from a miss of the cache to the store of its answer.\<close>

lemma query_scans:
  assumes up: "\<not> eShutdown (eng s)" and at: "place s t = InQuery lvl QLoad" and free: "tmuxWriter s = None"
    and miss: "lc_get (eCache (eng s)) (ID lvl) = Ret (st, False)"
  shows "alone t s (goto t (InQuery lvl (QPut (scan_hosts (eHosts (eng s)) lvl zero_status)))
    (s\<lparr>tmuxReaders := insert t (tmuxReaders s)\<rparr>))"
proof -
  let ?s = "s\<lparr>tmuxReaders := insert t (tmuxReaders s)\<rparr>"
  have "alone t s (goto t (InQuery lvl QGet) s)"
    using up at by (intro alone_step) simp
  then have "alone t s (goto t (InQuery lvl QLock) s)"
    by (rule alone_trans, intro alone_step) (simp add: miss)
  moreover have "alone t (goto t (InQuery lvl QLock) s) (goto t (InQuery lvl (QHost 0 zero_status)) ?s)"
    using free by (intro alone_step) (simp add: goto_def)
  moreover have "alone t (goto t (InQuery lvl (QHost 0 zero_status)) ?s)
      (goto t (InQuery lvl (QPut (scan_hosts (eHosts (eng s)) lvl zero_status))) ?s)"
    using alone_scan [of 0 ?s t lvl zero_status] by simp
  ultimately show ?thesis
    by (blast intro: alone_trans)
qed


section \<open>Runs\<close>

text \<open>A schedule: which goroutine begins a call, and which one takes its next step.\<close>

datatype 't sched = Enter nat "'t call_pc" | Move nat

fun lrun :: "'t sched list \<Rightarrow> 't lsys \<Rightarrow> 't lsys option" where
  "lrun [] s = Some s"
| "lrun (Enter t p # es) s =
     (if place s t = Idle
      then lrun es (goto t p (s\<lparr>since := (since s)(t := length (past s) - 1)\<rparr>)) else None)"
| "lrun (Move t # es) s = (case advance t (place s t) s of None \<Rightarrow> None | Some s' \<Rightarrow> lrun es s')"

lemma lrun_reaches:
  "lrun es s = Some s' \<Longrightarrow> \<forall>t p. Enter t p \<in> set es \<longrightarrow> first_place lvls p \<Longrightarrow>
   (lvl_step lvls mut)\<^sup>*\<^sup>* s s'"
proof (induction es arbitrary: s)
  case (Cons e es)
  have "\<exists>s1. lvl_step lvls mut s s1 \<and> lrun es s1 = Some s'"
  proof (cases e)
    case (Enter t p)
    with Cons.prems lvl_step.enter [of s t lvls p mut] show ?thesis
      by (auto split: if_splits)
  next
    case (Move t)
    with Cons.prems lvl_step.move [of t s _ lvls mut] show ?thesis
      by (auto split: option.splits)
  qed
  with Cons.IH Cons.prems(2) show ?case
    by (auto intro: converse_rtranclp_into_rtranclp)
qed simp

text \<open>An engine as \<^verbatim>\<open>New\<close> makes it, with the cache in an array.\<close>

definition demo_lgr :: "'t host list \<Rightarrow> 't engine" where
  "demo_lgr hs = \<lparr>eOpts = default_options, eCache = lc_setup (ArrayCache zero_array_cache), eHosts = hs,
     eShutdown = False, eErrors = []\<rparr>"

lemma demo_lgr_cache: "demo_lgr hs = \<lparr>eOpts = default_options, eCache = ArrayCache (array_clear zero_array_cache),
    eHosts = hs, eShutdown = False, eErrors = []\<rparr>"
  by (simp add: demo_lgr_def array_setup_def)

lemma fresh_array_get: "i \<le> MaxLevelID \<Longrightarrow> array_get (array_clear zero_array_cache) i = Ret (empty_status, False)"
  by (simp add: arrc.get_clear)

lemma fresh_array_put:
  "i \<le> MaxLevelID \<Longrightarrow> array_cache_inv c \<Longrightarrow>
   array_put (array_clear c) i st = Ret ((array_clear c)\<lparr>arr := (arr (array_clear c))[unat i := st]\<rparr>, None)"
  by (simp add: array_put_covered)

lemma fresh_array_got:
  "i \<le> MaxLevelID \<Longrightarrow> array_cache_inv c \<Longrightarrow> \<not> is_empty st \<Longrightarrow>
   array_get ((array_clear c)\<lparr>arr := (arr (array_clear c))[unat i := st]\<rparr>) i = Ret (st, True)"
  using arrc.put_covered [of "array_clear c" i st] by (auto simp: array_put_covered)

lemma idle_upd [simp]: "(\<lambda>t. Idle)(u := Idle) = (\<lambda>t. Idle)"
  by auto

lemma demo_lgr_New: "engine_New [] [] = Inr (demo_lgr [])"
  by (simp add: engine_New_def demo_lgr_def default_options_def Let_def)

lemma demo_lgr_inv: "engine_inv lvls (demo_lgr hs)"
  by (simp add: engine_inv_def demo_lgr_def lc_setup_eq_clear lc_inv_clear lc.coherent_clear del: lc_setup.simps lc_clear.simps)

section \<open>Answers under interleaving\<close>

text \<open>
  C19: Whatever \<^verbatim>\<open>AddTarget\<close>, \<^verbatim>\<open>RemoveTargets\<close>, \<^verbatim>\<open>ResetLevelCache\<close>, \<^verbatim>\<open>Shutdown\<close> and other queries do
  meanwhile, step by step, an answer of \<^verbatim>\<open>IsLevelEnabled\<close> that does not come from the shutdown flag is
  what the loop over the targets finds for a list of targets that was in force at some moment of the
  call. The lock has no reader beside a writer, and when all calls are over, every answer in the
  cache is right for the targets there are. (For the IDs the cache covers, and one level per ID.)
\<close>

theorem answers_linearizable:
  assumes "engine_inv lvls lgr" "(lvl_step lvls False)\<^sup>*\<^sup>* (lsys_init lgr) s"
  shows "(lvl, status, how, a, b) \<in> set (answered s) \<longrightarrow>
      (if how = FromFlag then status = zero_status
       else lc_covers (eCache (eng s)) (ID lvl) \<longrightarrow>
         (\<exists>k. a \<le> k \<and> k \<le> b \<and> k < length (past s) \<and> status = scan_hosts (past s ! k) lvl zero_status)) \<and>
    (tmuxWriter s \<noteq> None \<longrightarrow> tmuxReaders s = {}) \<and>
    ((\<forall>t. place s t = Idle) \<longrightarrow> eHosts (eng s) = last (past s) \<and> engine_inv lvls (eng s))"
proof -
  have inv: "lvl_inv lvls s"
    using lvl_inv_reach assms by blast
  then have "eHosts (eng s) = last (past s) \<and> engine_inv lvls (eng s)" if "\<forall>t. place s t = Idle"
    using that by (auto simp: lvl_inv_def store_ok_def engine_inv_def)
  with inv show ?thesis
    by (auto simp: lvl_inv_def store_ok_def locks_ok_def answer_ok_def)
qed

text \<open>
  A query that misses, an \<^verbatim>\<open>AddTarget\<close> that runs to its end meanwhile, and the rest of the query: its
  answer is that of the targets after the change, the last of the two lists it saw.
\<close>

theorem answers_linearizable_witness:
  "\<exists>s. (lvl_step (\<lambda>i. std_level i ''any'' NoColor) False)\<^sup>*\<^sup>* (lsys_init (demo_lgr [] :: nat engine)) s \<and>
     answered s = [(std_level 4 ''any'' NoColor, zero_status\<lparr>Enabled := True\<rparr>, FromTargets, 0, 1)] \<and>
     zero_status\<lparr>Enabled := True\<rparr> = scan_hosts [tiny_host] (std_level 4 ''any'' NoColor) zero_status \<and>
     engine_inv (\<lambda>i. std_level i ''any'' NoColor) (eng s)"
proof -
  let ?lvls = "\<lambda>i. std_level i ''any'' NoColor"
  let ?l = "std_level 4 ''any'' NoColor"
  let ?es = "[Enter 0 (InQuery ?l QLoad), Move 0, Move 0, Enter 1 (InAdd (Inr tiny_host) CCheck), Move 1,
      Move 1, Move 1, Move 1, Move 1, Move 0, Move 0, Move 0, Move 0, Move 0]"
  have host: "host_IsLevelEnabled tiny_host ?l = (True, Info)" "\<not> IsStacktraceNeeded (hFormatter tiny_host)"
      "ID ?l = 4" "\<not> Stacktrace Info"
    by (simp_all add: tiny_host_def host_IsLevelEnabled_def StdFilter_GetEnabledLevel_def std_level_def
        std_level_of_def Info_def zero_level_def std_level_IDs [unfolded std_level_defs])
  have "\<exists>s. lrun ?es (lsys_init (demo_lgr [])) = Some s \<and> (\<forall>t. place s t = Idle) \<and>
      answered s = [(?l, zero_status\<lparr>Enabled := True\<rparr>, FromTargets, 0, 1)] \<and> past s = [[], [tiny_host]]"
    by (simp add: lsys_init_def demo_lgr_cache lock_step_def resume_def unlock_step_def host
        fresh_array_get fresh_array_put goto_def set_cache_def MaxLevelID_def)
  then obtain s where run: "lrun ?es (lsys_init (demo_lgr [])) = Some s"
    and s: "\<forall>t. place s t = Idle" "answered s = [(?l, zero_status\<lparr>Enabled := True\<rparr>, FromTargets, 0, 1)]"
      "past s = [[], [tiny_host]]"
    by blast
  have reach: "(lvl_step ?lvls False)\<^sup>*\<^sup>* (lsys_init (demo_lgr [])) s"
    by (rule lrun_reaches [OF run]) (auto simp: std_level_def intro: first_place.intros)
  have "lc_covers (eCache (eng s)) 4"
    by (rule lc_covers_below) (simp add: MaxLevelID_def)
  with answers_linearizable [OF demo_lgr_inv reach, of ?l _ FromTargets 0 1] s
  have "engine_inv ?lvls (eng s)"
    by simp
  moreover have "zero_status\<lparr>Enabled := True\<rparr> = scan_hosts [tiny_host] ?l zero_status"
    by (simp add: tiny_host_def host_IsLevelEnabled_def StdFilter_GetEnabledLevel_def std_level_def Info_def
        std_level_of_def zero_level_def)
  ultimately show ?thesis
    using reach s(2) by (intro exI [of _ s] conjI)
qed


section \<open>A reset that is lost\<close>

lemma host_custom:
  "hFilter h = CustomFilter cf \<Longrightarrow> enables_level h lvl \<longleftrightarrow> levels_get cf (ID lvl) \<noteq> None"
  by (simp add: enables_level_def host_IsLevelEnabled_def CustomFilter_GetEnabledLevel_def Let_def
      split: option.split)

text \<open>
  An application that enables a level on the filter of a target, with \<^verbatim>\<open>CustomFilter.Add\<close>, and
  then, as it must, calls \<^verbatim>\<open>ResetLevelCache\<close>, may still have the level disabled when every call is
  over: the reset does not take \<^verbatim>\<open>tmux\<close>, and a query that had looked at the targets before the change
  stores its answer after the reset. All later queries get that answer from the cache.
\<close>

theorem reset_loses_race:
  assumes lvl: "lvls (ID lvl) = lvl" "ID lvl \<le> MaxLevelID"
    and h: "hFilter h = CustomFilter cf" "levels_get cf (ID lvl) = None"
    and ls: "levels_get (CustomFilter_Add cf ls) (ID lvl) \<noteq> None"
  defines "h' \<equiv> h\<lparr>hFilter := CustomFilter (CustomFilter_Add cf ls)\<rparr>"
  shows "\<exists>s1 s2 s3. (lvl_step lvls False)\<^sup>*\<^sup>* (lsys_init (demo_lgr [h])) s1 \<and>
    s2 = s1\<lparr>eng := (eng s1)\<lparr>eHosts := [h']\<rparr>\<rparr> \<and> lvl_step lvls True s1 s2 \<and> place s2 1 = Idle \<and>
    (lvl_step lvls False)\<^sup>*\<^sup>* (goto 1 (InReset 0) s2) s3 \<and> (\<forall>t. place s3 t = Idle) \<and>
    engine_IsLevelEnabled (eng s3) lvl = Ret (zero_status, eng s3) \<and> \<not> eShutdown (eng s3) \<and>
    Enabled (scan_hosts (eHosts (eng s3)) lvl zero_status)"
proof -
  let ?a = "array_clear zero_array_cache"
  let ?e1 = "[Enter 0 (InQuery lvl QLoad), Move 0, Move 0, Move 0, Move 0, Move 0]"
  let ?e2 = "[Move 1, Move 0, Move 0]"
  have off: "host_IsLevelEnabled h lvl = (False, zero_level)"
    using h by (simp add: host_IsLevelEnabled_def CustomFilter_GetEnabledLevel_def)
  obtain s1 where run1: "lrun ?e1 (lsys_init (demo_lgr [h])) = Some s1"
    and s1: "s1 = \<lparr>eng = demo_lgr [h], tmuxWriter = None, tmuxReaders = {0},
      place = (\<lambda>t. Idle)(0 := InQuery lvl (QPut zero_status)), past = [[h]], since = \<lambda>t. 0, answered = []\<rparr>"
    using lvl by (simp add: lsys_init_def demo_lgr_cache fresh_array_get goto_def off fun_upd_idem)
  let ?s2 = "s1\<lparr>eng := (eng s1)\<lparr>eHosts := [h']\<rparr>\<rparr>"
  have "lvl_step lvls True s1 ?s2"
    using lvl_step.refilter [of True 0 s1 cf lvls ls] h by (simp add: s1 demo_lgr_def h'_def)
  moreover have "(lvl_step lvls False)\<^sup>*\<^sup>* (lsys_init (demo_lgr [h])) s1"
    by (rule lrun_reaches [OF run1]) (use lvl in \<open>auto intro: first_place.intros\<close>)
  moreover obtain s3 where run2: "lrun ?e2 (goto 1 (InReset 0) ?s2) = Some s3"
    and s3: "\<forall>t. place s3 t = Idle" "eHosts (eng s3) = [h']" "\<not> eShutdown (eng s3)"
      "lc_get (eCache (eng s3)) (ID lvl) = Ret (zero_status, True)"
    using lvl
    by (simp add: s1 demo_lgr_cache resume_def goto_def set_cache_def fresh_array_put fresh_array_got)
  moreover have "(lvl_step lvls False)\<^sup>*\<^sup>* (goto 1 (InReset 0) ?s2) s3"
    by (rule lrun_reaches [OF run2]) simp
  moreover have "engine_IsLevelEnabled (eng s3) lvl = Ret (zero_status, eng s3)"
    using s3 by (simp add: engine_IsLevelEnabled_def memo_status_def)
  moreover have "Enabled (scan_hosts (eHosts (eng s3)) lvl zero_status)"
    using host_custom [of h' "CustomFilter_Add cf ls" lvl] ls by (simp add: s3 scan_hosts_eq h'_def)
  moreover have "place ?s2 1 = Idle"
    by (simp add: s1)
  ultimately show ?thesis by blast
qed

theorem reset_loses_race_witness:
  "\<exists>s1 s2 s3. let h = tiny_host\<lparr>hFilter := CustomFilter zero_CustomFilter\<rparr>;
       h' = tiny_host\<lparr>hFilter := CustomFilter (CustomFilter_Add zero_CustomFilter [Info])\<rparr>
     in (lvl_step (\<lambda>i. Info) False)\<^sup>*\<^sup>* (lsys_init (demo_lgr [h])) s1 \<and>
        s2 = s1\<lparr>eng := (eng s1)\<lparr>eHosts := [h']\<rparr>\<rparr> \<and>
        (lvl_step (\<lambda>i. Info) False)\<^sup>*\<^sup>* (goto 1 (InReset 0) s2) s3 \<and> (\<forall>t. place s3 t = Idle) \<and>
        engine_IsLevelEnabled (eng s3) Info = Ret (zero_status, eng s3)"
proof -
  have "ID Info \<le> MaxLevelID"
    by (simp add: MaxLevelID_def)
  then show ?thesis
    using reset_loses_race [of "\<lambda>i. Info" Info "tiny_host\<lparr>hFilter := CustomFilter zero_CustomFilter\<rparr>"
        zero_CustomFilter "[Info]"]
    by (auto simp: levels_get_Add Let_def)
qed

end
