(* ===== verification/JsonFormatters.thy ===== *)
theory JsonFormatters
  imports Formatter
begin

text \<open>
  The formatters \<^verbatim>\<open>JSON\<close> and \<^verbatim>\<open>Gelf\<close> (\<^verbatim>\<open>formatters/json.go\<close>, \<^verbatim>\<open>formatters/gelf.go\<close>). The encoder is a
  third-party library: what the code does with it is the list of calls it makes, and the text of
  these calls is a parameter.
\<close>

section \<open>The encoder\<close>

text \<open>
  A call on the encoder. \<open>AddObjectKeyOf\<close> and \<open>AddArrayKeyOf\<close> hand it a value of the application
  that marshals itself; \<open>AddObjectKey\<close> and \<open>AddArrayKey\<close> one of the program's own, by the calls its
  method makes (for an array, those of each element). A slice of no fields makes the same empty
  object whether it is nil or not. Floats are bit patterns.
\<close>

datatype enc_call =
    AddStringKey string string
  | AddBoolKey string bool
  | AddIntKey string int
  | AddInt64Key string int64
  | AddUint64Key string "64 word"
  | AddUint32Key string "32 word"
  | AddFloat64Key string "64 word"
  | AddTimeKey string gotime string
  | AddEmbeddedJSONKey string bytes
  | AddObjectKeyOf string goval
  | AddArrayKeyOf string goval
  | AddObjectKey string "enc_call list"
  | AddArrayKey string "enc_call list list"

fun call_key :: "enc_call \<Rightarrow> string" where
  "call_key (AddStringKey k s) = k"
| "call_key (AddBoolKey k b) = k"
| "call_key (AddIntKey k i) = k"
| "call_key (AddInt64Key k i) = k"
| "call_key (AddUint64Key k i) = k"
| "call_key (AddUint32Key k i) = k"
| "call_key (AddFloat64Key k x) = k"
| "call_key (AddTimeKey k t f) = k"
| "call_key (AddEmbeddedJSONKey k b) = k"
| "call_key (AddObjectKeyOf k v) = k"
| "call_key (AddArrayKeyOf k v) = k"
| "call_key (AddObjectKey k cs) = k"
| "call_key (AddArrayKey k cs) = k"

text \<open>
  The parameters: which values implement \<^verbatim>\<open>gojay.MarshalerJSONObject\<close> and
  \<^verbatim>\<open>gojay.MarshalerJSONArray\<close>, the results of \<^verbatim>\<open>json.Marshal\<close> and of \<^verbatim>\<open>EncodeObject\<close> for an object
  that makes the given calls, the texts of errors, the host name where none is configured, and
  the conversion and arithmetic of floats.
\<close>

record json_env =
  is_json_object :: "goval \<Rightarrow> bool"
  is_json_array :: "goval \<Rightarrow> bool"
  json_Marshal :: "goval \<Rightarrow> go_error + bytes"
  EncodeObject :: "enc_call list \<Rightarrow> go_error + bytes"
  error_text :: "go_error \<Rightarrow> string"
  os_Hostname :: "go_error + string"
  egress_IP :: "go_error + string"
  f64_of_int :: "int \<Rightarrow> 64 word"
  f64_add :: "64 word \<Rightarrow> 64 word \<Rightarrow> 64 word"
  f64_div :: "64 word \<Rightarrow> 64 word \<Rightarrow> 64 word"

section \<open>Fields\<close>

text \<open>\<^verbatim>\<open>_ = field.ValueString(&buf, nil)\<close> on an empty string builder: the error is dropped.\<close>

definition value_string :: "fmt_env \<Rightarrow> field \<Rightarrow> string outcome" where
  "value_string env f =
     bind_outcome (ValueString env f buffer_Write None) (\<lambda>a. Ret (snd (a [])))"

definition encodeField :: "fmt_env \<Rightarrow> json_env \<Rightarrow> field \<Rightarrow> (go_error + enc_call) outcome" where
  "encodeField env js f =
     (if is_json_object js (Interface f) then Ret (Inr (AddObjectKeyOf (Key f) (Interface f)))
      else if is_json_array js (Interface f) then Ret (Inr (AddArrayKeyOf (Key f) (Interface f)))
      else if FType f = StringType then Ret (Inr (AddStringKey (Key f) (FString f)))
      else if FType f = BoolType then Ret (Inr (AddBoolKey (Key f) (Integer f \<noteq> 0)))
      else if FType f \<in> {StructType, ArrayType, MapType, UnknownType}
      then Ret (case json_Marshal js (Interface f) of
                  Inl e \<Rightarrow> Inl e | Inr b \<Rightarrow> Inr (AddEmbeddedJSONKey (Key f) b))
      else if FType f \<in> {StringerType, ErrorType, TimestampMillisType, TimeType, DurationType, BinaryType}
      then bind_outcome (value_string env f) (\<lambda>s. Ret (Inr (AddStringKey (Key f) s)))
      else if FType f \<in> {Int64Type, Int32Type, IntType} then Ret (Inr (AddInt64Key (Key f) (Integer f)))
      else if FType f \<in> {Uint64Type, Uint32Type, UintType}
      then Ret (Inr (AddUint64Key (Key f) (Integer f)))
      else if FType f \<in> {Float64Type, Float32Type} then Ret (Inr (AddFloat64Key (Key f) (Float f)))
      else case FType f of OtherType n \<Rightarrow> Ret (Inl (ErrorText (''invalid field type: '' @ dec_nat (unat n)))))"

text \<open>
  One field of a list: an error becomes a string under the same key. \<open>err_txt\<close> is the text the
  caller makes of the error.
\<close>

definition encode_or_tell ::
  "fmt_env \<Rightarrow> json_env \<Rightarrow> (go_error \<Rightarrow> string) \<Rightarrow> field \<Rightarrow> enc_call outcome" where
  "encode_or_tell env js err_txt f =
     bind_outcome (encodeField env js f) (\<lambda>res.
       Ret (case res of Inr call \<Rightarrow> call | Inl e \<Rightarrow> AddStringKey (Key f) (err_txt e)))"

fun encode_all ::
  "fmt_env \<Rightarrow> json_env \<Rightarrow> (go_error \<Rightarrow> string) \<Rightarrow> field list \<Rightarrow> enc_call list outcome" where
  "encode_all env js err_txt [] = Ret []"
| "encode_all env js err_txt (f # fs) =
     bind_outcome (encode_or_tell env js err_txt f) (\<lambda>c.
       bind_outcome (encode_all env js err_txt fs) (\<lambda>cs. Ret (c # cs)))"

text \<open>The texts of \<^verbatim>\<open>JSON\<close> and of \<^verbatim>\<open>Gelf\<close> are the same.\<close>

definition field_error_text :: "json_env \<Rightarrow> go_error \<Rightarrow> string" where
  "field_error_text js e = ''<error encoding field: '' @ error_text js e @ ''>''"

definition FieldArray_calls :: "fmt_env \<Rightarrow> json_env \<Rightarrow> field list \<Rightarrow> enc_call list outcome" where
  "FieldArray_calls env js fa = encode_all env js (field_error_text js) fa"

text \<open>The conversions of \<^verbatim>\<open>Stringer\<close>s, errors, times and bytes never panic, so no field does.\<close>

lemma value_string_returns:
  "FType f \<in> {StringerType, ErrorType, TimestampMillisType, TimeType, DurationType, BinaryType} \<Longrightarrow>
   \<exists>s. value_string env f = Ret s"
  by (auto simp: value_string_def ValueString_def Let_def split: option.split goval.split)

lemma encode_or_tell_key:
  "\<exists>c. encode_or_tell env js err_txt f = Ret c \<and> call_key c = Key f"
proof (cases "FType f \<in> {StringerType, ErrorType, TimestampMillisType, TimeType, DurationType, BinaryType}")
  case True
  then obtain s where "value_string env f = Ret s"
    using value_string_returns by blast
  with True show ?thesis
    by (auto simp: encode_or_tell_def encodeField_def split: sum.split)
next
  case False
  then show ?thesis
    by (cases "FType f") (auto simp: encode_or_tell_def encodeField_def split: sum.split)
qed

lemma encode_all_keys: "\<exists>cs. encode_all env js err_txt fs = Ret cs \<and> map call_key cs = map Key fs"
proof (induction fs)
  case (Cons f fs)
  with encode_or_tell_key [of env js err_txt f] show ?case by auto
qed simp


section \<open>JSON\<close>

record json =
  jDisableTimestamp :: bool
  jDisableLevel :: bool
  jDisableMsg :: bool
  jDisableFields :: bool
  jDisableStacktrace :: bool
  jEnableCaller :: bool
  jTimestampFormat :: string
  KeyTimestamp :: string
  KeyLevel :: string
  KeyMsg :: string
  KeyGroupFields :: string
  KeyStacktrace :: string
  KeyCaller :: string
  jFieldSorter :: "(field list \<Rightarrow> field list) option"
  jOnce :: bool

definition zero_JSON :: json where
  "zero_JSON =
     \<lparr>jDisableTimestamp = False, jDisableLevel = False, jDisableMsg = False, jDisableFields = False,
      jDisableStacktrace = False, jEnableCaller = False, jTimestampFormat = [], KeyTimestamp = [],
      KeyLevel = [], KeyMsg = [], KeyGroupFields = [], KeyStacktrace = [], KeyCaller = [],
      jFieldSorter = None, jOnce = False\<rparr>"

definition JSON_CheckValid :: "json \<Rightarrow> go_error option" where
  "JSON_CheckValid j = None"

definition JSON_IsStacktraceNeeded :: "json \<Rightarrow> bool" where
  "JSON_IsStacktraceNeeded j = jEnableCaller j"

definition applyDefaultKeyNames :: "json \<Rightarrow> json" where
  "applyDefaultKeyNames j =
     (let j = (if KeyTimestamp j = [] then j\<lparr>KeyTimestamp := ''timestamp''\<rparr> else j);
          j = (if KeyLevel j = [] then j\<lparr>KeyLevel := ''level''\<rparr> else j);
          j = (if KeyMsg j = [] then j\<lparr>KeyMsg := ''msg''\<rparr> else j);
          j = (if KeyStacktrace j = [] then j\<lparr>KeyStacktrace := ''stacktrace''\<rparr> else j);
          j = (if KeyCaller j = [] then j\<lparr>KeyCaller := ''caller''\<rparr> else j)
      in j)"

text \<open>The keys \<^verbatim>\<open>prefixCollision\<close> avoids: the key of the caller is not among them.\<close>

definition reserved_keys :: "json \<Rightarrow> string list" where
  "reserved_keys j = [KeyTimestamp j, KeyLevel j, KeyMsg j, KeyStacktrace j]"

definition longest :: "string list \<Rightarrow> nat" where
  "longest ks = foldr (\<lambda>k n. max (length k) n) ks 0"

lemma length_le_longest: "k \<in> set ks \<Longrightarrow> length k \<le> longest ks"
  by (induction ks) (auto simp: longest_def)

function prefixCollision :: "json \<Rightarrow> field \<Rightarrow> field" where
  "prefixCollision j f =
     (if Key f \<in> set (reserved_keys j) then prefixCollision j (f\<lparr>Key := ''_'' @ Key f\<rparr>) else f)"
  by pat_completeness auto

termination
  by (relation "measure (\<lambda>(j, f). Suc (longest (reserved_keys j)) - length (Key f))")
    (auto dest: length_le_longest)

declare prefixCollision.simps [simp del]

definition stackFrame_calls :: "frame \<Rightarrow> enc_call list" where
  "stackFrame_calls f =
     [AddStringKey ''Function'' (Function f), AddStringKey ''File'' (File f), AddIntKey ''Line'' (Line f)]"

definition stackFrames_calls :: "frame list \<Rightarrow> enc_call list list" where
  "stackFrames_calls s = map stackFrame_calls s"

definition JSONLogRec_calls ::
  "fmt_env \<Rightarrow> json_env \<Rightarrow> json \<Rightarrow> log_rec \<Rightarrow> level \<Rightarrow> enc_call list outcome" where
  "JSONLogRec_calls env js j r lvl =
     (let head =
            (if \<not> jDisableTimestamp j
             then [AddTimeKey (KeyTimestamp j) (LogRec_Time r)
                     (if jTimestampFormat j = [] then DefTimestampFormat else jTimestampFormat j)]
             else []) @
            (if \<not> jDisableLevel j then [AddStringKey (KeyLevel j) (Name lvl)] else []) @
            (if \<not> jDisableMsg j then [AddStringKey (KeyMsg j) (LogRec_Msg r)] else []) @
            (if jEnableCaller j then [AddStringKey (KeyCaller j) (LogRec_Caller r)] else []);
          stack =
            (if Stacktrace lvl \<and> \<not> jDisableStacktrace j \<and> length (LogRec_StackFrames r) > 0
             then [AddArrayKey (KeyStacktrace j) (stackFrames_calls (LogRec_StackFrames r))]
             else [])
      in bind_outcome
           (if \<not> jDisableFields j
            then let flds = (case jFieldSorter j of None \<Rightarrow> LogRec_Fields r | Some srt \<Rightarrow> srt (LogRec_Fields r))
                 in if KeyGroupFields j \<noteq> []
                    then bind_outcome (FieldArray_calls env js flds)
                           (\<lambda>cs. Ret [AddObjectKey (KeyGroupFields j) cs])
                    else encode_all env js (field_error_text js) (map (prefixCollision j) flds)
            else Ret [])
           (\<lambda>mid. Ret (head @ mid @ stack)))"

text \<open>\<^verbatim>\<open>Format\<close>: the result, and the formatter, whose key names the first call fills in.\<close>

definition JSON_Format ::
  "fmt_env \<Rightarrow> json_env \<Rightarrow> json \<Rightarrow> log_rec \<Rightarrow> level \<Rightarrow> bytes option \<Rightarrow> (go_error + bytes) outcome \<times> json" where
  "JSON_Format env js j r lvl bufo =
     (let j = (if jOnce j then j else applyDefaultKeyNames (j\<lparr>jOnce := True\<rparr>));
          b = (case bufo of None \<Rightarrow> [] | Some b \<Rightarrow> b)
      in (bind_outcome (JSONLogRec_calls env js j r lvl) (\<lambda>cs.
            Ret (case EncodeObject js cs of Inl e \<Rightarrow> Inl e | Inr txt \<Rightarrow> Inr (b @ txt @ Newline))), j))"

section \<open>The keys of a JSON record\<close>

lemma prefixCollision_spec:
  "\<exists>n. prefixCollision j f = f\<lparr>Key := replicate n CHR ''_'' @ Key f\<rparr> \<and>
       (\<forall>m<n. replicate m CHR ''_'' @ Key f \<in> set (reserved_keys j)) \<and>
       Key (prefixCollision j f) \<notin> set (reserved_keys j)"
proof (induction j f rule: prefixCollision.induct)
  case (1 j f)
  show ?case
  proof (cases "Key f \<in> set (reserved_keys j)")
    case True
    from 1 [OF True] obtain n where
      n: "prefixCollision j (f\<lparr>Key := ''_'' @ Key f\<rparr>) = f\<lparr>Key := replicate n CHR ''_'' @ ''_'' @ Key f\<rparr>"
        "\<forall>m<n. replicate m CHR ''_'' @ ''_'' @ Key f \<in> set (reserved_keys j)"
        "Key (prefixCollision j (f\<lparr>Key := ''_'' @ Key f\<rparr>)) \<notin> set (reserved_keys j)"
      by auto
    have shift: "replicate m CHR ''_'' @ ''_'' @ k = replicate (Suc m) CHR ''_'' @ k" for m k
      by (induction m) simp_all
    have "replicate m CHR ''_'' @ Key f \<in> set (reserved_keys j)" if "m < Suc n" for m
      using that True n(2) shift by (cases m) (simp, metis Suc_less_SucD)
    with n True shift show ?thesis
      by (intro exI [of _ "Suc n"]) (simp only: prefixCollision.simps [of j f] if_True, simp)
  next
    case False
    then show ?thesis
      by (intro exI [of _ 0]) (simp add: prefixCollision.simps)
  qed
qed

definition json_fields :: "json \<Rightarrow> log_rec \<Rightarrow> field list" where
  "json_fields j r = (case jFieldSorter j of None \<Rightarrow> fieldsAll r | Some srt \<Rightarrow> srt (fieldsAll r))"

lemma json_record_keys_raw:
  "\<exists>cs. JSONLogRec_calls env js j r lvl = Ret cs \<and>
     map call_key cs =
       (if jDisableTimestamp j then [] else [KeyTimestamp j]) @
       (if jDisableLevel j then [] else [KeyLevel j]) @
       (if jDisableMsg j then [] else [KeyMsg j]) @
       (if jEnableCaller j then [KeyCaller j] else []) @
       (if jDisableFields j then []
        else if KeyGroupFields j \<noteq> [] then [KeyGroupFields j]
        else map (\<lambda>f. Key (prefixCollision j f)) (json_fields j r)) @
       (if Stacktrace lvl \<and> \<not> jDisableStacktrace j \<and> frames r \<noteq> [] then [KeyStacktrace j] else [])"
proof -
  have keys: "\<exists>cs. encode_all env js (field_error_text js) (map (prefixCollision j) fs) = Ret cs \<and>
      map call_key cs = map (\<lambda>f. Key (prefixCollision j f)) fs" for fs
    using encode_all_keys [of env js "field_error_text js" "map (prefixCollision j) fs"]
    by (simp add: comp_def)
  have flds: "(case jFieldSorter j of None \<Rightarrow> LogRec_Fields r | Some srt \<Rightarrow> srt (LogRec_Fields r)) = json_fields j r"
    by (simp add: json_fields_def LogRec_Fields_def split: option.split)
  obtain cs where cs: "encode_all env js (field_error_text js) (map (prefixCollision j) (json_fields j r)) = Ret cs"
      "map call_key cs = map (\<lambda>f. Key (prefixCollision j f)) (json_fields j r)"
    using keys by blast
  obtain gs where gs: "FieldArray_calls env js (json_fields j r) = Ret gs"
    using encode_all_keys unfolding FieldArray_calls_def by blast
  show ?thesis
    unfolding JSONLogRec_calls_def Let_def flds
    by (simp add: cs gs LogRec_StackFrames_def)
qed


text \<open>
  Entries of a JSON record can collide all the same. With the default key names, a field with the
  key \<^verbatim>\<open>caller\<close> gets the key of the caller, and two fields with the keys \<^verbatim>\<open>msg\<close> and \<^verbatim>\<open>_msg\<close> end up
  with the same key.
\<close>

theorem json_keys_collide:
  "\<exists>cs. JSONLogRec_calls env js (applyDefaultKeyNames (zero_JSON\<lparr>jEnableCaller := True\<rparr>))
      (zero_LogRec\<lparr>fieldsAll := [StringOf ''caller'' a, StringOf ''msg'' b, StringOf ''_msg'' c]\<rparr>) Info = Ret cs \<and>
     map call_key cs = [''timestamp'', ''level'', ''msg'', ''caller'', ''caller'', ''_msg'', ''_msg'']"
proof -
  define j where "j = applyDefaultKeyNames (zero_JSON\<lparr>jEnableCaller := True\<rparr>)"
  have j: "KeyTimestamp j = ''timestamp''" "KeyLevel j = ''level''" "KeyMsg j = ''msg''"
    "KeyStacktrace j = ''stacktrace''" "KeyCaller j = ''caller''" "KeyGroupFields j = []"
    "\<not> jDisableTimestamp j" "\<not> jDisableLevel j" "\<not> jDisableMsg j" "\<not> jDisableFields j" "jEnableCaller j"
    "jFieldSorter j = None"
    by (simp_all add: j_def applyDefaultKeyNames_def zero_JSON_def)
  have keep: "Key (prefixCollision j f) = Key f" if "Key f \<notin> set (reserved_keys j)" for f
    using that by (simp add: prefixCollision.simps)
  have "Key (prefixCollision j f) = ''_msg''" if "Key f = ''msg''" for f
    using that keep [of "f\<lparr>Key := ''_msg''\<rparr>"] by (simp add: prefixCollision.simps [of j f] reserved_keys_def j)
  then have msg: "Key (prefixCollision j (StringOf ''msg'' b)) = ''_msg''"
    by simp
  obtain cs where "JSONLogRec_calls env js j (zero_LogRec\<lparr>fieldsAll := [StringOf ''caller'' a,
        StringOf ''msg'' b, StringOf ''_msg'' c]\<rparr>) Info = Ret cs"
      "map call_key cs = [''timestamp'', ''level'', ''msg'', ''caller'',
        Key (prefixCollision j (StringOf ''caller'' a)), Key (prefixCollision j (StringOf ''msg'' b)),
        Key (prefixCollision j (StringOf ''_msg'' c))]"
    using json_record_keys_raw [of env js j "zero_LogRec\<lparr>fieldsAll := [StringOf ''caller'' a,
      StringOf ''msg'' b, StringOf ''_msg'' c]\<rparr>" Info] by (auto simp: j json_fields_def)
  then show ?thesis
    unfolding j_def [symmetric] by (auto simp: msg keep reserved_keys_def j)
qed

section \<open>Gelf\<close>

record gelf =
  gHostname :: string
  gEnableCaller :: bool
  gFieldSorter :: "(field list \<Rightarrow> field list) option"

definition Gelf_CheckValid :: "gelf \<Rightarrow> go_error option" where
  "Gelf_CheckValid g = None"

definition Gelf_IsStacktraceNeeded :: "gelf \<Rightarrow> bool" where
  "Gelf_IsStacktraceNeeded g = gEnableCaller g"

definition GelfVersion :: string where "GelfVersion = ''1.1''"
definition GelfVersionKey :: string where "GelfVersionKey = ''version''"
definition GelfHostKey :: string where "GelfHostKey = ''host''"
definition GelfShortKey :: string where "GelfShortKey = ''short_message''"
definition GelfFullKey :: string where "GelfFullKey = ''full_message''"
definition GelfTimestampKey :: string where "GelfTimestampKey = ''timestamp''"
definition GelfLevelKey :: string where "GelfLevelKey = ''level''"

lemmas gelf_consts = GelfVersion_def GelfVersionKey_def GelfHostKey_def GelfShortKey_def
  GelfFullKey_def GelfTimestampKey_def GelfLevelKey_def

definition getHostname :: "json_env \<Rightarrow> gelf \<Rightarrow> string" where
  "getHostname js g =
     (if gHostname g \<noteq> [] then gHostname g
      else case os_Hostname js of Inr h \<Rightarrow> h
           | Inl e \<Rightarrow> (case egress_IP js of Inl e \<Rightarrow> ''unknown'' | Inr ip \<Rightarrow> ip))"

definition safeMsg :: "log_rec \<Rightarrow> string \<Rightarrow> string" where
  "safeMsg r alt = (let s = LogRec_Msg r in if s = [] then alt else s)"

definition gelf_frame :: "frame \<Rightarrow> string" where
  "gelf_frame f = Function f @ Newline @ ''  '' @ File f @ '':'' @ dec_int (Line f) @ Newline"

text \<open>The test of the loop over the fields is \<^verbatim>\<open>!strings.HasPrefix("_", field.Key)\<close>.\<close>

definition gelf_field :: "field \<Rightarrow> field" where
  "gelf_field f = (if \<not> HasPrefix ''_'' (Key f) then f\<lparr>Key := ''_'' @ Key f\<rparr> else f)"

definition gelf_fields :: "gelf \<Rightarrow> log_rec \<Rightarrow> field list" where
  "gelf_fields g r =
     (let flds = (if gEnableCaller g then [StringOf ''_caller'' (LogRec_Caller r)] else []) @ LogRec_Fields r
      in case gFieldSorter g of None \<Rightarrow> flds | Some srt \<Rightarrow> srt flds)"

text \<open>The time is in seconds, with the milliseconds as a fraction.\<close>

definition gelf_timestamp :: "json_env \<Rightarrow> gotime \<Rightarrow> 64 word" where
  "gelf_timestamp js t =
     f64_add js (f64_of_int js (secs t))
       (f64_div js (f64_of_int js (nanos t div 1000000)) (f64_of_int js 1000))"

definition gelfRecord_calls ::
  "fmt_env \<Rightarrow> json_env \<Rightarrow> gelf \<Rightarrow> log_rec \<Rightarrow> level \<Rightarrow> enc_call list outcome" where
  "gelfRecord_calls env js g r lvl =
     (let head =
            [AddStringKey GelfVersionKey GelfVersion, AddStringKey GelfHostKey (getHostname js g),
             AddStringKey GelfShortKey (safeMsg r ''-'')] @
            (if Stacktrace lvl \<and> length (LogRec_StackFrames r) \<noteq> 0
             then [AddStringKey GelfFullKey (concat (map gelf_frame (LogRec_StackFrames r)))] else []) @
            [AddFloat64Key GelfTimestampKey (gelf_timestamp js (LogRec_Time r)),
             AddUint32Key GelfLevelKey (ucast (ID lvl))]
      in bind_outcome (encode_all env js (field_error_text js) (map gelf_field (gelf_fields g r)))
           (\<lambda>cs. Ret (head @ cs)))"

definition Gelf_Format ::
  "fmt_env \<Rightarrow> json_env \<Rightarrow> gelf \<Rightarrow> log_rec \<Rightarrow> level \<Rightarrow> bytes option \<Rightarrow> (go_error + bytes) outcome" where
  "Gelf_Format env js g r lvl bufo =
     (let b = (case bufo of None \<Rightarrow> [] | Some b \<Rightarrow> b)
      in bind_outcome (gelfRecord_calls env js g r lvl) (\<lambda>cs.
           Ret (case EncodeObject js cs of Inl e \<Rightarrow> Inl e | Inr txt \<Rightarrow> Inr (b @ txt @ [CHR 0x00]))))"

lemma Key_gelf_field: "Key (gelf_field f) = (if Key f = [] \<or> Key f = ''_'' then Key f else ''_'' @ Key f)"
  by (cases "Key f") (auto simp: gelf_field_def HasPrefix_def)

text \<open>
  C35: A GELF record has the mandatory entries, with a short message that is never empty, then one entry
  for each field, also for one that cannot be encoded. Since \<^verbatim>\<open>HasPrefix\<close> gets its arguments in the
  wrong order, an underscore is put before every key but the empty one and the underscore alone,
  also before keys that have one: the caller is sent as \<^verbatim>\<open>__caller\<close>.
\<close>

theorem gelf_record_keys:
  "\<exists>cs. gelfRecord_calls env js g r lvl = Ret cs \<and>
     map call_key cs =
       [''version'', ''host'', ''short_message''] @
       (if Stacktrace lvl \<and> frames r \<noteq> [] then [''full_message''] else []) @ [''timestamp'', ''level''] @
       map (\<lambda>f. if Key f = [] \<or> Key f = ''_'' then Key f else ''_'' @ Key f) (gelf_fields g r) \<and>
     cs ! 2 = AddStringKey ''short_message'' (if recMsg r = [] then ''-'' else recMsg r)"
proof -
  obtain cs where cs: "encode_all env js (field_error_text js) (map gelf_field (gelf_fields g r)) = Ret cs"
      "map call_key cs = map (\<lambda>f. Key (gelf_field f)) (gelf_fields g r)"
    using encode_all_keys [of env js "field_error_text js" "map gelf_field (gelf_fields g r)"]
    by (auto simp: comp_def)
  have "safeMsg r ''-'' = (if recMsg r = [] then ''-'' else recMsg r)"
    by (simp add: safeMsg_def LogRec_Msg_def Let_def)
  with cs(2) show ?thesis
    unfolding gelfRecord_calls_def Let_def cs(1)
    by (simp add: gelf_consts Key_gelf_field LogRec_StackFrames_def)
qed

end
