(* ===== verification/Sugar.thy ===== *)
theory Sugar
  imports Engine
begin

text \<open>
  The calls built on \<^verbatim>\<open>Logger.Log\<close> (\<^verbatim>\<open>logger.go\<close>, \<^verbatim>\<open>sugar.go\<close>, \<^verbatim>\<open>stdlogger.go\<close>): the convenience
  methods, the looser interface \<^verbatim>\<open>Sugar\<close> with its key-value arguments, and the adapter for the
  standard library's logger.
\<close>

section \<open>Convenience methods of Logger\<close>

definition Logger_Trace where
  "Logger_Trace env rt lgr logger msg flds = Logger_Log env rt lgr logger Trace msg flds"

definition Logger_Debug where
  "Logger_Debug env rt lgr logger msg flds = Logger_Log env rt lgr logger Debug msg flds"

definition Logger_Info where
  "Logger_Info env rt lgr logger msg flds = Logger_Log env rt lgr logger Info msg flds"

definition Logger_Warn where
  "Logger_Warn env rt lgr logger msg flds = Logger_Log env rt lgr logger Warn msg flds"

definition Logger_Error where
  "Logger_Error env rt lgr logger msg flds = Logger_Log env rt lgr logger Error msg flds"

definition Logger_Fatal where
  "Logger_Fatal env rt lgr logger msg flds = Logger_Log env rt lgr logger Fatal msg flds"

definition Logger_Panic where
  "Logger_Panic env rt lgr logger msg flds = Logger_Log env rt lgr logger Panic msg flds"

section \<open>Sugar\<close>

record sugar =
  sgLogger :: logger

definition Logger_Sugar :: "logger \<Rightarrow> field list \<Rightarrow> sugar" where
  "Logger_Sugar logger flds = \<lparr>sgLogger = Logger_With logger flds\<rparr>"

fun any_fields :: "goval list \<Rightarrow> field list outcome" where
  "any_fields [] = Ret []"
| "any_fields (a # as) =
     bind_outcome (Any [] a) (\<lambda>f. bind_outcome (any_fields as) (\<lambda>fs. Ret (f # fs)))"

definition sugarLog ::
  "fmt_env \<Rightarrow> gotime \<times> nat list \<Rightarrow> 't engine \<Rightarrow> sugar \<Rightarrow> level \<Rightarrow> string \<Rightarrow> goval list \<Rightarrow>
   (log_rec option \<times> 't engine) outcome" where
  "sugarLog env rt lgr s lvl msg as =
     bind_outcome (Logger_IsLevelEnabled lgr lvl) (\<lambda>(enabled, lgr).
       if enabled
       then bind_outcome (any_fields as) (\<lambda>flds.
              bind_outcome (Logger_Log env rt lgr (sgLogger s) lvl msg flds) (\<lambda>(ro, flds', lgr).
                Ret (ro, lgr)))
       else Ret (None, lgr))"

definition Sugar_Trace where
  "Sugar_Trace env rt lgr s msg as = sugarLog env rt lgr s Trace msg as"

definition Sugar_Debug where
  "Sugar_Debug env rt lgr s msg as = sugarLog env rt lgr s Debug msg as"

definition Sugar_Info where
  "Sugar_Info env rt lgr s msg as = sugarLog env rt lgr s Info msg as"

definition Sugar_Warn where
  "Sugar_Warn env rt lgr s msg as = sugarLog env rt lgr s Warn msg as"

definition Sugar_Error where
  "Sugar_Error env rt lgr s msg as = sugarLog env rt lgr s Error msg as"

definition Sugar_Fatal where
  "Sugar_Fatal env rt lgr s msg as = sugarLog env rt lgr s Fatal msg as"

definition Sugar_Panic where
  "Sugar_Panic env rt lgr s msg as = sugarLog env rt lgr s Panic msg as"

definition Sugar_Print where
  "Sugar_Print env rt lgr s msg as = Sugar_Info env rt lgr s msg as"

text \<open>\<^verbatim>\<open>fmt.Sprint\<close> and \<^verbatim>\<open>fmt.Sprintf\<close> are parameters.\<close>

record printers =
  Sprint :: "goval list \<Rightarrow> string"
  Sprintf :: "string \<Rightarrow> goval list \<Rightarrow> string"

definition Sugar_Logf ::
  "printers \<Rightarrow> fmt_env \<Rightarrow> gotime \<times> nat list \<Rightarrow> 't engine \<Rightarrow> sugar \<Rightarrow> level \<Rightarrow> string \<Rightarrow> goval list \<Rightarrow>
   (log_rec option \<times> 't engine) outcome" where
  "Sugar_Logf pr env rt lgr s lvl format as =
     bind_outcome (Logger_IsLevelEnabled lgr lvl) (\<lambda>(enabled, lgr).
       if enabled
       then let msg = (if format = [] then Sprint pr as else Sprintf pr format as)
            in bind_outcome (Logger_Log env rt lgr (sgLogger s) lvl msg []) (\<lambda>(ro, flds, lgr).
                 Ret (ro, lgr))
       else Ret (None, lgr))"

definition Sugar_Tracef where
  "Sugar_Tracef pr env rt lgr s format as = Sugar_Logf pr env rt lgr s Trace format as"

definition Sugar_Debugf where
  "Sugar_Debugf pr env rt lgr s format as = Sugar_Logf pr env rt lgr s Debug format as"

definition Sugar_Infof where
  "Sugar_Infof pr env rt lgr s format as = Sugar_Logf pr env rt lgr s Info format as"

definition Sugar_Warnf where
  "Sugar_Warnf pr env rt lgr s format as = Sugar_Logf pr env rt lgr s Warn format as"

definition Sugar_Errorf where
  "Sugar_Errorf pr env rt lgr s format as = Sugar_Logf pr env rt lgr s Error format as"

definition Sugar_Fatalf where
  "Sugar_Fatalf pr env rt lgr s format as = Sugar_Logf pr env rt lgr s Fatal format as"

definition Sugar_Panicf where
  "Sugar_Panicf pr env rt lgr s format as = Sugar_Logf pr env rt lgr s Panic format as"

definition Sugar_Printf where
  "Sugar_Printf pr env rt lgr s format as = Sugar_Infof pr env rt lgr s format as"

section \<open>Keys and values\<close>

text \<open>
  An argument: a field, or another value. \<open>fv\<close> is the dynamic value a \<^verbatim>\<open>Field\<close> is when it stands in
  the place of a value; it has no methods.
\<close>

datatype kv_arg = FieldArg field | ValArg goval

fun arg_val :: "(field \<Rightarrow> goval) \<Rightarrow> kv_arg \<Rightarrow> goval" where
  "arg_val fv (FieldArg f) = fv f"
| "arg_val fv (ValArg v) = v"

text \<open>
  The loop of \<^verbatim>\<open>argsToFields\<close>: the fields, and the complaints it logs at the level \<^verbatim>\<open>error\<close>, each a
  message and a field.
\<close>

function argsToFields_loop ::
  "(field \<Rightarrow> goval) \<Rightarrow> kv_arg list \<Rightarrow> nat \<Rightarrow> field list \<Rightarrow> (string \<times> field) list \<Rightarrow>
   (field list \<times> (string \<times> field) list) outcome" where
  "argsToFields_loop fv kvs i flds told =
     (if i < length kvs then
        case kvs ! i of
          FieldArg f \<Rightarrow> argsToFields_loop fv kvs (i + 1) (flds @ [f]) told
        | ValArg v \<Rightarrow>
            (if i = length kvs - 1
             then bind_outcome (Any ''arg'' v) (\<lambda>f. Ret (flds, told @ [(''invalid key/value pair'', f)]))
             else case v of
               StringVal key \<Rightarrow>
                 bind_outcome (Any key (arg_val fv (kvs ! (i + 1)))) (\<lambda>f.
                   argsToFields_loop fv kvs (i + 2) (flds @ [f]) told)
             | _ \<Rightarrow> argsToFields_loop fv kvs (i + 2) flds
                     (told @ [(''invalid key for key/value pair'', IntOf ''pos'' (of_nat i :: int64))]))
      else Ret (flds, told))"
  by pat_completeness auto

termination
  by (relation "measure (\<lambda>(fv, kvs, i, flds, told). length kvs - i)") auto

declare argsToFields_loop.simps [simp del]

definition argsToFields ::
  "(field \<Rightarrow> goval) \<Rightarrow> kv_arg list \<Rightarrow> (field list \<times> (string \<times> field) list) outcome" where
  "argsToFields fv kvs = (if length kvs = 0 then Ret ([], []) else argsToFields_loop fv kvs 0 [] [])"

text \<open>The complaints, logged in order.\<close>

fun complain ::
  "fmt_env \<Rightarrow> gotime \<times> nat list \<Rightarrow> 't engine \<Rightarrow> logger \<Rightarrow> (string \<times> field) list \<Rightarrow>
   (log_rec list \<times> 't engine) outcome" where
  "complain env rt lgr logger [] = Ret ([], lgr)"
| "complain env rt lgr logger ((msg, f) # told) =
     bind_outcome (Logger_Error env rt lgr logger msg [f]) (\<lambda>(ro, flds, lgr).
       bind_outcome (complain env rt lgr logger told) (\<lambda>(rs, lgr).
         Ret ((case ro of None \<Rightarrow> rs | Some r \<Rightarrow> r # rs), lgr)))"

definition Sugar_With ::
  "(field \<Rightarrow> goval) \<Rightarrow> fmt_env \<Rightarrow> gotime \<times> nat list \<Rightarrow> 't engine \<Rightarrow> sugar \<Rightarrow> kv_arg list \<Rightarrow>
   (sugar \<times> log_rec list \<times> 't engine) outcome" where
  "Sugar_With fv env rt lgr s kvs =
     bind_outcome (argsToFields fv kvs) (\<lambda>(flds, told).
       bind_outcome (complain env rt lgr (sgLogger s) told) (\<lambda>(rs, lgr).
         Ret (Logger_Sugar (Logger_With (sgLogger s) flds) [], rs, lgr)))"

text \<open>The methods that take keys and values differ in the level: the records they make, in order.\<close>

definition sugar_w ::
  "(field \<Rightarrow> goval) \<Rightarrow> fmt_env \<Rightarrow> gotime \<times> nat list \<Rightarrow> 't engine \<Rightarrow> sugar \<Rightarrow> level \<Rightarrow> string \<Rightarrow>
   kv_arg list \<Rightarrow> (log_rec list \<times> 't engine) outcome" where
  "sugar_w fv env rt lgr s lvl msg kvs =
     bind_outcome (argsToFields fv kvs) (\<lambda>(flds, told).
       bind_outcome (complain env rt lgr (sgLogger s) told) (\<lambda>(rs, lgr).
         bind_outcome (Logger_Log env rt lgr (sgLogger s) lvl msg flds) (\<lambda>(ro, flds', lgr).
           Ret (rs @ (case ro of None \<Rightarrow> [] | Some r \<Rightarrow> [r]), lgr))))"

definition Sugar_Tracew where
  "Sugar_Tracew fv env rt lgr s msg kvs = sugar_w fv env rt lgr s Trace msg kvs"

definition Sugar_Debugw where
  "Sugar_Debugw fv env rt lgr s msg kvs = sugar_w fv env rt lgr s Debug msg kvs"

definition Sugar_Infow where
  "Sugar_Infow fv env rt lgr s msg kvs = sugar_w fv env rt lgr s Info msg kvs"

definition Sugar_Warnw where
  "Sugar_Warnw fv env rt lgr s msg kvs = sugar_w fv env rt lgr s Warn msg kvs"

definition Sugar_Errorw where
  "Sugar_Errorw fv env rt lgr s msg kvs = sugar_w fv env rt lgr s Error msg kvs"

definition Sugar_Fatalw where
  "Sugar_Fatalw fv env rt lgr s msg kvs = sugar_w fv env rt lgr s Fatal msg kvs"

definition Sugar_Panicw where
  "Sugar_Panicw fv env rt lgr s msg kvs = sugar_w fv env rt lgr s Panic msg kvs"

section \<open>What argsToFields makes of its arguments\<close>

text \<open>The same by recursion on the arguments; \<open>pos\<close> counts those that went before.\<close>

fun read_args ::
  "(field \<Rightarrow> goval) \<Rightarrow> nat \<Rightarrow> kv_arg list \<Rightarrow> (field list \<times> (string \<times> field) list) outcome" where
  "read_args fv pos [] = Ret ([], [])"
| "read_args fv pos (FieldArg f # as) =
     bind_outcome (read_args fv (pos + 1) as) (\<lambda>(fs, told). Ret (f # fs, told))"
| "read_args fv pos [ValArg v] =
     bind_outcome (Any ''arg'' v) (\<lambda>f. Ret ([], [(''invalid key/value pair'', f)]))"
| "read_args fv pos (ValArg v # a # as) =
     (case v of
        StringVal key \<Rightarrow>
          bind_outcome (Any key (arg_val fv a)) (\<lambda>f.
            bind_outcome (read_args fv (pos + 2) as) (\<lambda>(fs, told). Ret (f # fs, told)))
      | _ \<Rightarrow>
          bind_outcome (read_args fv (pos + 2) as) (\<lambda>(fs, told).
            Ret (fs, (''invalid key for key/value pair'', IntOf ''pos'' (of_nat pos :: int64)) # told)))"

lemma bind_outcome_assoc [simp]:
  "bind_outcome (bind_outcome x f) g = bind_outcome x (\<lambda>v. bind_outcome (f v) g)"
  by (cases x) simp_all

lemma argsToFields_loop_eq:
  "i \<le> length kvs \<Longrightarrow>
   argsToFields_loop fv kvs i flds told =
     bind_outcome (read_args fv i (drop i kvs)) (\<lambda>(fs, ts). Ret (flds @ fs, told @ ts))"
proof (induction fv kvs i flds told rule: argsToFields_loop.induct)
  case (1 fv kvs i flds told)
  show ?case
  proof (cases "i < length kvs")
    case False
    with 1 show ?thesis by (simp add: argsToFields_loop.simps)
  next
    case True
    then have here: "drop i kvs = kvs ! i # drop (i + 1) kvs"
      by (simp add: Cons_nth_drop_Suc)
    show ?thesis
    proof (cases "kvs ! i")
      case (FieldArg f)
      with 1 True here show ?thesis
        by (simp add: argsToFields_loop.simps [of fv kvs i] split_def)
    next
      case (ValArg v)
      show ?thesis
      proof (cases "i = length kvs - 1")
        case True
        with ValArg \<open>i < length kvs\<close> here show ?thesis
          by (simp add: argsToFields_loop.simps [of fv kvs "length kvs - Suc 0"] split_def)
      next
        case False
        then have next_arg: "drop (i + 1) kvs = kvs ! (i + 1) # drop (i + 2) kvs"
          using True by (simp add: Cons_nth_drop_Suc)
        from 1 True False ValArg here next_arg show ?thesis
          by (cases v) (simp_all add: argsToFields_loop.simps [of fv kvs i] split_def)
      qed
    qed
  qed
qed

lemma argsToFields_eq: "argsToFields fv kvs = read_args fv 0 kvs"
  using argsToFields_loop_eq [of 0 kvs fv "[]" "[]"]
  by (cases "read_args fv 0 kvs") (auto simp: argsToFields_def)

text \<open>Well-formed arguments: fields, and pairs of a key and a value.\<close>

datatype kv_item = FieldItem field | PairItem string goval

fun item_args :: "kv_item \<Rightarrow> kv_arg list" where
  "item_args (FieldItem f) = [FieldArg f]"
| "item_args (PairItem k v) = [ValArg (StringVal k), ValArg v]"

fun item_field :: "kv_item \<Rightarrow> field outcome" where
  "item_field (FieldItem f) = Ret f"
| "item_field (PairItem k v) = Any k v"

lemma read_args_items:
  "list_all2 (\<lambda>it f. item_field it = Ret f) items flds \<Longrightarrow>
   read_args fv pos (concat (map item_args items) @ rest) =
     bind_outcome (read_args fv (pos + length (concat (map item_args items))) rest)
       (\<lambda>(fs, told). Ret (flds @ fs, told))"
proof (induction items flds arbitrary: pos rule: list_all2_induct)
  case Nil
  show ?case by (cases "read_args fv pos rest") simp_all
next
  case (Cons it items f flds)
  then show ?case by (cases it) (simp_all add: split_def add.assoc)
qed



text \<open>A field that follows a key that is no string is lost with it, and not named in the complaint.\<close>

lemma sugar_args_lose_field:
  "argsToFields fv [ValArg (IntVal n), FieldArg f] =
     Ret ([], [(''invalid key for key/value pair'', IntOf ''pos'' (0 :: int64))])"
  by (simp add: argsToFields_eq)

section \<open>The standard library's logger\<close>

text \<open>
  A \<^verbatim>\<open>log.Logger\<close>, such as the package's global one: its flags, its prefix, and where it writes:
  the standard error output, an adapter, or another writer.
\<close>

datatype log_out = Stderr | Adapter logger level | OtherOut nat

record std_log =
  logFlags :: int
  logPrefix :: string
  logOut :: log_out

definition NewStdLogger :: "level \<Rightarrow> logger \<Rightarrow> std_log" where
  "NewStdLogger lvl logger = \<lparr>logFlags = 0, logPrefix = [], logOut = Adapter logger lvl\<rparr>"

definition Logger_StdLogger :: "logger \<Rightarrow> level \<Rightarrow> std_log" where
  "Logger_StdLogger logger lvl = NewStdLogger lvl logger"

text \<open>\<^verbatim>\<open>RedirectStdLog\<close> on the global logger: its new state, and the function that restores it.\<close>

definition RedirectStdLog :: "level \<Rightarrow> field list \<Rightarrow> std_log \<Rightarrow> std_log \<times> (std_log \<Rightarrow> std_log)" where
  "RedirectStdLog lvl flds g =
     (let flags = logFlags g; pre = logPrefix g;
          g = g\<lparr>logFlags := 0\<rparr>;
          g = g\<lparr>logPrefix := []\<rparr>;
          g = g\<lparr>logOut := Adapter (Logger_With NewLogger flds) lvl\<rparr>
      in (g, \<lambda>g. ((g\<lparr>logFlags := flags\<rparr>)\<lparr>logPrefix := pre\<rparr>)\<lparr>logOut := Stderr\<rparr>))"

definition stdLogAdapter_Write ::
  "fmt_env \<Rightarrow> gotime \<times> nat list \<Rightarrow> logger \<Rightarrow> level \<Rightarrow> bytes \<Rightarrow> 't engine \<Rightarrow>
   ((int \<times> go_error option) \<times> log_rec option \<times> 't engine) outcome" where
  "stdLogAdapter_Write env rt logger lvl p lgr =
     (let s = TrimSpace p
      in bind_outcome (Logger_Log env rt lgr logger lvl s []) (\<lambda>(ro, flds, lgr).
           Ret ((int (length p), None), ro, lgr)))"

text \<open>Restoring gives back flags and prefix, and standard error whatever was written to before.\<close>

lemma RedirectStdLog_restores:
  "RedirectStdLog lvl flds g = (g', restore) \<Longrightarrow>
   restore g' = g\<lparr>logOut := Stderr\<rparr> \<and> logOut g' = Adapter (Logger_With NewLogger flds) lvl"
  by (auto simp: RedirectStdLog_def Let_def)

end
