(* ===== verification/Metrics.thy ===== *)
theory Metrics
  imports Host
begin

text \<open>
  The engine's own metrics (\<^verbatim>\<open>metrics.go\<close>): \<^verbatim>\<open>initMetrics\<close>, \<^verbatim>\<open>stopMetricsUpdater\<close> and the
  goroutines of \<^verbatim>\<open>startMetricsUpdater\<close>, interleaved at the granularity of their critical sections.
\<close>

section \<open>The state\<close>

definition DefMetricsUpdateFreqMillis :: int64 where
  "DefMetricsUpdateFreqMillis = 15000"

text \<open>
  The struct \<^verbatim>\<open>metrics\<close>: the collector by its name, the period, whether the gauge and the counters
  are there (a collector that fails returns none, and its error is dropped), and the channel
  \<^verbatim>\<open>done\<close>, which may be nil.
\<close>

record lgr_metrics =
  mCollector :: string
  mUpdateFreq :: int64
  mGauge :: bool
  mLogged :: bool
  mError :: bool
  mDone :: "nat option"

text \<open>
  A goroutine of \<^verbatim>\<open>startMetricsUpdater\<close>: at the top of its loop, at the \<^verbatim>\<open>select\<close> with the channel it
  read, returned, or panicked, which ends the program. A caller of \<^verbatim>\<open>initMetrics\<close>: between the
  calls, after \<^verbatim>\<open>stopMetricsUpdater\<close>, or about to start the goroutine.
\<close>

datatype updater_pc = UTop | USelect "nat option" | UReturned | UPanicked

type_synonym collector_arg = "(string \<times> metrics_collector) option"

datatype init_pc = IIdle | IStopped collector_arg int64 | IGo

text \<open>
  \<open>closes\<close> lists the channels closed so far, \<open>sets\<close> the values given to gauges with the collector
  they belong to, and \<open>incs\<close> counts the calls of \<^verbatim>\<open>Inc\<close>; \<open>queueLen\<close> is the length of the engine's queue.
\<close>

record mstate =
  metrics :: "lgr_metrics option"
  updaters :: "updater_pc list"
  inits :: "nat \<Rightarrow> init_pc"
  closes :: "nat list"
  nextDone :: nat
  queueLen :: nat
  sets :: "(string \<times> nat) list"
  incs :: nat

definition zero_mstate :: mstate where
  "zero_mstate =
     \<lparr>metrics = None, updaters = [], inits = (\<lambda>c. IIdle), closes = [], nextDone = 0, queueLen = 0,
      sets = [], incs = 0\<rparr>"

section \<open>Operations\<close>

definition stopMetricsUpdater :: "mstate \<Rightarrow> mstate" where
  "stopMetricsUpdater s =
     (case metrics s of
        None \<Rightarrow> s
      | Some m \<Rightarrow>
          (case mDone m of
             None \<Rightarrow> s
           | Some d \<Rightarrow> s\<lparr>closes := closes s @ [d], metrics := Some (m\<lparr>mDone := None\<rparr>)\<rparr>))"

text \<open>The part of \<^verbatim>\<open>initMetrics\<close> between the call of \<^verbatim>\<open>stopMetricsUpdater\<close> and the \<^verbatim>\<open>go\<close> statement.\<close>

definition set_metrics :: "collector_arg \<Rightarrow> int64 \<Rightarrow> mstate \<Rightarrow> mstate" where
  "set_metrics collector updatefreq s =
     (case collector of
        None \<Rightarrow> s\<lparr>metrics := None\<rparr>
      | Some (name, c) \<Rightarrow>
          s\<lparr>metrics := Some \<lparr>mCollector = name, mUpdateFreq = updatefreq,
              mGauge = (QueueSizeGauge c ''_logr'' = None), mLogged = (LoggedCounter c ''_logr'' = None),
              mError = (ErrorCounter c ''_logr'' = None), mDone = Some (nextDone s)\<rparr>,
            nextDone := nextDone s + 1\<rparr>)"

text \<open>A call on a gauge or counter that is not there is a call on a nil interface.\<close>

definition setQueueSizeGauge :: "nat \<Rightarrow> mstate \<Rightarrow> mstate outcome" where
  "setQueueSizeGauge val s =
     (case metrics s of
        None \<Rightarrow> Ret s
      | Some m \<Rightarrow> if mGauge m then Ret (s\<lparr>sets := sets s @ [(mCollector m, val)]\<rparr>)
                  else Panics ''nil pointer dereference'')"

definition Logr_incLoggedCounter :: "mstate \<Rightarrow> mstate outcome" where
  "Logr_incLoggedCounter s =
     (case metrics s of
        None \<Rightarrow> Ret s
      | Some m \<Rightarrow> if mLogged m then Ret (s\<lparr>incs := incs s + 1\<rparr>)
                  else Panics ''nil pointer dereference'')"

definition Logr_incErrorCounter :: "mstate \<Rightarrow> mstate outcome" where
  "Logr_incErrorCounter s =
     (case metrics s of
        None \<Rightarrow> Ret s
      | Some m \<Rightarrow> if mError m then Ret (s\<lparr>incs := incs s + 1\<rparr>)
                  else Panics ''nil pointer dereference'')"

definition set_updater :: "nat \<Rightarrow> updater_pc \<Rightarrow> mstate \<Rightarrow> mstate" where
  "set_updater k pc s = s\<lparr>updaters := (updaters s)[k := pc]\<rparr>"

definition set_init :: "nat \<Rightarrow> init_pc \<Rightarrow> mstate \<Rightarrow> mstate" where
  "set_init c pc s = s\<lparr>inits := (inits s)(c := pc)\<rparr>"

section \<open>Steps\<close>

text \<open>
  The loop of \<^verbatim>\<open>startMetricsUpdater\<close>: it reads \<^verbatim>\<open>lgr.metrics\<close> anew in every round, without asking
  whether it is nil, and receives from a channel only once that is closed. A timer may expire at
  any moment.
\<close>

inductive updater_step :: "nat \<Rightarrow> mstate \<Rightarrow> mstate \<Rightarrow> bool" where
  u_read: "k < length (updaters s) \<Longrightarrow> updaters s ! k = UTop \<Longrightarrow> metrics s = Some m \<Longrightarrow>
    updater_step k s (set_updater k (USelect (mDone m)) s)"
| u_nil: "k < length (updaters s) \<Longrightarrow> updaters s ! k = UTop \<Longrightarrow> metrics s = None \<Longrightarrow>
    updater_step k s (set_updater k UPanicked s)"
| u_done: "k < length (updaters s) \<Longrightarrow> updaters s ! k = USelect (Some d) \<Longrightarrow> d \<in> set (closes s) \<Longrightarrow>
    updater_step k s (set_updater k UReturned s)"
| u_tick: "k < length (updaters s) \<Longrightarrow> updaters s ! k = USelect c \<Longrightarrow>
    setQueueSizeGauge (queueLen s) s = Ret s' \<Longrightarrow>
    updater_step k s (set_updater k UTop s')"
| u_tick_panic: "k < length (updaters s) \<Longrightarrow> updaters s ! k = USelect c \<Longrightarrow>
    setQueueSizeGauge (queueLen s) s = Panics e \<Longrightarrow>
    updater_step k s (set_updater k UPanicked s)"

text \<open>The callers of \<^verbatim>\<open>initMetrics\<close> (\<^verbatim>\<open>New\<close>, \<^verbatim>\<open>SetMetricsCollector\<close>), and \<^verbatim>\<open>Shutdown\<close>, which only stops.\<close>

inductive init_step :: "nat \<Rightarrow> mstate \<Rightarrow> mstate \<Rightarrow> bool" where
  i_stop: "inits s c = IIdle \<Longrightarrow>
    init_step c s (set_init c (IStopped collector freq) (stopMetricsUpdater s))"
| i_set_nil: "inits s c = IStopped None freq \<Longrightarrow>
    init_step c s (set_init c IIdle (set_metrics None freq s))"
| i_set: "inits s c = IStopped (Some col) freq \<Longrightarrow>
    init_step c s (set_init c IGo (set_metrics (Some col) freq s))"
| i_go: "inits s c = IGo \<Longrightarrow>
    init_step c s (set_init c IIdle (s\<lparr>updaters := updaters s @ [UTop]\<rparr>))"

inductive quiet_step :: "mstate \<Rightarrow> mstate \<Rightarrow> bool" where
  q_updater: "updater_step k s s' \<Longrightarrow> quiet_step s s'"
| q_shutdown: "quiet_step s (stopMetricsUpdater s)"
| q_queue: "quiet_step s (s\<lparr>queueLen := n\<rparr>)"

inductive metrics_step :: "mstate \<Rightarrow> mstate \<Rightarrow> bool" where
  m_quiet: "quiet_step s s' \<Longrightarrow> metrics_step s s'"
| m_init: "init_step c s s' \<Longrightarrow> metrics_step s s'"

inductive metrics_reachable :: "mstate \<Rightarrow> bool" where
  m_start: "metrics_reachable zero_mstate"
| m_next: "metrics_reachable s \<Longrightarrow> metrics_step s s' \<Longrightarrow> metrics_reachable s'"

lemmas metrics_cases = updater_step.cases init_step.cases quiet_step.cases metrics_step.cases

section \<open>Channels are closed once\<close>

text \<open>
  Every channel was made by \<^verbatim>\<open>initMetrics\<close>, and the one in the struct is open.
\<close>

definition metrics_inv :: "mstate \<Rightarrow> bool" where
  "metrics_inv s \<longleftrightarrow>
     distinct (closes s) \<and> (\<forall>d\<in>set (closes s). d < nextDone s) \<and>
     (\<forall>m d. metrics s = Some m \<longrightarrow> mDone m = Some d \<longrightarrow> d < nextDone s \<and> d \<notin> set (closes s))"

lemma metrics_inv_stop: "metrics_inv s \<Longrightarrow> metrics_inv (stopMetricsUpdater s)"
  by (auto simp: metrics_inv_def stopMetricsUpdater_def split: option.split)

lemma metrics_inv_set: "metrics_inv s \<Longrightarrow> metrics_inv (set_metrics col freq s)"
  by (fastforce simp: metrics_inv_def set_metrics_def split: option.split)

lemma metrics_inv_upd [simp]:
  "metrics_inv (set_updater k pc s) = metrics_inv s" "metrics_inv (set_init c pc' s) = metrics_inv s"
  "metrics_inv (s\<lparr>updaters := us\<rparr>) = metrics_inv s" "metrics_inv (s\<lparr>queueLen := n\<rparr>) = metrics_inv s"
  by (simp_all add: metrics_inv_def set_updater_def set_init_def)

lemma setQueueSizeGauge_fields:
  assumes "setQueueSizeGauge val s = Ret s'"
  shows "metrics s' = metrics s" "updaters s' = updaters s" "closes s' = closes s" "nextDone s' = nextDone s"
  using assms by (auto simp: setQueueSizeGauge_def split: option.splits if_splits)

lemma metrics_inv_gauge: "metrics_inv s \<Longrightarrow> setQueueSizeGauge val s = Ret s' \<Longrightarrow> metrics_inv s'"
  by (simp add: metrics_inv_def setQueueSizeGauge_fields)

lemma metrics_inv_step: "metrics_step s s' \<Longrightarrow> metrics_inv s \<Longrightarrow> metrics_inv s'"
  by (elim metrics_cases) (auto simp: metrics_inv_stop metrics_inv_set metrics_inv_gauge)

lemma metrics_inv_reachable: "metrics_reachable s \<Longrightarrow> metrics_inv s"
proof (induction rule: metrics_reachable.induct)
  case m_start
  show ?case by (simp add: metrics_inv_def zero_mstate_def)
qed (rule metrics_inv_step)

text \<open>
  No \<^verbatim>\<open>done\<close> channel of the metrics is closed twice, which would panic, however calls of
  \<^verbatim>\<open>SetMetricsCollector\<close> and \<^verbatim>\<open>Shutdown\<close> interleave, and whichever comes next.
\<close>

theorem metrics_done_closed_once:
  assumes "metrics_reachable s"
  shows "distinct (closes s) \<and> distinct (closes (stopMetricsUpdater s))"
  using metrics_inv_reachable [OF assms] metrics_inv_stop [OF metrics_inv_reachable [OF assms]]
  by (simp add: metrics_inv_def)

section \<open>Updaters that do not end\<close>

text \<open>An updater that has missed the closing of its channel: it will read a nil channel.\<close>

definition loose :: "updater_pc \<Rightarrow> bool" where
  "loose pc \<longleftrightarrow> pc \<in> {UTop, USelect None, UPanicked}"

lemma loose_simps [simp]:
  "loose UTop" "loose (USelect c) \<longleftrightarrow> c = None" "\<not> loose UReturned" "loose UPanicked"
  by (auto simp: loose_def)

definition stray :: "nat \<Rightarrow> mstate \<Rightarrow> bool" where
  "stray k s \<longleftrightarrow>
     (case metrics s of None \<Rightarrow> False | Some m \<Rightarrow> mDone m = None) \<and> k < length (updaters s) \<and>
     loose (updaters s ! k)"

lemma nth_update: "k < length xs \<Longrightarrow> xs[j := x] ! k = (if j = k then x else xs ! k)"
  by (cases "j = k") simp_all

lemma stray_set_updater:
  "stray k s \<Longrightarrow> j \<noteq> k \<or> loose pc \<Longrightarrow> stray k (set_updater j pc s)"
  by (auto simp: stray_def set_updater_def nth_update)

lemma stray_gauge: "stray k s \<Longrightarrow> setQueueSizeGauge val s = Ret s' \<Longrightarrow> stray k s'"
  by (simp add: stray_def setQueueSizeGauge_fields)

lemma stray_updater_step: "updater_step j s s' \<Longrightarrow> stray k s \<Longrightarrow> stray k s'"
proof (induction rule: updater_step.induct)
  case (u_read j s m)
  then show ?case
    by (intro stray_set_updater) (auto simp: stray_def)
next
  case (u_done j s d)
  then show ?case
    by (intro stray_set_updater) (auto simp: stray_def)
next
  case (u_tick j s c s')
  then have "stray k s'"
    using stray_gauge by blast
  then show ?case
    by (rule stray_set_updater) simp
qed (simp_all add: stray_set_updater)

lemma stray_stop: "stray k s \<Longrightarrow> stray k (stopMetricsUpdater s)"
  by (auto simp: stray_def stopMetricsUpdater_def split: option.splits)

lemma stray_quiet_step: "quiet_step s s' \<Longrightarrow> stray k s \<Longrightarrow> stray k s'"
proof (induction rule: quiet_step.induct)
  case (q_updater j s s')
  then show ?case by (rule stray_updater_step)
next
  case (q_shutdown s)
  then show ?case by (rule stray_stop)
next
  case (q_queue s n)
  then show ?case by (simp add: stray_def)
qed


text \<open>A collector whose metrics are all there, set by one caller.\<close>

definition all_collector :: metrics_collector where
  "all_collector =
     \<lparr>QueueSizeGauge = (\<lambda>n. None), LoggedCounter = (\<lambda>n. None), ErrorCounter = (\<lambda>n. None),
      DroppedCounter = (\<lambda>n. None), BlockedCounter = (\<lambda>n. None)\<rparr>"

lemma metrics_running:
  obtains s m where "metrics_reachable s" "metrics s = Some m" "mDone m = Some 0" "mGauge m"
    "updaters s = [UTop]" "inits s 0 = IIdle" "closes s = []"
proof -
  define s1 where "s1 = set_init 0 (IStopped (Some (''c'', all_collector)) 250) zero_mstate"
  define s2 where "s2 = set_init 0 IGo (set_metrics (Some (''c'', all_collector)) 250 s1)"
  define s3 where "s3 = set_init 0 IIdle (s2\<lparr>updaters := updaters s2 @ [UTop]\<rparr>)"
  have stop: "stopMetricsUpdater zero_mstate = zero_mstate"
    by (simp add: stopMetricsUpdater_def zero_mstate_def)
  have "init_step 0 zero_mstate s1"
    unfolding s1_def using i_stop [of zero_mstate 0 "Some (''c'', all_collector)" 250]
    by (simp add: stop) (simp add: zero_mstate_def)
  moreover have "init_step 0 s1 s2"
    unfolding s2_def by (rule i_set [where freq = 250]) (simp add: s1_def set_init_def)
  moreover have "init_step 0 s2 s3"
    unfolding s3_def by (rule i_go) (simp add: s2_def set_init_def)
  ultimately have "metrics_reachable s3"
    by (meson metrics_reachable.intros m_init)
  then show thesis
    by (rule that)
      (auto simp: s3_def s2_def s1_def set_init_def set_metrics_def zero_mstate_def all_collector_def)
qed


theorem metrics_done_closed_once_witness:
  "\<exists>s. closes (stopMetricsUpdater s) = [0] \<and> distinct (closes (stopMetricsUpdater s))"
proof -
  obtain s m where "metrics_reachable s" "metrics s = Some m" "mDone m = Some 0" "closes s = []"
    by (rule metrics_running)
  with metrics_done_closed_once [of s] show ?thesis
    by (intro exI [of _ s]) (simp add: stopMetricsUpdater_def)
qed

text \<open>
  Unsetting the collector while metrics run can end the program: the updater reads a nil struct
  in its next round and panics.
\<close>

theorem metrics_unset_panics:
  "\<exists>s. metrics_reachable s \<and> metrics s = None \<and> updaters s = [UPanicked] \<and> inits s 0 = IIdle"
proof -
  obtain s m where s: "metrics_reachable s" "metrics s = Some m" "mDone m = Some 0"
    "updaters s = [UTop]" "inits s 0 = IIdle"
    by (rule metrics_running)
  define a where "a = set_init 0 (IStopped None 0) (stopMetricsUpdater s)"
  define b where "b = set_init 0 IIdle (set_metrics None 0 a)"
  have "init_step 0 s a"
    unfolding a_def using s(5) by (rule i_stop)
  moreover have "init_step 0 a b"
    unfolding b_def by (rule i_set_nil) (simp add: a_def set_init_def)
  moreover have b: "metrics b = None" "updaters b = [UTop]" "inits b 0 = IIdle"
    using s by (simp_all add: a_def b_def set_init_def set_metrics_def stopMetricsUpdater_def)
  moreover have "updater_step 0 b (set_updater 0 UPanicked b)"
    by (rule u_nil) (simp_all add: b)
  ultimately have "metrics_reachable (set_updater 0 UPanicked b)"
    using s(1) by (meson m_init m_quiet q_updater m_next)
  with b show ?thesis
    by (intro exI [of _ "set_updater 0 UPanicked b"]) (simp add: set_updater_def)
qed

end
