(* ===== verification/Tcp.thy ===== *)
theory Tcp
  imports Targets
begin

text \<open>
  The TCP target (\<^verbatim>\<open>targets/tcp.go\<close>): options, the backoff between attempts, and the interleaving
  of the goroutine in \<^verbatim>\<open>Write\<close>, the one in \<^verbatim>\<open>Shutdown\<close>, and the goroutines that dial and monitor.
  Sockets, TLS and timers are the environment: any result may come at any moment.
\<close>

section \<open>Options\<close>

record tcp_options =
  tIP :: string
  tHost :: string
  tPort :: int
  tTLS :: bool
  tCert :: string
  tInsecure :: bool

definition TcpOptions_CheckValid :: "tcp_options \<Rightarrow> go_error option" where
  "TcpOptions_CheckValid to =
     (if tHost to = [] \<and> tIP to = [] then Some (ErrorText ''missing host'')
      else if tPort to = 0 then Some (ErrorText ''missing port'')
      else None)"

text \<open>The address that is dialled, also in \<^verbatim>\<open>addy\<close>: of the two names only the deprecated one is used.\<close>

definition tcp_addy :: "tcp_options \<Rightarrow> string" where
  "tcp_addy to = tIP to @ '':'' @ dec_int (tPort to)"

definition Tcp_String :: "tcp_options \<Rightarrow> string" where
  "Tcp_String to = ''TcpTarget['' @ tIP to @ '':'' @ dec_int (tPort to) @ '']''"

text \<open>The options are valid with a host alone, but then the address has no host.\<close>

lemma tcp_host_ignored:
  "TcpOptions_CheckValid \<lparr>tIP = [], tHost = h, tPort = p, tTLS = t, tCert = c, tInsecure = n\<rparr> =
     (if h = [] then Some (ErrorText ''missing host'')
      else if p = 0 then Some (ErrorText ''missing port'') else None)"
  "tcp_addy \<lparr>tIP = [], tHost = h, tPort = p, tTLS = t, tCert = c, tInsecure = n\<rparr> = '':'' @ dec_int p"
  by (simp_all add: TcpOptions_CheckValid_def tcp_addy_def)

section \<open>Backoff\<close>

definition RetryBackoffMillis :: int64 where
  "RetryBackoffMillis = 100"

definition MaxRetryBackoffMillis :: int64 where
  "MaxRetryBackoffMillis = 30 * 1000"

text \<open>What \<^verbatim>\<open>sleep\<close> returns: the next backoff; \<^verbatim>\<open>>>\<close> on an \<^verbatim>\<open>int64\<close> keeps the sign.\<close>

definition next_backoff :: "int64 \<Rightarrow> int64" where
  "next_backoff backoff =
     (let nextBackoff = backoff + signed_drop_bit 1 backoff
      in if sint nextBackoff > sint MaxRetryBackoffMillis then MaxRetryBackoffMillis else nextBackoff)"

definition backoff_ok :: "int64 \<Rightarrow> bool" where
  "backoff_ok b \<longleftrightarrow> 100 \<le> sint b \<and> sint b \<le> 30000"

lemma backoff_ok_first [simp]: "backoff_ok RetryBackoffMillis"
  by (simp add: backoff_ok_def RetryBackoffMillis_def)

lemma half_bounds:
  fixes x :: int
  assumes "100 \<le> x" "x \<le> 30000"
  shows "0 \<le> x div 2" "x div 2 \<le> 15000" "100 \<le> x + x div 2" "x \<le> x + x div 2"
  using assms by presburger+

lemmas sint_half = half_bounds [of "sint b" for b :: int64]

lemma sint_next_backoff:
  assumes "backoff_ok b"
  shows "sint (next_backoff b) = min 30000 (sint b + sint b div 2)"
proof -
  have half: "sint (signed_drop_bit 1 b) = sint b div 2"
    by (simp add: sint_signed_drop_bit_eq drop_bit_eq_div)
  have "0 \<le> sint b div 2" "sint b div 2 \<le> 15000"
    using assms sint_half [of b] unfolding backoff_ok_def by blast+
  then have "signed_take_bit 63 (sint b + sint b div 2) = sint b + sint b div 2"
    using assms by (intro signed_take_bit_int_eq_self) (auto simp: backoff_ok_def)
  then have "sint (b + signed_drop_bit 1 b) = sint b + sint b div 2"
    by (simp add: sint_word_ariths half del: One_nat_def)
  then show ?thesis
    by (simp add: next_backoff_def MaxRetryBackoffMillis_def Let_def)
qed

lemma backoff_ok_next: "backoff_ok b \<Longrightarrow> backoff_ok (next_backoff b)"
  using sint_next_backoff [of b] sint_half(3) [of b] unfolding backoff_ok_def by linarith

lemma backoff_ok_iterate: "backoff_ok ((next_backoff ^^ n) RetryBackoffMillis)"
  by (induction n) (simp_all add: backoff_ok_next)

definition grow :: "int \<Rightarrow> int" where
  "grow x = min 30000 (x + x div 2)"

lemma grow_steps:
  "grow 100 = 150"
  "grow 150 = 225"
  "grow 225 = 337"
  "grow 337 = 505"
  "grow 505 = 757"
  "grow 757 = 1135"
  "grow 1135 = 1702"
  "grow 1702 = 2553"
  "grow 2553 = 3829"
  "grow 3829 = 5743"
  "grow 5743 = 8614"
  "grow 8614 = 12921"
  "grow 12921 = 19381"
  "grow 19381 = 29071"
  "grow 29071 = 30000"
  by (simp_all add: grow_def)

lemma sint_backoff_iterate: "sint ((next_backoff ^^ n) RetryBackoffMillis) = (grow ^^ n) 100"
  by (induction n)
    (simp_all add: sint_next_backoff [OF backoff_ok_iterate] grow_def, simp add: RetryBackoffMillis_def)

lemma backoff_reaches_max: "15 \<le> n \<Longrightarrow> sint ((next_backoff ^^ n) RetryBackoffMillis) = 30000"
proof (induction n rule: dec_induct)
  case base
  have "(grow ^^ 15) 100 = 30000"
    by (simp add: numeral_eq_Suc grow_steps)
  then show ?case by (simp only: sint_backoff_iterate)
next
  case (step n)
  then show ?case by (simp add: sint_next_backoff [OF backoff_ok_iterate])
qed

section \<open>Dialling\<close>

text \<open>
  \<^verbatim>\<open>dial\<close>: connections are numbered; \<open>netDial\<close> is \<^verbatim>\<open>DialContext\<close> at an address, \<open>tlsHandshake\<close> the
  handshake on a connection with the server name, whether to skip the verification, and the pool of
  certificates. A connection whose handshake fails, or whose certificates cannot be read, is not closed.
\<close>

record 'p net_env =
  netDial :: "string \<Rightarrow> go_error + nat"
  tlsHandshake :: "nat \<Rightarrow> string \<Rightarrow> bool \<Rightarrow> 'p option \<Rightarrow> go_error option"

definition tcp_dial :: "'p cert_env \<Rightarrow> 'p net_env \<Rightarrow> tcp_options \<Rightarrow> go_error + nat" where
  "tcp_dial ce ne to =
     (case netDial ne (tcp_addy to) of
        Inl e \<Rightarrow> Inl e
      | Inr c \<Rightarrow>
          if \<not> tTLS to then Inr c
          else (case GetCertPoolOrNil ce (tCert to) of
                  Inl e \<Rightarrow> Inl e
                | Inr pool \<Rightarrow> (case tlsHandshake ne c (tIP to) (tInsecure to) pool of
                    Some e \<Rightarrow> Inl e | None \<Rightarrow> Inr c)))"

lemma tcp_dial_Inr_iff:
  "tcp_dial ce ne to = Inr c \<longleftrightarrow> netDial ne (tcp_addy to) = Inr c \<and>
     (tTLS to \<longrightarrow> (\<exists>pool. GetCertPoolOrNil ce (tCert to) = Inr pool \<and>
        tlsHandshake ne c (tIP to) (tInsecure to) pool = None))"
  by (auto simp: tcp_dial_def split: sum.splits option.splits)

text \<open>The errors that are reported to the engine.\<close>

definition connection_error :: "tcp_options \<Rightarrow> go_error \<Rightarrow> go_error" where
  "connection_error to = WrapError (''log target '' @ Tcp_String to @ '' connection error'')"

definition deadline_error :: "tcp_options \<Rightarrow> go_error \<Rightarrow> go_error" where
  "deadline_error to = WrapError (''log target '' @ Tcp_String to @ '' set write deadline error'')"

definition write_error :: "tcp_options \<Rightarrow> go_error \<Rightarrow> go_error" where
  "write_error to = WrapError (''log target '' @ Tcp_String to @ '' write error'')"

section \<open>The goroutines\<close>

text \<open>
  \<^verbatim>\<open>Write\<close>, with the bytes to send and the backoff: between calls, at the check of \<^verbatim>\<open>shutdown\<close> that
  starts an attempt, about to enter \<^verbatim>\<open>getConn\<close>, in the \<^verbatim>\<open>select\<close> of \<^verbatim>\<open>getConn\<close> with the number of
  the goroutine that dials (holding the mutex), about to report an error of \<^verbatim>\<open>getConn\<close>, about to
  set the deadline of a connection, about to write to it, about to call \<^verbatim>\<open>close\<close> after a failed
  write, or in \<^verbatim>\<open>sleep\<close>.
\<close>

datatype write_pc =
    WIdle
  | WTop bytes int64
  | WGetConn bytes int64
  | WDial bytes int64 nat
  | WNoConn bytes int64 go_error
  | WHave bytes int64 nat
  | WSend bytes int64 nat
  | WClose bytes int64
  | WSleep bytes int64

text \<open>
  \<^verbatim>\<open>Shutdown\<close>: not called, about to call \<^verbatim>\<open>close\<close>, about to close the channel \<^verbatim>\<open>shutdown\<close>, returned. A
  dialling goroutine: running, about to send its result, or done. A monitor: running for a
  connection, or gone.
\<close>

datatype shut_pc = SNone | SClose | SMark | SDone
datatype dial_pc = DRunning | DSend "go_error + nat" | DDone
datatype mon_pc = MRun | MGone

text \<open>
  \<open>tOptions\<close>, \<open>tConn\<close>, \<open>tMonitor\<close> and \<open>tShutdown\<close> are the fields \<^verbatim>\<open>options\<close>, \<^verbatim>\<open>conn\<close>, \<^verbatim>\<open>monitor\<close> and
  whether \<^verbatim>\<open>shutdown\<close> is closed; connections and channels are numbered. \<open>monitors\<close> holds for each
  monitor its connection and channel. The ghosts: the monitor channels closed so far, the connections
  closed, what was sent on which connection, what the calls of \<^verbatim>\<open>Write\<close> returned (all with a nil
  error, there is no other), and the errors reported. The mutex is held across steps exactly in
  \<open>WDial\<close>; every other critical section is one step.
\<close>

record tcp =
  tOptions :: tcp_options
  tConn :: "nat option"
  tMonitor :: nat
  tShutdown :: bool
  wpc :: write_pc
  spc :: shut_pc
  dials :: "dial_pc list"
  monitors :: "(mon_pc \<times> nat \<times> nat) list"
  nextId :: nat
  monClosed :: "nat list"
  connClosed :: "nat set"
  sent :: "(nat \<times> bytes) list"
  written :: "(bytes \<times> int) list"
  reports :: "go_error list"

definition NewTcpTarget :: "tcp_options \<Rightarrow> tcp" where
  "NewTcpTarget options =
     \<lparr>tOptions = options, tConn = None, tMonitor = 0, tShutdown = False, wpc = WIdle, spc = SNone,
      dials = [], monitors = [], nextId = 1, monClosed = [], connClosed = {}, sent = [],
      written = [], reports = []\<rparr>"

fun dialling :: "write_pc \<Rightarrow> nat option" where
  "dialling (WDial p b k) = Some k"
| "dialling _ = None"

definition tcp_locked :: "tcp \<Rightarrow> bool" where
  "tcp_locked s \<longleftrightarrow> dialling (wpc s) \<noteq> None"

text \<open>The body of \<^verbatim>\<open>close\<close>.\<close>

definition tcp_close :: "tcp \<Rightarrow> tcp" where
  "tcp_close s =
     (case tConn s of
        None \<Rightarrow> s
      | Some c \<Rightarrow> s\<lparr>monClosed := monClosed s @ [tMonitor s], connClosed := insert c (connClosed s),
                    tConn := None\<rparr>)"

text \<open>What the dialling goroutine does with a connection: the fields, the monitor.\<close>

definition tcp_connect :: "nat \<Rightarrow> tcp \<Rightarrow> tcp" where
  "tcp_connect c s =
     s\<lparr>tConn := Some c, tMonitor := c + 1, nextId := c + 2,
       monitors := monitors s @ [(MRun, c, c + 1)]\<rparr>"

definition set_dial :: "nat \<Rightarrow> dial_pc \<Rightarrow> tcp \<Rightarrow> tcp" where
  "set_dial k pc s = s\<lparr>dials := (dials s)[k := pc]\<rparr>"

definition tcp_report :: "go_error \<Rightarrow> tcp \<Rightarrow> tcp" where
  "tcp_report e s = s\<lparr>reports := reports s @ [e]\<rparr>"

text \<open>\<^verbatim>\<open>getConn\<close>, called by \<^verbatim>\<open>Write\<close>.\<close>

inductive conn_step :: "tcp \<Rightarrow> tcp \<Rightarrow> bool" where
  c_have: "wpc s = WGetConn p b \<Longrightarrow> tConn s = Some c \<Longrightarrow> conn_step s (s\<lparr>wpc := WHave p b c\<rparr>)"
| c_dial: "wpc s = WGetConn p b \<Longrightarrow> tConn s = None \<Longrightarrow>
    conn_step s (s\<lparr>wpc := WDial p b (length (dials s)), dials := dials s @ [DRunning]\<rparr>)"
| c_dial_shut: "wpc s = WDial p b k \<Longrightarrow> tShutdown s \<Longrightarrow>
    conn_step s (s\<lparr>wpc := WNoConn p b (ErrorText ''shutdown'')\<rparr>)"
| c_dial_ok: "wpc s = WDial p b k \<Longrightarrow> k < length (dials s) \<Longrightarrow> dials s ! k = DSend (Inr c) \<Longrightarrow>
    conn_step s (set_dial k DDone (s\<lparr>wpc := WHave p b c\<rparr>))"
| c_dial_err: "wpc s = WDial p b k \<Longrightarrow> k < length (dials s) \<Longrightarrow> dials s ! k = DSend (Inl e) \<Longrightarrow>
    conn_step s (set_dial k DDone (s\<lparr>wpc := WNoConn p b e\<rparr>))"

text \<open>
  A write to a connection that is closed on this side fails; a failing write may have sent a part of
  the bytes.
\<close>

inductive write_step :: "tcp \<Rightarrow> tcp \<Rightarrow> bool" where
  w_call: "wpc s = WIdle \<Longrightarrow> write_step s (s\<lparr>wpc := WTop p RetryBackoffMillis\<rparr>)"
| w_shut: "wpc s = WTop p b \<Longrightarrow> tShutdown s \<Longrightarrow>
    write_step s (s\<lparr>wpc := WIdle, written := written s @ [(p, 0)]\<rparr>)"
| w_try: "wpc s = WTop p b \<Longrightarrow> \<not> tShutdown s \<Longrightarrow> write_step s (s\<lparr>wpc := WGetConn p b\<rparr>)"
| w_no_conn: "wpc s = WNoConn p b e \<Longrightarrow>
    write_step s (tcp_report (connection_error (tOptions s) e) (s\<lparr>wpc := WSleep p b\<rparr>))"
| w_deadline: "wpc s = WHave p b c \<Longrightarrow> write_step s (s\<lparr>wpc := WSend p b c\<rparr>)"
| w_deadline_err: "wpc s = WHave p b c \<Longrightarrow>
    write_step s (tcp_report (deadline_error (tOptions s) e) (s\<lparr>wpc := WSend p b c\<rparr>))"
| w_ok: "wpc s = WSend p b c \<Longrightarrow> c \<notin> connClosed s \<Longrightarrow>
    write_step s (s\<lparr>wpc := WIdle, sent := sent s @ [(c, p)],
      written := written s @ [(p, int (length p))]\<rparr>)"
| w_err: "wpc s = WSend p b c \<Longrightarrow> n < length p \<or> n = 0 \<Longrightarrow> n = 0 \<or> c \<notin> connClosed s \<Longrightarrow>
    write_step s (tcp_report (write_error (tOptions s) e)
      (s\<lparr>wpc := WClose p b, sent := sent s @ [(c, take n p)]\<rparr>))"
| w_close: "wpc s = WClose p b \<Longrightarrow> write_step s (tcp_close (s\<lparr>wpc := WSleep p b\<rparr>))"
| w_sleep: "wpc s = WSleep p b \<Longrightarrow> write_step s (s\<lparr>wpc := WTop p (next_backoff b)\<rparr>)"

text \<open>
  \<^verbatim>\<open>Shutdown\<close>, called once by the host; the goroutine that dials, whose result nobody may receive;
  and \<^verbatim>\<open>monitor\<close>, which leaves when its channel is closed or closes the connection itself.
\<close>

inductive shut_step :: "tcp \<Rightarrow> tcp \<Rightarrow> bool" where
  s_call: "spc s = SNone \<Longrightarrow> shut_step s (s\<lparr>spc := SClose\<rparr>)"
| s_close: "spc s = SClose \<Longrightarrow> \<not> tcp_locked s \<Longrightarrow> shut_step s (tcp_close (s\<lparr>spc := SMark\<rparr>))"
| s_mark: "spc s = SMark \<Longrightarrow> shut_step s (s\<lparr>spc := SDone, tShutdown := True\<rparr>)"

inductive dial_step :: "tcp \<Rightarrow> tcp \<Rightarrow> bool" where
  d_ok: "k < length (dials s) \<Longrightarrow> dials s ! k = DRunning \<Longrightarrow>
    tcp_dial (ce :: string cert_env) ne (tOptions s) = Inr c \<Longrightarrow> nextId s \<le> c \<Longrightarrow>
    dial_step s (set_dial k (DSend (Inr c)) (tcp_connect c s))"
| d_err: "k < length (dials s) \<Longrightarrow> dials s ! k = DRunning \<Longrightarrow>
    tcp_dial (ce :: string cert_env) ne (tOptions s) = Inl e \<Longrightarrow>
    dial_step s (tcp_report (connection_error (tOptions s) e) (set_dial k (DSend (Inl e)) s))"

inductive monitor_step :: "tcp \<Rightarrow> tcp \<Rightarrow> bool" where
  m_done: "j < length (monitors s) \<Longrightarrow> monitors s ! j = (MRun, c, d) \<Longrightarrow> d \<in> set (monClosed s) \<Longrightarrow>
    monitor_step s (s\<lparr>monitors := (monitors s)[j := (MGone, c, d)]\<rparr>)"
| m_lost: "j < length (monitors s) \<Longrightarrow> monitors s ! j = (MRun, c, d) \<Longrightarrow>
    monitor_step s (s\<lparr>monitors := (monitors s)[j := (MGone, c, d)], connClosed := insert c (connClosed s)\<rparr>)"

inductive tcp_step :: "tcp \<Rightarrow> tcp \<Rightarrow> bool" where
  t_write: "write_step s s' \<Longrightarrow> tcp_step s s'"
| t_conn: "conn_step s s' \<Longrightarrow> tcp_step s s'"
| t_shut: "shut_step s s' \<Longrightarrow> tcp_step s s'"
| t_dial: "dial_step s s' \<Longrightarrow> tcp_step s s'"
| t_monitor: "monitor_step s s' \<Longrightarrow> tcp_step s s'"

inductive tcp_reachable :: "tcp \<Rightarrow> bool" where
  t_start: "tcp_reachable (NewTcpTarget to)"
| t_next: "tcp_reachable s \<Longrightarrow> tcp_step s s' \<Longrightarrow> tcp_reachable s'"

lemmas tcp_upd_defs = tcp_close_def tcp_connect_def set_dial_def tcp_report_def

section \<open>Invariants\<close>

locale tcp_invariant =
  fixes inv :: "tcp \<Rightarrow> bool"
  assumes init: "inv (NewTcpTarget to)"
    and write_keeps: "write_step s s' \<Longrightarrow> inv s \<Longrightarrow> inv s'"
    and conn_keeps: "conn_step s s' \<Longrightarrow> inv s \<Longrightarrow> inv s'"
    and shut_keeps: "shut_step s s' \<Longrightarrow> inv s \<Longrightarrow> inv s'"
    and dial_keeps: "dial_step s s' \<Longrightarrow> inv s \<Longrightarrow> inv s'"
    and monitor_keeps: "monitor_step s s' \<Longrightarrow> inv s \<Longrightarrow> inv s'"
begin

lemma step: "tcp_step s s' \<Longrightarrow> inv s \<Longrightarrow> inv s'"
  by (auto elim!: tcp_step.cases dest: write_keeps conn_keeps shut_keeps dial_keeps monitor_keeps)

lemma holds: "tcp_reachable s \<Longrightarrow> inv s"
  by (induction rule: tcp_reachable.induct) (auto simp: init dest: step)

end

text \<open>The call of \<^verbatim>\<open>Write\<close> that runs: its bytes and its backoff.\<close>

fun call_of :: "write_pc \<Rightarrow> (bytes \<times> int64) option" where
  "call_of WIdle = None"
| "call_of (WTop p b) = Some (p, b)"
| "call_of (WGetConn p b) = Some (p, b)"
| "call_of (WDial p b k) = Some (p, b)"
| "call_of (WNoConn p b e) = Some (p, b)"
| "call_of (WHave p b c) = Some (p, b)"
| "call_of (WSend p b c) = Some (p, b)"
| "call_of (WClose p b) = Some (p, b)"
| "call_of (WSleep p b) = Some (p, b)"

definition backoff_inv :: "tcp \<Rightarrow> bool" where
  "backoff_inv s \<longleftrightarrow> (case call_of (wpc s) of None \<Rightarrow> True | Some (p, b) \<Rightarrow> backoff_ok b)"

lemma tcp_upd [simp]:
  "wpc (tcp_close s) = wpc s" "wpc (tcp_connect c s) = wpc s" "wpc (set_dial k pc s) = wpc s"
  "wpc (tcp_report e s) = wpc s"
  "sent (tcp_close s) = sent s" "sent (tcp_connect c s) = sent s" "sent (set_dial k pc s) = sent s"
  "sent (tcp_report e s) = sent s"
  "written (tcp_close s) = written s" "written (tcp_connect c s) = written s"
  "written (set_dial k pc s) = written s" "written (tcp_report e s) = written s"
  "tShutdown (tcp_close s) = tShutdown s" "tShutdown (tcp_connect c s) = tShutdown s"
  "tShutdown (set_dial k pc s) = tShutdown s" "tShutdown (tcp_report e s) = tShutdown s"
  by (simp_all add: tcp_upd_defs split: option.split)

interpretation backoffs: tcp_invariant backoff_inv
proof
  fix s s'
  show "write_step s s' \<Longrightarrow> backoff_inv s \<Longrightarrow> backoff_inv s'"
    by (induction rule: write_step.induct) (simp_all add: backoff_inv_def backoff_ok_next)
  show "conn_step s s' \<Longrightarrow> backoff_inv s \<Longrightarrow> backoff_inv s'"
    by (induction rule: conn_step.induct) (simp_all add: backoff_inv_def)
  show "shut_step s s' \<Longrightarrow> backoff_inv s \<Longrightarrow> backoff_inv s'"
    by (induction rule: shut_step.induct) (simp_all add: backoff_inv_def)
  show "dial_step s s' \<Longrightarrow> backoff_inv s \<Longrightarrow> backoff_inv s'"
    by (induction rule: dial_step.induct) (simp_all add: backoff_inv_def)
  show "monitor_step s s' \<Longrightarrow> backoff_inv s \<Longrightarrow> backoff_inv s'"
    by (induction rule: monitor_step.induct) (simp_all add: backoff_inv_def)
qed (simp add: backoff_inv_def NewTcpTarget_def)

text \<open>
  The monitor channel of the connection in use is open, and was never closed before; and the
  channel \<^verbatim>\<open>shutdown\<close> is closed by the last step of \<^verbatim>\<open>Shutdown\<close>.
\<close>

definition monitor_inv :: "tcp \<Rightarrow> bool" where
  "monitor_inv s \<longleftrightarrow>
     distinct (monClosed s) \<and> (\<forall>d\<in>set (monClosed s). d < nextId s) \<and> tMonitor s < nextId s \<and>
     (tConn s \<noteq> None \<longrightarrow> tMonitor s \<notin> set (monClosed s)) \<and> (tShutdown s \<longleftrightarrow> spc s = SDone)"

lemma monitor_inv_ops:
  "monitor_inv s \<Longrightarrow> monitor_inv (s\<lparr>wpc := pc\<rparr>)"
  "monitor_inv s \<Longrightarrow> monitor_inv (tcp_close s)"
  "monitor_inv s \<Longrightarrow> monitor_inv (set_dial k dpc s)"
  "monitor_inv s \<Longrightarrow> monitor_inv (tcp_report e s)"
  "monitor_inv s \<Longrightarrow> nextId s \<le> c \<Longrightarrow> monitor_inv (tcp_connect c s)"
  by (auto simp: monitor_inv_def tcp_upd_defs split: option.split)

interpretation mons: tcp_invariant monitor_inv
proof
  fix s s'
  show "write_step s s' \<Longrightarrow> monitor_inv s \<Longrightarrow> monitor_inv s'"
    by (induction rule: write_step.induct)
      (simp_all add: monitor_inv_ops, simp_all add: monitor_inv_def tcp_report_def)
  show "conn_step s s' \<Longrightarrow> monitor_inv s \<Longrightarrow> monitor_inv s'"
    by (induction rule: conn_step.induct)
      (simp_all add: monitor_inv_ops, simp_all add: monitor_inv_def)
  show "shut_step s s' \<Longrightarrow> monitor_inv s \<Longrightarrow> monitor_inv s'"
    by (induction rule: shut_step.induct)
      (auto simp: monitor_inv_def tcp_close_def split: option.splits)
  show "dial_step s s' \<Longrightarrow> monitor_inv s \<Longrightarrow> monitor_inv s'"
    by (induction rule: dial_step.induct) (simp_all add: monitor_inv_ops)
  show "monitor_step s s' \<Longrightarrow> monitor_inv s \<Longrightarrow> monitor_inv s'"
    by (induction rule: monitor_step.induct) (simp_all add: monitor_inv_def)
qed (simp add: monitor_inv_def NewTcpTarget_def)

text \<open>
  What was sent is, for each call of \<^verbatim>\<open>Write\<close> that returned, some prefixes of its bytes (failed
  attempts) and then all of them, or nothing more when the target was shut down; and prefixes for the
  call that runs.
\<close>

definition attempts :: "bytes \<Rightarrow> bytes list \<Rightarrow> bool" where
  "attempts p xs \<longleftrightarrow> (\<forall>x\<in>set xs. \<exists>n. x = take n p)"

inductive served :: "bool \<Rightarrow> (bytes \<times> int) list \<Rightarrow> bytes list \<Rightarrow> bool" for down where
  served_Nil: "served down [] []"
| served_ok: "served down ws xs \<Longrightarrow> attempts p ys \<Longrightarrow>
    served down (ws @ [(p, int (length p))]) (xs @ ys @ [p])"
| served_down: "served down ws xs \<Longrightarrow> attempts p ys \<Longrightarrow> down \<Longrightarrow> served down (ws @ [(p, 0)]) (xs @ ys)"

lemma served_mono: "served d ws xs \<Longrightarrow> (d \<Longrightarrow> d') \<Longrightarrow> served d' ws xs"
  by (induction rule: served.induct) (auto intro: served.intros)

definition sent_inv :: "tcp \<Rightarrow> bool" where
  "sent_inv s \<longleftrightarrow>
     (\<exists>xs ys. map snd (sent s) = xs @ ys \<and> served (tShutdown s) (written s) xs \<and>
        (case call_of (wpc s) of None \<Rightarrow> ys = [] | Some (p, b) \<Rightarrow> attempts p ys))"

lemma attempts_simps [simp]:
  "attempts p []"
  "attempts p (xs @ [take n p]) \<longleftrightarrow> attempts p xs"
  by (auto simp: attempts_def)

lemma sent_inv_write: "write_step s s' \<Longrightarrow> sent_inv s \<Longrightarrow> sent_inv s'"
proof (induction rule: write_step.induct)
  case (w_call s p)
  then have "served (tShutdown s) (written s) (map snd (sent s))"
    by (simp add: sent_inv_def)
  then show ?case
    unfolding sent_inv_def by (intro exI [of _ "map snd (sent s)"] exI [of _ "[]"]) simp
next
  case (w_shut s p b)
  then obtain xs ys where "map snd (sent s) = xs @ ys" "served True (written s) xs" "attempts p ys"
    by (auto simp: sent_inv_def)
  with w_shut show ?case
    using served_down [of True "written s" xs p ys] by (auto simp: sent_inv_def)
next
  case (w_ok s p b c)
  then obtain xs ys where "map snd (sent s) = xs @ ys" "served (tShutdown s) (written s) xs"
      "attempts p ys"
    by (auto simp: sent_inv_def)
  with w_ok show ?case
    using served_ok [of "tShutdown s" "written s" xs p ys] by (auto simp: sent_inv_def)
next
  case (w_err s p b c n e)
  then obtain xs ys where "map snd (sent s) = xs @ ys" "served (tShutdown s) (written s) xs"
      "attempts p ys"
    by (auto simp: sent_inv_def)
  then show ?case
    unfolding sent_inv_def by (intro exI [of _ xs] exI [of _ "ys @ [take n p]"]) simp
qed (auto simp: sent_inv_def)

interpretation sents: tcp_invariant sent_inv
proof
  fix s s'
  show "write_step s s' \<Longrightarrow> sent_inv s \<Longrightarrow> sent_inv s'"
    by (rule sent_inv_write)
  show "conn_step s s' \<Longrightarrow> sent_inv s \<Longrightarrow> sent_inv s'"
    by (induction rule: conn_step.induct) (simp_all add: sent_inv_def)
  show "shut_step s s' \<Longrightarrow> sent_inv s \<Longrightarrow> sent_inv s'"
    by (induction rule: shut_step.induct) (auto simp: sent_inv_def intro: served_mono)
  show "dial_step s s' \<Longrightarrow> sent_inv s \<Longrightarrow> sent_inv s'"
    by (induction rule: dial_step.induct) (simp_all add: sent_inv_def)
  show "monitor_step s s' \<Longrightarrow> sent_inv s \<Longrightarrow> sent_inv s'"
    by (induction rule: monitor_step.induct) (simp_all add: sent_inv_def)
qed (simp add: sent_inv_def NewTcpTarget_def served.intros)

section \<open>Properties of the TCP target\<close>

definition demo_tcp :: tcp_options where
  "demo_tcp = \<lparr>tIP = ''10.0.0.1'', tHost = [], tPort = 9000, tTLS = False, tCert = [], tInsecure = False\<rparr>"



text \<open>
  No monitor channel is closed twice, which would panic, and the channel of the connection in use
  is still open: \<^verbatim>\<open>close\<close> may be called at any time.
\<close>

theorem tcp_monitor_closed_once:
  assumes "tcp_reachable s"
  shows "distinct (monClosed (tcp_close s)) \<and>
    (case tConn s of None \<Rightarrow> tcp_close s = s | Some c \<Rightarrow> tMonitor s \<notin> set (monClosed s))"
  using mons.holds [OF assms] monitor_inv_ops(2) [OF mons.holds [OF assms]]
  by (auto simp: monitor_inv_def tcp_close_def split: option.split)

text \<open>A connected target, in the middle of its first call of \<^verbatim>\<open>Write\<close>.\<close>

definition demo_dialling :: tcp where
  "demo_dialling = (NewTcpTarget demo_tcp)\<lparr>wpc := WDial ''x'' RetryBackoffMillis 0, dials := [DRunning]\<rparr>"

lemma demo_dialling_reachable: "tcp_reachable demo_dialling"
proof -
  define a where "a = (NewTcpTarget demo_tcp)\<lparr>wpc := WTop ''x'' RetryBackoffMillis\<rparr>"
  define b where "b = a\<lparr>wpc := WGetConn ''x'' RetryBackoffMillis\<rparr>"
  note defs = a_def b_def demo_dialling_def NewTcpTarget_def
  have "write_step (NewTcpTarget demo_tcp) a"
    unfolding a_def by (rule w_call) (simp add: NewTcpTarget_def)
  moreover have "write_step a b"
    unfolding b_def by (rule w_try) (simp_all add: defs)
  moreover have "conn_step b demo_dialling"
    using c_dial [of b "''x''" RetryBackoffMillis] by (simp add: defs)
  ultimately show ?thesis
    by (meson t_start t_next t_write t_conn)
qed

lemma tcp_connected:
  obtains s where "tcp_reachable s" "wpc s = WHave ''x'' RetryBackoffMillis 1" "tConn s = Some 1"
    "tMonitor s = 2" "spc s = SNone" "monClosed s = []" "connClosed s = {}" "sent s = []"
    "written s = []"
proof -
  define d where "d = set_dial 0 (DSend (Inr 1)) (tcp_connect 1 demo_dialling)"
  define e where "e = set_dial 0 DDone (d\<lparr>wpc := WHave ''x'' RetryBackoffMillis 1\<rparr>)"
  define ce :: "string cert_env" where "ce = undefined"
  define ne :: "string net_env" where "ne = \<lparr>netDial = (\<lambda>a. Inr 1), tlsHandshake = (\<lambda>c n i p. None)\<rparr>"
  note defs = d_def e_def demo_dialling_def NewTcpTarget_def tcp_upd_defs
  have "tcp_dial ce ne demo_tcp = Inr 1"
    by (simp add: tcp_dial_def ne_def demo_tcp_def)
  then have "dial_step demo_dialling d"
    unfolding d_def by (intro d_ok [of _ _ ce ne]) (simp_all add: demo_dialling_def NewTcpTarget_def)
  moreover have "conn_step d e"
    unfolding e_def by (rule c_dial_ok) (simp_all add: defs)
  ultimately have "tcp_reachable e"
    by (meson demo_dialling_reachable t_next t_conn t_dial)
  then show thesis by (rule that) (simp_all add: defs)
qed

theorem tcp_monitor_closed_once_witness:
  "\<exists>s. tcp_reachable s \<and> tConn s = Some 1 \<and> monClosed (tcp_close s) = [2] \<and> distinct (monClosed (tcp_close s))"
proof -
  obtain s where "tcp_reachable s" "tConn s = Some 1" "tMonitor s = 2" "monClosed s = []"
    by (rule tcp_connected)
  with tcp_monitor_closed_once [of s] show ?thesis
    by (intro exI [of _ s]) (simp add: tcp_close_def)
qed

text \<open>
  C39: What goes over the wire: for each call of \<^verbatim>\<open>Write\<close> that returned, in order, prefixes of its bytes
  from attempts that failed and then, in one piece, all of them - unless the target was shut down,
  when the call returns 0 bytes and no error. No bytes of another record come in between, and a call
  that returns the length of its bytes has sent them.
\<close>

theorem tcp_sends_whole_records:
  assumes "tcp_reachable s" "wpc s = WIdle"
  shows "served (tShutdown s) (written s) (map snd (sent s))"
  using sents.holds [OF assms(1)] assms(2) by (auto simp: sent_inv_def)

theorem tcp_sends_whole_records_witness:
  "\<exists>s. tcp_reachable s \<and> written s = [(''x'', 1)] \<and> served (tShutdown s) (written s) [''x'']"
proof -
  obtain s where s: "tcp_reachable s" "wpc s = WHave ''x'' RetryBackoffMillis 1" "connClosed s = {}"
      "sent s = []" "written s = []"
    by (rule tcp_connected)
  define t where "t = s\<lparr>wpc := WSend ''x'' RetryBackoffMillis 1\<rparr>"
  define u where "u = t\<lparr>wpc := WIdle, sent := sent t @ [(1, ''x'')], written := written t @ [(''x'', int (length ''x''))]\<rparr>"
  have "write_step s t"
    unfolding t_def using s(2) by (rule w_deadline)
  moreover have "write_step t u"
    unfolding u_def by (rule w_ok) (simp_all add: t_def s)
  ultimately have "tcp_reachable u"
    using s(1) by (meson t_next t_write)
  with tcp_sends_whole_records [of u] show ?thesis
    by (intro exI [of _ u]) (simp add: u_def t_def s)
qed

section \<open>Shutting down\<close>

text \<open>
  While \<^verbatim>\<open>Write\<close> is in the dial \<open>k\<close>, a call of \<^verbatim>\<open>Shutdown\<close> that had not passed \<^verbatim>\<open>close\<close> has not passed it.
\<close>

definition dial_blocks :: "nat \<Rightarrow> tcp \<Rightarrow> bool" where
  "dial_blocks k s \<longleftrightarrow>
     k < length (dials s) \<and>
     (dialling (wpc s) = Some k \<longrightarrow> \<not> tShutdown s \<and> spc s \<in> {SNone, SClose})"

lemma dial_blocks_write: "write_step s s' \<Longrightarrow> dial_blocks k s \<Longrightarrow> dial_blocks k s'"
  by (induction rule: write_step.induct)
    (auto simp: dial_blocks_def tcp_upd_defs split: option.split)

lemma dial_blocks_conn: "conn_step s s' \<Longrightarrow> dial_blocks k s \<Longrightarrow> dial_blocks k s'"
  by (induction rule: conn_step.induct) (auto simp: dial_blocks_def tcp_upd_defs)

lemma dial_blocks_shut: "shut_step s s' \<Longrightarrow> dial_blocks k s \<Longrightarrow> dial_blocks k s'"
  by (induction rule: shut_step.induct)
    (auto simp: dial_blocks_def tcp_close_def tcp_locked_def split: option.split)

lemma dial_blocks_dial: "dial_step s s' \<Longrightarrow> dial_blocks k s \<Longrightarrow> dial_blocks k s'"
  by (induction rule: dial_step.induct) (auto simp: dial_blocks_def tcp_upd_defs)

lemma dial_blocks_monitor: "monitor_step s s' \<Longrightarrow> dial_blocks k s \<Longrightarrow> dial_blocks k s'"
  by (induction rule: monitor_step.induct) (auto simp: dial_blocks_def)

lemma dial_blocks_steps: "tcp_step\<^sup>*\<^sup>* s s' \<Longrightarrow> dial_blocks k s \<Longrightarrow> dial_blocks k s'"
  by (induction rule: rtranclp_induct)
    (auto elim!: tcp_step.cases dest: dial_blocks_write dial_blocks_shut dial_blocks_dial
      dial_blocks_monitor dial_blocks_conn)

text \<open>
  \<^verbatim>\<open>Shutdown\<close> cannot interrupt a dial. When it is called while \<^verbatim>\<open>Write\<close> waits for a connection, it
  waits for the mutex that \<^verbatim>\<open>getConn\<close> holds, and closes \<^verbatim>\<open>shutdown\<close> only after that: as long as
  this dial lasts, \<^verbatim>\<open>shutdown\<close> is open, and the case for it in \<^verbatim>\<open>getConn\<close> is never taken.
\<close>

theorem tcp_shutdown_waits_for_dial:
  assumes "tcp_reachable s" "wpc s = WDial p b k" "k < length (dials s)" "spc s = SNone"
    and "tcp_step\<^sup>*\<^sup>* s s'" "wpc s' = WDial p' b' k"
  shows "\<not> tShutdown s' \<and> spc s' \<in> {SNone, SClose} \<and> \<not> (\<exists>t. shut_step s' t \<and> spc t = SMark)"
proof -
  have "dial_blocks k s"
    using mons.holds [OF assms(1)] assms(2-4) by (simp add: dial_blocks_def monitor_inv_def)
  with assms(5) have "dial_blocks k s'"
    by (rule dial_blocks_steps)
  with assms(6) have "\<not> tShutdown s'" "spc s' \<in> {SNone, SClose}"
    by (simp_all add: dial_blocks_def)
  with assms(6) show ?thesis
    by (auto elim!: shut_step.cases simp: tcp_locked_def)
qed

theorem tcp_shutdown_waits_for_dial_witness:
  "\<exists>s s'. tcp_reachable s \<and> tcp_step\<^sup>*\<^sup>* s s' \<and> wpc s' = WDial ''x'' RetryBackoffMillis 0 \<and> spc s' = SClose \<and>
     \<not> tShutdown s' \<and> \<not> (\<exists>t. shut_step s' t \<and> spc t = SMark)"
proof -
  define d where "d = demo_dialling\<lparr>spc := SClose\<rparr>"
  have "shut_step demo_dialling d"
    unfolding d_def by (rule s_call) (simp add: demo_dialling_def NewTcpTarget_def)
  then have cd: "tcp_step\<^sup>*\<^sup>* demo_dialling d"
    by (meson t_shut r_into_rtranclp)
  have c: "wpc demo_dialling = WDial ''x'' RetryBackoffMillis 0" "0 < length (dials demo_dialling)"
      "spc demo_dialling = SNone"
    and d: "wpc d = WDial ''x'' RetryBackoffMillis 0" "spc d = SClose"
    by (simp_all add: d_def demo_dialling_def NewTcpTarget_def)
  show ?thesis
    using tcp_shutdown_waits_for_dial [OF demo_dialling_reachable c cd d(1)] demo_dialling_reachable
      cd d by blast
qed

text \<open>
  A record can be lost without an error: when the target is shut down before the record is sent,
  \<^verbatim>\<open>Write\<close> returns no error, and the host counts the record as logged, though nothing was sent.
\<close>

theorem tcp_write_lost_silently:
  "\<exists>s. tcp_reachable s \<and> written s = [(''x'', 0)] \<and> sent s = [] \<and> spc s = SDone \<and> dials s = []"
proof -
  define a where "a = (NewTcpTarget demo_tcp)\<lparr>spc := SClose\<rparr>"
  define b where "b = tcp_close (a\<lparr>spc := SMark\<rparr>)"
  define c where "c = b\<lparr>spc := SDone, tShutdown := True\<rparr>"
  define d where "d = c\<lparr>wpc := WTop ''x'' RetryBackoffMillis\<rparr>"
  define e where "e = d\<lparr>wpc := WIdle, written := written d @ [(''x'', 0)]\<rparr>"
  note defs = a_def b_def c_def d_def e_def NewTcpTarget_def tcp_close_def tcp_locked_def
  have "shut_step (NewTcpTarget demo_tcp) a"
    unfolding a_def by (rule s_call) (simp add: NewTcpTarget_def)
  moreover have "shut_step a b"
    unfolding b_def by (rule s_close) (simp_all add: defs)
  moreover have "shut_step b c"
    unfolding c_def by (rule s_mark) (simp add: defs)
  moreover have "write_step c d"
    unfolding d_def by (rule w_call) (simp add: defs)
  moreover have "write_step d e"
    unfolding e_def by (rule w_shut) (simp_all add: defs)
  ultimately have "tcp_reachable e"
    by (meson t_start t_next t_write t_shut)
  then show ?thesis
    by (intro exI [of _ e]) (simp add: defs)
qed

end
