(* ===== verification/Plain.thy ===== *)
theory Plain
  imports Formatter
begin

text \<open>
  The formatter \<^verbatim>\<open>Plain\<close> (\<^verbatim>\<open>formatters/plain.go\<close>): level, time, message and fields as text, with
  padding, colours and an optional caller. What it writes is compared with a direct
  description of the line.
\<close>

section \<open>The formatter\<close>

record plain =
  pDisableTimestamp :: bool
  pDisableLevel :: bool
  pDisableMsg :: bool
  pDisableFields :: bool
  pDisableStacktrace :: bool
  pEnableCaller :: bool
  pDelim :: string
  pMinLevelLen :: int
  pMinMessageLen :: int
  pTimestampFormat :: string
  pLineEnd :: string
  pEnableColor :: bool

definition zero_Plain :: plain where
  "zero_Plain =
     \<lparr>pDisableTimestamp = False, pDisableLevel = False, pDisableMsg = False, pDisableFields = False,
      pDisableStacktrace = False, pEnableCaller = False, pDelim = [], pMinLevelLen = 0,
      pMinMessageLen = 0, pTimestampFormat = [], pLineEnd = [], pEnableColor = False\<rparr>"

definition Plain_CheckValid :: "plain \<Rightarrow> go_error option" where
  "Plain_CheckValid p =
     (if pMinMessageLen p < 0 \<or> pMinMessageLen p > 1024
      then Some (ErrorText (''min_msg_len is invalid('' @ dec_int (pMinMessageLen p) @ '')''))
      else None)"

definition Plain_IsStacktraceNeeded :: "plain \<Rightarrow> bool" where
  "Plain_IsStacktraceNeeded p = pEnableCaller p"

text \<open>The two places that pad what was written, \<open>n\<close> bytes, to a minimal length.\<close>

definition pad :: "int \<Rightarrow> int \<Rightarrow> bytes \<Rightarrow> bytes outcome" where
  "pad minimum n b =
     (if minimum > n
      then bind_outcome (Repeat '' '' (minimum - n)) (\<lambda>s. Ret (snd (write_io buffer_Write s b)))
      else Ret b)"

text \<open>\<^verbatim>\<open>Format\<close>; the fields are separated by \<^verbatim>\<open>logr.Space\<close>, not by the delimiter.\<close>

definition Plain_Format ::
  "fmt_env \<Rightarrow> plain \<Rightarrow> log_rec \<Rightarrow> level \<Rightarrow> bytes option \<Rightarrow> (go_error + bytes) outcome" where
  "Plain_Format env p r lvl bufo =
     (let delim = (if pDelim p = [] then '' '' else pDelim p);
          b = (case bufo of None \<Rightarrow> [] | Some b \<Rightarrow> b);
          timestampFmt = (if pTimestampFormat p = [] then DefTimestampFormat else pTimestampFormat p);
          color = (if pEnableColor p then Color lvl else NoColor)
      in bind_outcome
           (if \<not> pDisableLevel p
            then bind_outcome
                   (pad (pMinLevelLen p) (int (length (Name lvl)))
                     (snd (WriteWithColor buffer_Write (Name lvl) color b)))
                   (\<lambda>b. Ret (snd (write_io buffer_Write delim b)))
            else Ret b)
           (\<lambda>b.
             let b = (if \<not> pDisableTimestamp p
                      then snd (write_io buffer_Write delim
                             (snd (write_io buffer_Write '']''
                               (snd (write_io buffer_Write (format_time env (LogRec_Time r) timestampFmt)
                                 (snd (write_io buffer_Write ''['' b)))))))
                      else b)
             in bind_outcome
                  (if \<not> pDisableMsg p
                   then bind_outcome
                          (pad (pMinMessageLen p) (int (length (LogRec_Msg r)))
                            (snd (write_io buffer_Write (LogRec_Msg r) b)))
                          (\<lambda>b. Ret (snd (write_io buffer_Write delim b)))
                   else Ret b)
                  (\<lambda>b.
                    let flds = (if pEnableCaller p then [StringOf ''caller'' (LogRec_Caller r)] else []);
                        flds = (if \<not> pDisableFields p then flds @ LogRec_Fields r else flds)
                    in bind_outcome
                         (if length flds > 0
                          then bind_outcome (WriteFields env buffer_Write flds Space color) (\<lambda>a. Ret (a b))
                          else Ret (None, b))
                         (\<lambda>(err, b).
                           case err of Some e \<Rightarrow> Ret (Inl e)
                           | None \<Rightarrow>
                               (let frs = LogRec_StackFrames r;
                                    (err, b) =
                                      (if Stacktrace lvl \<and> \<not> pDisableStacktrace p \<and> length frs > 0
                                       then WriteStacktrace buffer_Write frs
                                              (snd (write_io buffer_Write Newline b))
                                       else (None, b))
                                in case err of Some e \<Rightarrow> Ret (Inl e)
                                   | None \<Rightarrow>
                                       Ret (Inr (snd (write_io buffer_Write
                                         (if pLineEnd p = [] then Newline else pLineEnd p) b))))))))"

section \<open>What it writes\<close>

definition padded :: "int \<Rightarrow> string \<Rightarrow> string \<Rightarrow> string" where
  "padded minimum s shown = shown @ replicate (nat (minimum - int (length s))) CHR '' ''"

definition plain_fields :: "plain \<Rightarrow> log_rec \<Rightarrow> field list" where
  "plain_fields p r =
     (if pEnableCaller p then [StringOf ''caller'' (caller r)] else []) @
     (if pDisableFields p then [] else fieldsAll r)"

definition plain_line :: "fmt_env \<Rightarrow> plain \<Rightarrow> log_rec \<Rightarrow> level \<Rightarrow> bytes" where
  "plain_line env p r lvl =
     (let delim = (if pDelim p = [] then '' '' else pDelim p);
          color = (if pEnableColor p then Color lvl else NoColor)
      in (if pDisableLevel p then []
          else padded (pMinLevelLen p) (Name lvl) (colored color (Name lvl)) @ delim) @
         (if pDisableTimestamp p then []
          else ''['' @ format_time env (recTime r)
                 (if pTimestampFormat p = [] then DefTimestampFormat else pTimestampFormat p) @ '']'' @ delim) @
         (if pDisableMsg p then [] else padded (pMinMessageLen p) (recMsg r) (recMsg r) @ delim) @
         join '' '' (map (pair_text env color) (plain_fields p r)) @
         (if Stacktrace lvl \<and> \<not> pDisableStacktrace p \<and> frames r \<noteq> []
          then Newline @ concat (map frame_text (frames r)) else []) @
         (if pLineEnd p = [] then Newline else pLineEnd p))"

lemma pad_eq: "pad minimum (int (length s)) b = Ret (b @ replicate (nat (minimum - int (length s))) CHR '' '')"
proof -
  have "concat (replicate n '' '') = replicate n CHR '' ''" for n
    by (induction n) simp_all
  then show ?thesis
    by (simp add: pad_def Repeat_def writer_simps)
qed

lemma plain_WriteFields:
  assumes "\<forall>f\<in>set fs. value_text env shouldQuote f \<noteq> None"
  shows "(if length fs > 0 then bind_outcome (WriteFields env buffer_Write fs Space c) (\<lambda>a. Ret (a b))
          else Ret (None, b)) = Ret (None, b @ join '' '' (map (pair_text env c) fs))"
  using WriteFields_text [OF assms, of Space c] by (auto simp: appends_def Space_def)

lemma Plain_Format_text:
  assumes "\<forall>f\<in>set (plain_fields p r). value_text env shouldQuote f \<noteq> None"
  shows "Plain_Format env p r lvl bufo =
    Ret (Inr ((case bufo of None \<Rightarrow> [] | Some b \<Rightarrow> b) @ plain_line env p r lvl))"
proof -
  have flds: "(if \<not> pDisableFields p
       then (if pEnableCaller p then [StringOf ''caller'' (LogRec_Caller r)] else []) @ LogRec_Fields r
       else (if pEnableCaller p then [StringOf ''caller'' (LogRec_Caller r)] else [])) = plain_fields p r"
    by (simp add: plain_fields_def LogRec_Caller_def LogRec_Fields_def)
  note core = plain_WriteFields [OF assms]
  show ?thesis
    unfolding Plain_Format_def Let_def pad_eq flds core
    by (simp add: writer_simps plain_line_def padded_def Let_def LogRec_StackFrames_def
        LogRec_Time_def LogRec_Msg_def)
qed



end
