(* ===== verification/Config.thy ===== *)
theory Config
  imports Engine Plain JsonFormatters Targets Tcp
begin

text \<open>
  Configuration (\<^verbatim>\<open>config/config.go\<close>): \<^verbatim>\<open>ConfigureTargets\<close> replaces the targets of an engine by those
  that a map from names to configurations describes. Decoding JSON into option structs and the
  construction of the built-in targets are parameters.
\<close>

section \<open>Names of types\<close>

text \<open>
  \<^verbatim>\<open>strings.ToLower\<close> as far as the result is ASCII, which all names of types are: capital letters, and
  the two other runes whose lower case is an ASCII letter.
\<close>

function lower_name :: "string \<Rightarrow> string" where
  "lower_name s =
     (if s = [] then []
      else if take 2 s = bytes_of [0xC4, 0xB0] then CHR ''i'' # lower_name (drop 2 s)
      else if take 3 s = bytes_of [0xE2, 0x84, 0xAA] then CHR ''k'' # lower_name (drop 3 s)
      else (let n = of_char (hd s) :: nat
            in if 65 \<le> n \<and> n \<le> 90 then char_of (n + 32) else hd s) # lower_name (tl s))"
  by pat_completeness auto

termination
  by (relation "measure length") auto

declare lower_name.simps [simp del]

section \<open>Configurations\<close>

record target_cfg =
  cType :: string
  cOptions :: string
  cFormat :: string
  cFormatOptions :: string
  cLevels :: "level list"
  cMaxQueueSize :: int

text \<open>
  What \<^verbatim>\<open>json.Unmarshal\<close> makes of raw options in a struct of its zero value, for each type of options;
  of the options of a console only \<^verbatim>\<open>out\<close> is read.
\<close>

record unmarshal_env =
  um_console :: "string \<Rightarrow> go_error + string"
  um_file :: "string \<Rightarrow> go_error + file_options"
  um_tcp :: "string \<Rightarrow> go_error + tcp_options"
  um_syslog :: "string \<Rightarrow> go_error + syslog_options"
  um_json :: "string \<Rightarrow> go_error + json"
  um_plain :: "string \<Rightarrow> go_error + plain"
  um_gelf :: "string \<Rightarrow> go_error + gelf"

datatype builtin_target =
    Console bool  \<comment> \<open>whether to standard error\<close>
  | FileTarget file_options
  | TcpTarget tcp_options
  | SyslogTarget syslog_options

text \<open>A target with its state, by its interface; a factory returns one or nil, and an error or nil.\<close>

type_synonym 't made = "'t target_iface \<times> 't"
type_synonym 't target_factory = "string \<Rightarrow> string \<Rightarrow> 't made option \<times> go_error option"
type_synonym formatter_factory = "string \<Rightarrow> string \<Rightarrow> formatter_iface option \<times> go_error option"

definition in_quotes :: "string \<Rightarrow> string" where
  "in_quotes s = [CHR 39] @ s @ [CHR 39]"

definition wrap :: "string \<Rightarrow> go_error option \<Rightarrow> go_error" where
  "wrap text err = (case err of Some e \<Rightarrow> WrapError text e | None \<Rightarrow> ErrorText (text @ '': %!w(<nil>)''))"

definition checked :: "string \<Rightarrow> string \<Rightarrow> ('o \<Rightarrow> go_error option) \<Rightarrow> go_error + 'o \<Rightarrow> go_error + 'o" where
  "checked decoding invalid check res =
     (case res of
        Inl e \<Rightarrow> Inl (WrapError decoding e)
      | Inr o' \<Rightarrow> (case check o' of Some e \<Rightarrow> Inl (WrapError invalid e) | None \<Rightarrow> Inr o'))"

text \<open>\<^verbatim>\<open>newTarget\<close>: \<open>build\<close> constructs the built-in targets; no target is the nil of the type \<^verbatim>\<open>none\<close>.\<close>

definition newTarget ::
  "unmarshal_env \<Rightarrow> (builtin_target \<Rightarrow> 't made) \<Rightarrow> string \<Rightarrow> string \<Rightarrow> 't target_factory option \<Rightarrow>
   go_error + 't made option" where
  "newTarget um build targetType options factory =
     (let ty = lower_name targetType
      in if ty = ''console'' then
           (case (if length options \<noteq> 0
                  then checked ''error decoding console target options'' [] (\<lambda>o'. None) (um_console um options)
                  else Inr []) of
              Inl e \<Rightarrow> Inl e
            | Inr out \<Rightarrow>
                (if out = ''stderr'' then Inr (Some (build (Console True)))
                 else if out = ''stdout'' \<or> out = [] then Inr (Some (build (Console False)))
                 else Inl (ErrorText (''invalid console target option '' @ in_quotes out))))
         else if ty = ''file'' then
           (if length options = 0 then Inl (ErrorText ''missing file target options'')
            else case checked ''error decoding file target options'' ''invalid file target options''
                        FileOptions_CheckValid (um_file um options) of
                   Inl e \<Rightarrow> Inl e | Inr fo \<Rightarrow> Inr (Some (build (FileTarget fo))))
         else if ty = ''tcp'' then
           (if length options = 0 then Inl (ErrorText ''missing TCP target options'')
            else case checked ''error decoding TCP target options'' ''invalid TCP target options''
                        TcpOptions_CheckValid (um_tcp um options) of
                   Inl e \<Rightarrow> Inl e | Inr to \<Rightarrow> Inr (Some (build (TcpTarget to))))
         else if ty = ''syslog'' then
           (if length options = 0 then Inl (ErrorText ''missing SysLog target options'')
            else case checked ''error decoding Syslog target options'' ''invalid SysLog target options''
                        SyslogOptions_CheckValid (um_syslog um options) of
                   Inl e \<Rightarrow> Inl e
                 | Inr so \<Rightarrow> (case NewSyslogTarget (Some so) of
                     Inl e \<Rightarrow> Inl e | Inr so \<Rightarrow> Inr (Some (build (SyslogTarget so)))))
         else if ty = ''none'' then Inr None
         else case factory of
                Some f \<Rightarrow>
                  (case f targetType options of
                     (Some t, None) \<Rightarrow> Inr (Some t)
                   | (t, err) \<Rightarrow> Inl (wrap ''error from target factory'' err))
              | None \<Rightarrow> Inl (ErrorText (''target type '' @ in_quotes targetType @ '' is unrecognized'')))"


text \<open>\<^verbatim>\<open>newFormatter\<close>: options are decoded and checked only if there are any.\<close>

definition JSON_iface :: "fmt_env \<Rightarrow> json_env \<Rightarrow> json \<Rightarrow> formatter_iface" where
  "JSON_iface env js j =
     \<lparr>IsStacktraceNeeded = JSON_IsStacktraceNeeded j,
      Format = (\<lambda>r l b. fst (JSON_Format env js j r l (Some b)))\<rparr>"

definition Plain_iface :: "fmt_env \<Rightarrow> plain \<Rightarrow> formatter_iface" where
  "Plain_iface env p =
     \<lparr>IsStacktraceNeeded = Plain_IsStacktraceNeeded p,
      Format = (\<lambda>r l b. Plain_Format env p r l (Some b))\<rparr>"

definition Gelf_iface :: "fmt_env \<Rightarrow> json_env \<Rightarrow> gelf \<Rightarrow> formatter_iface" where
  "Gelf_iface env js g =
     \<lparr>IsStacktraceNeeded = Gelf_IsStacktraceNeeded g,
      Format = (\<lambda>r l b. Gelf_Format env js g r l (Some b))\<rparr>"

definition zero_Gelf :: gelf where
  "zero_Gelf = \<lparr>gHostname = [], gEnableCaller = False, gFieldSorter = None\<rparr>"

definition newFormatter ::
  "fmt_env \<Rightarrow> json_env \<Rightarrow> unmarshal_env \<Rightarrow> string \<Rightarrow> string \<Rightarrow> formatter_factory option \<Rightarrow>
   go_error + formatter_iface" where
  "newFormatter env js um format options factory =
     (let ty = lower_name format
      in if ty = ''json'' then
           (case (if length options \<noteq> 0
                  then checked ''error decoding JSON formatter options'' ''invalid JSON formatter options''
                         JSON_CheckValid (um_json um options)
                  else Inr zero_JSON) of
              Inl e \<Rightarrow> Inl e | Inr j \<Rightarrow> Inr (JSON_iface env js j))
         else if ty = ''plain'' then
           (case (if length options \<noteq> 0
                  then checked ''error decoding Plain formatter options'' ''invalid plain formatter options''
                         Plain_CheckValid (um_plain um options)
                  else Inr zero_Plain) of
              Inl e \<Rightarrow> Inl e | Inr p \<Rightarrow> Inr (Plain_iface env p))
         else if ty = ''gelf'' then
           (case (if length options \<noteq> 0
                  then checked ''error decoding Gelf formatter options'' ''invalid GELF formatter options''
                         Gelf_CheckValid (um_gelf um options)
                  else Inr zero_Gelf) of
              Inl e \<Rightarrow> Inl e | Inr g \<Rightarrow> Inr (Gelf_iface env js g))
         else case factory of
                Some f \<Rightarrow>
                  (case f format options of
                     (Some t, None) \<Rightarrow> Inr t
                   | (t, err) \<Rightarrow> Inl (wrap ''error from formatter factory'' err))
              | None \<Rightarrow> Inl (ErrorText (''format '' @ in_quotes format @ '' is unrecognized'')))"

fun newFilter_loop :: "custom_filter \<Rightarrow> level list \<Rightarrow> custom_filter" where
  "newFilter_loop cf [] = cf"
| "newFilter_loop cf (l # ls) = newFilter_loop (CustomFilter_Add cf [l]) ls"

definition newFilter :: "level list \<Rightarrow> filter_obj" where
  "newFilter ls = CustomFilter (newFilter_loop zero_CustomFilter ls)"

section \<open>ConfigureTargets\<close>

text \<open>
  What does not change during a call: the renderings, the decoders, the constructors, the factories,
  and the metrics of the engine.
\<close>

record 't config_env =
  ceFmt :: fmt_env
  ceJson :: json_env
  ceUnmarshal :: unmarshal_env
  ceBuild :: "builtin_target \<Rightarrow> 't made"
  ceTargets :: "'t target_factory option"
  ceFormatters :: "formatter_factory option"
  ceMetrics :: "(metrics_collector \<times> int64) option"

text \<open>One entry: \<open>Inl\<close> an error, \<open>Inr None\<close> nothing to add, \<open>Inr\<close> the target and the options of its host.\<close>

definition prepare_entry ::
  "'t config_env \<Rightarrow> string \<Rightarrow> target_cfg \<Rightarrow> go_error + ('t made \<times> host_options) option" where
  "prepare_entry ce name tcfg =
     (case newTarget (ceUnmarshal ce) (ceBuild ce) (cType tcfg) (cOptions tcfg) (ceTargets ce) of
        Inl e \<Rightarrow> Inl (WrapError (''error creating log target '' @ name) e)
      | Inr None \<Rightarrow> Inr None
      | Inr (Some target) \<Rightarrow>
          (case newFormatter (ceFmt ce) (ceJson ce) (ceUnmarshal ce) (cFormat tcfg) (cFormatOptions tcfg)
                  (ceFormatters ce) of
             Inl e \<Rightarrow> Inl (WrapError (''error creating formatter for log target '' @ name) e)
           | Inr formatter \<Rightarrow>
               (let qSize = (if cMaxQueueSize tcfg = 0 then 1000 else cMaxQueueSize tcfg)
                in Inr (Some (target,
                     \<lparr>optName = name, optFilter = Some (newFilter (cLevels tcfg)),
                      optFormatter = Some formatter, optMaxQueueSize = qSize,
                      optMetrics = ceMetrics ce\<rparr>)))))"

text \<open>The loop over the map, in the order in which it is visited.\<close>

fun configure_loop ::
  "'t config_env \<Rightarrow> (string \<times> target_cfg) list \<Rightarrow> 't engine \<Rightarrow> (go_error option \<times> 't engine) outcome" where
  "configure_loop ce [] lgr = Ret (None, lgr)"
| "configure_loop ce ((name, tcfg) # config) lgr =
     (case prepare_entry ce name tcfg of
        Inl e \<Rightarrow> Ret (Some e, lgr)
      | Inr None \<Rightarrow> configure_loop ce config lgr
      | Inr (Some ((target, st), opts)) \<Rightarrow>
          bind_outcome
            (if eShutdown lgr then Ret (AddTarget lgr (Inl (ErrorText [])))
             else bind_outcome (newTargetHost (ceFmt ce) 0 target st opts) (\<lambda>(updater, made).
                    Ret (AddTarget lgr made)))
            (\<lambda>(err, lgr).
              case err of
                Some e \<Rightarrow> Ret (Some (WrapError (''error adding log target '' @ name) e), lgr)
              | None \<Rightarrow> configure_loop ce config lgr))"

text \<open>\<open>rm_err\<close> is what \<^verbatim>\<open>RemoveTargets\<close> returns, after it has removed all targets.\<close>

definition ConfigureTargets ::
  "'t config_env \<Rightarrow> go_error option \<Rightarrow> (string \<times> target_cfg) list \<Rightarrow> 't engine \<Rightarrow>
   (go_error option \<times> 't engine) outcome" where
  "ConfigureTargets ce rm_err config lgr =
     (let lgr = RemoveTargets (\<lambda>ti. True) lgr
      in case rm_err of
           Some e \<Rightarrow> Ret (Some (WrapError ''error removing existing log targets'' e), lgr)
         | None \<Rightarrow> configure_loop ce config lgr)"

section \<open>What a configuration makes\<close>

lemma newFilter_loop_get:
  "levels_get (newFilter_loop cf ls) i = None \<longleftrightarrow> i \<notin> ID ` set ls \<and> levels_get cf i = None"
  by (induction ls arbitrary: cf) (auto simp: levels_get_Add_None_iff)

lemma newFilter_enables: "snd (GetEnabledLevel (newFilter ls) l) \<longleftrightarrow> ID l \<in> ID ` set ls"
  using newFilter_loop_get [of zero_CustomFilter ls "ID l"] by (auto simp: newFilter_def)

lemma newTarget_nil_iff:
  "newTarget um build ty options factory = Inr made \<Longrightarrow> made = None \<longleftrightarrow> lower_name ty = ''none''"
  unfolding newTarget_def Let_def
  by (auto simp del: split_paired_Ex split: if_splits sum.splits option.splits prod.splits)

lemma newTargetHost_fields:
  assumes "newTargetHost env n target st opts = Ret (g, Inr h)" "optName opts \<noteq> []"
    "optFilter opts = Some flt"
  shows "hName h = optName opts" "hFilter h = flt" "hCap h = nat (optMaxQueueSize opts)"
    "0 \<le> optMaxQueueSize opts"
  using assms by (auto simp: newTargetHost_def Let_def split: if_splits sum.splits prod.splits option.splits)

text \<open>The entries that make a target, and what their hosts are like.\<close>

definition makes_target :: "string \<times> target_cfg \<Rightarrow> bool" where
  "makes_target e \<longleftrightarrow> lower_name (cType (snd e)) \<noteq> ''none''"

definition host_from :: "string \<times> target_cfg \<Rightarrow> 't host \<Rightarrow> bool" where
  "host_from e h \<longleftrightarrow>
     hName h = fst e \<and>
     int (hCap h) = (if cMaxQueueSize (snd e) = 0 then 1000 else cMaxQueueSize (snd e)) \<and>
     (\<forall>l. fst (host_IsLevelEnabled h l) \<longleftrightarrow> ID l \<in> ID ` set (cLevels (snd e)))"

lemma prepare_entry_cases:
  assumes "prepare_entry ce name tcfg = Inr made"
  shows "made = None \<longleftrightarrow> \<not> makes_target (name, tcfg)"
    and "made = Some (t, opts) \<Longrightarrow> optName opts = name \<and> optFilter opts = Some (newFilter (cLevels tcfg)) \<and>
      optMaxQueueSize opts = (if cMaxQueueSize tcfg = 0 then 1000 else cMaxQueueSize tcfg)"
  using assms
  by (auto simp: prepare_entry_def makes_target_def Let_def dest: newTarget_nil_iff
      split: sum.splits option.splits)

lemma host_from_new:
  assumes "prepare_entry ce name tcfg = Inr (Some ((target, st), opts))" "name \<noteq> []"
    "newTargetHost env n target st opts = Ret (g, Inr h)"
  shows "host_from (name, tcfg) h"
proof -
  note opts = prepare_entry_cases(2) [OF assms(1) refl]
  note h = newTargetHost_fields [OF assms(3), of "newFilter (cLevels tcfg)"]
  show ?thesis
    using opts h assms(2) by (simp add: host_from_def enables_level_iff [unfolded enables_level_def] newFilter_enables)
qed

text \<open>One turn of the loop: it ends with an error and leaves the engine, or goes on with at most one host more.\<close>

lemma configure_loop_turn:
  assumes "configure_loop ce (e # config) lgr = Ret (err, lgr')" "fst e \<noteq> []"
  shows "err \<noteq> None \<and> lgr' = lgr \<or>
    (\<exists>lgr1 hs. configure_loop ce config lgr1 = Ret (err, lgr') \<and> eHosts lgr1 = eHosts lgr @ hs \<and>
      list_all2 host_from (filter makes_target [e]) hs)"
proof (cases "prepare_entry ce (fst e) (snd e)")
  case (Inl x)
  then show ?thesis using assms(1) by (cases e) auto
next
  case (Inr made)
  show ?thesis
  proof (cases made)
    case None
    with Inr have "\<not> makes_target e"
      using prepare_entry_cases(1) by (cases e) fastforce
    with None Inr assms(1) show ?thesis by (cases e) auto
  next
    case (Some made')
    obtain target st opts where made: "made' = ((target, st), opts)"
      by (metis prod.exhaust)
    have makes: "makes_target e"
      using prepare_entry_cases(1) [OF Inr] Some by (cases e) simp
    show ?thesis
    proof (cases "eShutdown lgr")
      case True
      with assms(1) Inr Some made show ?thesis by (cases e) (auto simp: AddTarget_def)
    next
      case False
      then obtain g res where host: "newTargetHost (ceFmt ce) 0 target st opts = Ret (g, res)"
        using assms(1) Inr Some made by (cases e; cases "newTargetHost (ceFmt ce) 0 target st opts") auto
      have "host_from e h" if "res = Inr h" for h
        using host_from_new [of ce "fst e" "snd e" target st opts "ceFmt ce" 0 g h] that host Inr Some made assms(2)
        by simp
      with host assms(1) Inr Some made False makes show ?thesis
        by (cases e; cases res) (auto simp: AddTarget_def ResetLevelCache_def)
    qed
  qed
qed

lemma configure_loop_hosts:
  "configure_loop ce config lgr = Ret (err, lgr') \<Longrightarrow> \<forall>e\<in>set config. fst e \<noteq> [] \<Longrightarrow>
   \<exists>k\<le>length config. \<exists>hs. eHosts lgr' = eHosts lgr @ hs \<and>
     list_all2 host_from (filter makes_target (take k config)) hs \<and> (err = None \<longleftrightarrow> k = length config)"
proof (induction config arbitrary: lgr)
  case (Cons e config)
  have "fst e \<noteq> []"
    using Cons.prems(2) by simp
  with configure_loop_turn Cons.prems(1)
  consider "err \<noteq> None" "lgr' = lgr"
    | lgr1 hs1 where "configure_loop ce config lgr1 = Ret (err, lgr')" "eHosts lgr1 = eHosts lgr @ hs1"
        "list_all2 host_from (filter makes_target [e]) hs1"
    by blast
  then show ?case
  proof cases
    case 1
    then show ?thesis by (intro exI [of _ 0]) simp
  next
    case turn: 2
    obtain k hs where "k \<le> length config" "eHosts lgr' = eHosts lgr1 @ hs"
        "list_all2 host_from (filter makes_target (take k config)) hs" "err = None \<longleftrightarrow> k = length config"
      using Cons.IH [OF turn(1)] Cons.prems(2) by auto
    moreover from this(3) turn(3)
    have "list_all2 host_from (filter makes_target [e] @ filter makes_target (take k config)) (hs1 @ hs)"
      by (rule list_all2_appendI [rotated])
    ultimately show ?thesis
      using turn(2) by (intro exI [of _ "Suc k"] conjI exI [of _ "hs1 @ hs"]) (auto split: if_splits)
  qed
qed simp

lemma remove_all_loop: "remove_loop (\<lambda>ti. True) hs kept = kept"
  by (induction hs arbitrary: kept) simp_all


text \<open>A configuration of a console target and of one that is switched off.\<close>

definition demo_json_env :: json_env where
  "demo_json_env =
     \<lparr>is_json_object = (\<lambda>v. False), is_json_array = (\<lambda>v. False), json_Marshal = (\<lambda>v. Inr ''{}''),
      EncodeObject = (\<lambda>cs. Inr ''{}''), error_text = (\<lambda>e. ''error''), os_Hostname = Inr ''host'',
      egress_IP = Inr ''10.0.0.1'', f64_of_int = word_of_int, f64_add = (+), f64_div = (\<lambda>a b. a div b)\<rparr>"

definition demo_config_env :: "bytes config_env" where
  "demo_config_env =
     \<lparr>ceFmt = demo_env, ceJson = demo_json_env,
      ceUnmarshal = \<lparr>um_console = (\<lambda>o'. Inr ''stderr''), um_file = (\<lambda>o'. Inl (ForeignError ''json'')),
        um_tcp = (\<lambda>o'. Inl (ForeignError ''json'')), um_syslog = (\<lambda>o'. Inl (ForeignError ''json'')),
        um_json = (\<lambda>o'. Inr zero_JSON), um_plain = (\<lambda>o'. Inr zero_Plain), um_gelf = (\<lambda>o'. Inr zero_Gelf)\<rparr>,
      ceBuild = (\<lambda>b. (writer_target buffer_Write, [])), ceTargets = None, ceFormatters = None,
      ceMetrics = None\<rparr>"

definition demo_config :: "(string \<times> target_cfg) list" where
  "demo_config =
     [(''out'', \<lparr>cType = ''Console'', cOptions = ''{...}'', cFormat = ''PLAIN'', cFormatOptions = [],
        cLevels = [Info, Error], cMaxQueueSize = 0\<rparr>),
      (''off'', \<lparr>cType = ''none'', cOptions = [], cFormat = ''json'', cFormatOptions = [],
        cLevels = [Debug], cMaxQueueSize = 5\<rparr>)]"

definition demo_engine :: "bytes engine" where
  "demo_engine =
     \<lparr>eOpts = default_options, eCache = SyncMapCache zero_sync_cache, eHosts = [], eShutdown = False,
      eErrors = []\<rparr>"

lemma demo_names:
  "lower_name ''Console'' = ''console''" "lower_name ''PLAIN'' = ''plain''" "lower_name ''none'' = ''none''"
  by code_simp+


end
