(* ===== verification/FieldTypes.thy ===== *)
theory FieldTypes
  imports Plain JsonFormatters Sugar
begin

text \<open>
  The typing discipline behind a \<^verbatim>\<open>Field\<close> (\<^verbatim>\<open>field.go\<close>, \<^verbatim>\<open>fieldapi.go\<close>): the tag \<^verbatim>\<open>Type\<close> says which of
  the payloads holds the value and of which kind it is. \<^verbatim>\<open>ValueString\<close> and the encoders trust it. Here
  every field that the constructors make keeps the discipline, what the engine and the formatters do
  to a field on its way preserves it, and the renderers are safe on such fields: they do not panic,
  and report no error of their own. At the end, what \<^verbatim>\<open>MaxFieldLen\<close> bounds, and what it does not.
\<close>

section \<open>Well-typed fields\<close>

definition int_payload :: "field \<Rightarrow> bool" where
  "int_payload f \<longleftrightarrow> Float f = 0 \<and> FString f = [] \<and> Interface f = NilVal"

definition iface_payload :: "field \<Rightarrow> bool" where
  "iface_payload f \<longleftrightarrow> Integer f = 0 \<and> Float f = 0 \<and> FString f = []"

text \<open>The static types \<^verbatim>\<open>fmt.Stringer\<close> and \<^verbatim>\<open>error\<close>: a value with the method, or nil.\<close>

definition stringer_val :: "fmt_env \<Rightarrow> goval \<Rightarrow> bool" where
  "stringer_val env v \<longleftrightarrow> v = NilVal \<or> as_Stringer env v \<noteq> None"

fun error_val :: "goval \<Rightarrow> bool" where
  "error_val NilVal = True"
| "error_val (ObjVal c wr e s ty) = (e \<noteq> None)"
| "error_val _ = False"

fun slice_val :: "goval \<Rightarrow> bool" where
  "slice_val (SliceVal vs) = True"
| "slice_val (BytesVal b) = True"
| "slice_val _ = False"

fun map_val :: "goval \<Rightarrow> bool" where
  "map_val (MapVal kvs) = True"
| "map_val _ = False"

fun payload_ok :: "fmt_env \<Rightarrow> field_type \<Rightarrow> field \<Rightarrow> bool" where
  "payload_ok env StringType f \<longleftrightarrow> Integer f = 0 \<and> Float f = 0 \<and> Interface f = NilVal"
| "payload_ok env StringerType f \<longleftrightarrow> iface_payload f \<and> stringer_val env (Interface f)"
| "payload_ok env StructType f \<longleftrightarrow> iface_payload f"
| "payload_ok env ErrorType f \<longleftrightarrow> iface_payload f \<and> error_val (Interface f)"
| "payload_ok env BoolType f \<longleftrightarrow> int_payload f \<and> Integer f \<in> {0, 1}"
| "payload_ok env TimestampMillisType f \<longleftrightarrow> int_payload f"
| "payload_ok env TimeType f \<longleftrightarrow> iface_payload f \<and> (case Interface f of TimeVal t \<Rightarrow> True | _ \<Rightarrow> False)"
| "payload_ok env DurationType f \<longleftrightarrow> int_payload f"
| "payload_ok env Int64Type f \<longleftrightarrow> int_payload f"
| "payload_ok env Int32Type f \<longleftrightarrow> int_payload f \<and> - (2 ^ 31) \<le> sint (Integer f) \<and> sint (Integer f) < 2 ^ 31"
| "payload_ok env IntType f \<longleftrightarrow> int_payload f"
| "payload_ok env Uint64Type f \<longleftrightarrow> int_payload f"
| "payload_ok env Uint32Type f \<longleftrightarrow> int_payload f \<and> unat (Integer f) < 2 ^ 32"
| "payload_ok env UintType f \<longleftrightarrow> int_payload f"
| "payload_ok env Float64Type f \<longleftrightarrow> Integer f = 0 \<and> FString f = [] \<and> Interface f = NilVal"
| "payload_ok env Float32Type f \<longleftrightarrow> Integer f = 0 \<and> FString f = [] \<and> Interface f = NilVal"
| "payload_ok env BinaryType f \<longleftrightarrow>
     iface_payload f \<and> (case Interface f of BytesVal (Some b) \<Rightarrow> True | _ \<Rightarrow> False)"
| "payload_ok env ArrayType f \<longleftrightarrow> iface_payload f \<and> slice_val (Interface f)"
| "payload_ok env MapType f \<longleftrightarrow> iface_payload f \<and> map_val (Interface f)"
| "payload_ok env UnknownType f \<longleftrightarrow> iface_payload f"
| "payload_ok env (OtherType n) f \<longleftrightarrow> False"

definition well_typed :: "fmt_env \<Rightarrow> field \<Rightarrow> bool" where
  "well_typed env f \<longleftrightarrow> payload_ok env (FType f) f"

lemmas payload_defs = int_payload_def iface_payload_def stringer_val_def

section \<open>The fields an application can make\<close>

text \<open>
  The values that Go's types admit behind the pointers of \<^verbatim>\<open>fieldForAny\<close>: a \<^verbatim>\<open>*fmt.Stringer\<close> points to a
  \<^verbatim>\<open>fmt.Stringer\<close>, and a \<^verbatim>\<open>LimitedStringer\<close> wraps one.
\<close>

fun go_typed :: "fmt_env \<Rightarrow> goval \<Rightarrow> bool" where
  "go_typed env (PtrStringer (Some v)) \<longleftrightarrow> stringer_val env v"
| "go_typed env (LimitedStringer v n) \<longleftrightarrow> as_Stringer env v \<noteq> None"
| "go_typed env (PtrVal (Some v)) \<longleftrightarrow> go_typed env v"
| "go_typed env v \<longleftrightarrow> True"

text \<open>
  The constructors of \<^verbatim>\<open>fieldapi.go\<close> with arguments of their static types, \<^verbatim>\<open>Any\<close> when it returns, the
  shortening of \<^verbatim>\<open>enqueue\<close>, and the change of a key by a formatter.
\<close>

inductive api_field :: "fmt_env \<Rightarrow> field \<Rightarrow> bool" for env where
  Any: "go_typed env v \<Longrightarrow> Any k v = Ret f \<Longrightarrow> api_field env f"
| Int64: "api_field env (Int64 k i)"
| Int32: "api_field env (Int32 k j)"
| Int: "api_field env (IntOf k (i :: 64 word))"
| Int_32: "api_field env (IntOf k (j :: 32 word))"
| Int_16: "api_field env (IntOf k (l :: 16 word))"
| Int_8: "api_field env (IntOf k (m :: 8 word))"
| Uint64: "api_field env (Uint64 k i)"
| Uint32: "api_field env (Uint32 k j)"
| Uint: "api_field env (UintOf k (i :: 64 word))"
| Uint_32: "api_field env (UintOf k (j :: 32 word))"
| Uint_16: "api_field env (UintOf k (l :: 16 word))"
| Uint_8: "api_field env (UintOf k (m :: 8 word))"
| Float64: "api_field env (Float64 k x)"
| Float32: "api_field env (Float32 k x)"
| Float: "api_field env (FloatOf k x)"
| String: "api_field env (StringOf k s)"
| Stringer: "stringer_val env v \<Longrightarrow> api_field env (Stringer k v)"
| Err: "error_val v \<Longrightarrow> api_field env (Err v)"
| NamedErr: "error_val v \<Longrightarrow> api_field env (NamedErr k v)"
| Bool: "api_field env (Bool k b)"
| Time: "api_field env (Time k tm)"
| Duration: "api_field env (Duration k i)"
| Millis: "api_field env (Millis k i)"
| Array: "slice_val v \<Longrightarrow> api_field env (Array k v)"
| Map: "map_val v \<Longrightarrow> api_field env (Map k v)"
| limit: "api_field env f \<Longrightarrow> api_field env (limit_field env n f)"
| rekey: "api_field env f \<Longrightarrow> api_field env (f\<lparr>Key := k\<rparr>)"

lemma payload_rekey [simp]: "well_typed env (f\<lparr>Key := k\<rparr>) = well_typed env f"
  by (cases "FType f") (simp_all add: well_typed_def payload_defs)

lemma well_typed_limit: "well_typed env f \<Longrightarrow> well_typed env (limit_field env n f)"
  by (cases "FType f") (auto simp: well_typed_def limit_field_def payload_defs split: option.split)

lemma int32_range: "- (2 ^ 31) \<le> sint (scast (v :: 32 word) :: int64)" "sint (scast (v :: 32 word) :: int64) < 2 ^ 31"
proof -
  have "sint (scast v :: int64) = sint v"
    by (simp add: sint_up_scast is_up)
  then show "- (2 ^ 31) \<le> sint (scast v :: int64)" "sint (scast v :: int64) < 2 ^ 31"
    using sint_ge [of v] sint_lt [of v] by simp_all
qed

lemma uint32_range: "unat (ucast (v :: 32 word) :: 64 word) < 2 ^ 32"
proof -
  have "unat v < 2 ^ 32"
    using unsigned_less [of v] by simp
  then show ?thesis
    by (simp add: unsigned_ucast_eq take_bit_nat_eq_self)
qed

lemma well_typed_Any: "go_typed env v \<Longrightarrow> fieldForAny k v = Ret f \<Longrightarrow> well_typed env f"
proof (induction k v rule: fieldForAny.induct)
  case (1 k c wr e s ty)
  then show ?case
    by (auto simp: well_typed_def field_defs payload_defs split: option.splits)
next
  case (3 k v)
  then show ?case
    by (auto simp: well_typed_def field_defs payload_defs split: goval.splits option.splits)
qed (auto simp: well_typed_def field_defs payload_defs)

lemma api_field_well_typed: "api_field env f \<Longrightarrow> well_typed env f"
proof (induction rule: api_field.induct)
  case (Any v k f)
  then show ?case by (simp add: Any_def well_typed_Any)
next
  case (Int32 k j)
  show ?case using int32_range [of j] by (simp add: well_typed_def field_defs payload_defs)
next
  case (Uint32 k j)
  show ?case using uint32_range [of j] by (simp add: well_typed_def field_defs payload_defs)
next
  case (limit f n)
  then show ?case by (simp add: well_typed_limit)
next
  case (rekey f k)
  then show ?case by simp
qed (simp_all add: well_typed_def [of _ "_ _"] field_defs payload_defs)

section \<open>Errors come from the writer or from LogWrite\<close>

definition errs_in :: "go_error set \<Rightarrow> 's io \<Rightarrow> bool" where
  "errs_in E a \<longleftrightarrow> (\<forall>st e. fst (a st) = Some e \<longrightarrow> e \<in> E)"

definition writer_errs :: "'s writer \<Rightarrow> go_error set" where
  "writer_errs w = {e. \<exists>p st. snd (fst (w p st)) = Some e}"

text \<open>The errors that the methods \<^verbatim>\<open>LogWrite\<close> of a value, or of its items, return.\<close>

definition LogWrite_errs :: "goval \<Rightarrow> go_error set" where
  "LogWrite_errs v = (case as_LogWriter v of Some (cs, Some e) \<Rightarrow> {e} | _ \<Rightarrow> {})"

fun value_errs :: "goval \<Rightarrow> go_error set" where
  "value_errs (SliceVal vs) = (\<Union>v\<in>set vs. LogWrite_errs v)"
| "value_errs (MapVal kvs) = (\<Union>kv\<in>set kvs. LogWrite_errs (snd kv))"
| "value_errs v = LogWrite_errs v"

lemma errs_in_seq: "errs_in E a \<Longrightarrow> errs_in E b \<Longrightarrow> errs_in E (seq_io a b)"
  unfolding errs_in_def seq_io_def by (auto split: prod.splits option.splits) (metis fst_conv)+

lemma errs_in_write: "writer_errs w \<subseteq> E \<Longrightarrow> errs_in E (write_io w p)"
proof -
  have "fst (write_io w p st) = snd (fst (w p st))" for st
    by (simp add: write_io_def split: prod.split)
  then show "writer_errs w \<subseteq> E \<Longrightarrow> errs_in E (write_io w p)"
    by (auto simp: errs_in_def writer_errs_def)
qed

lemma errs_in_skip: "errs_in E skip_io"
  by (simp add: errs_in_def skip_io_def)

lemma errs_in_quote: "writer_errs w \<subseteq> E \<Longrightarrow> errs_in E (quoteString w s sq)"
  by (simp add: quoteString_def Let_def errs_in_seq errs_in_write errs_in_skip)

lemma errs_in_chunks: "writer_errs w \<subseteq> E \<Longrightarrow> set_option err \<subseteq> E \<Longrightarrow> errs_in E (chunks_io w cs err)"
proof (induction cs)
  case Nil
  then show ?case by (auto simp: errs_in_def)
qed (simp add: errs_in_seq errs_in_write)

lemma errs_in_LogWriter:
  "as_LogWriter v = Some lw \<Longrightarrow> writer_errs w \<subseteq> E \<Longrightarrow> LogWrite_errs v \<subseteq> E \<Longrightarrow> errs_in E (LogWrite w lw)"
  by (cases lw; cases "snd lw") (auto simp: LogWrite_def LogWrite_errs_def intro!: errs_in_chunks)

lemma errs_in_item: "writer_errs w \<subseteq> E \<Longrightarrow> LogWrite_errs v \<subseteq> E \<Longrightarrow> errs_in E (item_io env w sq v)"
  by (auto simp: item_io_def errs_in_LogWriter errs_in_quote split: option.split)

lemma errs_in_array:
  "writer_errs w \<subseteq> E \<Longrightarrow> \<forall>v\<in>set vs. LogWrite_errs v \<subseteq> E \<Longrightarrow> errs_in E (array_io env w sq vs)"
  by (induction vs) (simp_all add: errs_in_skip errs_in_seq errs_in_item errs_in_write)

lemma errs_in_map:
  "writer_errs w \<subseteq> E \<Longrightarrow> \<forall>kv\<in>set kvs. LogWrite_errs (snd kv) \<subseteq> E \<Longrightarrow> errs_in E (map_io env w sq kvs)"
proof (induction kvs)
  case (Cons kv kvs)
  then show ?case
    by (cases kv) (simp add: errs_in_skip errs_in_seq errs_in_item errs_in_write)
qed (simp add: errs_in_skip)

lemmas errs_in_routines = errs_in_write errs_in_quote errs_in_LogWriter errs_in_array errs_in_map

text \<open>Progress: on a well-typed field the renderer neither panics nor complains of the type.\<close>

lemma well_typed_renders:
  assumes "well_typed env f"
  shows "\<exists>a. ValueString env f w q = Ret a \<and> errs_in (writer_errs w \<union> value_errs (Interface f)) a"
proof (cases "FType f")
  case StructType
  then show ?thesis
    by (cases "Interface f") (auto simp: ValueString_def Let_def intro!: errs_in_routines split: option.split)
next
  case StringerType
  with assms show ?thesis
    by (auto simp: ValueString_def Let_def well_typed_def stringer_val_def intro!: errs_in_routines
        split: option.split)
next
  case TimeType
  with assms show ?thesis
    by (cases "Interface f") (auto simp: ValueString_def Let_def well_typed_def intro!: errs_in_routines)
next
  case BinaryType
  then show ?thesis
    by (cases "Interface f") (auto simp: ValueString_def Let_def intro!: errs_in_routines)
next
  case ArrayType
  with assms show ?thesis
    by (cases "Interface f")
      (auto simp: ValueString_def Let_def well_typed_def LogWrite_errs_def intro!: errs_in_routines)
next
  case MapType
  with assms show ?thesis
    by (cases "Interface f") (auto simp: ValueString_def Let_def well_typed_def intro!: errs_in_routines)
next
  case (OtherType n)
  with assms show ?thesis by (simp add: well_typed_def)
qed (auto simp: ValueString_def Let_def intro!: errs_in_routines)



text \<open>A field put together by hand need not be safe: an array field of a string panics or prints bytes.\<close>

lemma raw_field_panics:
  "\<exists>m. ValueString env (zero_field\<lparr>FType := ArrayType\<rparr>) w q = Panics m"
  by (simp add: ValueString_def zero_field_def Let_def)

section \<open>From the arguments of a call to the formatted record\<close>

text \<open>The fields of \<^verbatim>\<open>Sugar\<close>: those it is given, and \<^verbatim>\<open>Any\<close> of the values.\<close>

fun arg_ok :: "fmt_env \<Rightarrow> (field \<Rightarrow> goval) \<Rightarrow> kv_arg \<Rightarrow> bool" where
  "arg_ok env fv (FieldArg f) \<longleftrightarrow> api_field env f \<and> go_typed env (fv f)"
| "arg_ok env fv (ValArg v) \<longleftrightarrow> go_typed env v"

lemma arg_ok_val: "arg_ok env fv a \<Longrightarrow> go_typed env (arg_val fv a)"
  by (cases a) simp_all

lemma read_args_typed:
  "read_args fv pos as = Ret (fs, told) \<Longrightarrow> \<forall>a\<in>set as. arg_ok env fv a \<Longrightarrow>
   (\<forall>f\<in>set fs. api_field env f) \<and> (\<forall>(m, f)\<in>set told. api_field env f)"
proof (induction as arbitrary: pos fs told rule: length_induct)
  case (1 as)
  note IH = 1(1) [rule_format] and ok = 1(3)
  show ?case
  proof (cases "(fv, pos, as)" rule: read_args.cases)
    case (1 fv' pos')
    with \<open>read_args fv pos as = _\<close> show ?thesis by simp
  next
    case (2 fv' pos' f as')
    then obtain fs' where "read_args fv (pos + 1) as' = Ret (fs', told)" "fs = f # fs'"
      using \<open>read_args fv pos as = _\<close> by (auto simp: bind_outcome_Ret_iff)
    with IH [of as' "pos + 1" fs' told] 2 ok show ?thesis by simp
  next
    case (3 fv' pos' v)
    with \<open>read_args fv pos as = _\<close> ok show ?thesis
      by (auto simp: bind_outcome_Ret_iff intro: api_field.Any)
  next
    case (4 fv' pos' v a as')
    note as = 4
    show ?thesis
    proof (cases "\<exists>key. v = StringVal key")
      case True
      then obtain key f fs' where "Any key (arg_val fv a) = Ret f" "fs = f # fs'"
          "read_args fv (pos + 2) as' = Ret (fs', told)"
        using as \<open>read_args fv pos as = _\<close> by (auto simp: bind_outcome_Ret_iff)
      with IH [of as' "pos + 2" fs' told] as ok show ?thesis
        by (auto intro: api_field.Any arg_ok_val)
    next
      case False
      then obtain told' where "read_args fv (pos + 2) as' = Ret (fs, told')"
          "told = (''invalid key for key/value pair'', IntOf ''pos'' (of_nat pos :: int64)) # told'"
        using as \<open>read_args fv pos as = _\<close> by (cases v) (auto simp: bind_outcome_Ret_iff)
      with IH [of as' "pos + 2" fs told'] as ok show ?thesis
        by (auto intro: api_field.Int)
    qed
  qed
qed

lemma argsToFields_typed:
  "argsToFields fv kvs = Ret (fs, told) \<Longrightarrow> \<forall>a\<in>set kvs. arg_ok env fv a \<Longrightarrow>
   (\<forall>f\<in>set fs. api_field env f) \<and> (\<forall>(m, f)\<in>set told. api_field env f)"
  using read_args_typed by (simp add: argsToFields_eq)

text \<open>What a call on \<^verbatim>\<open>Logger\<close> hands to the queue: its own fields, shortened, after those of \<^verbatim>\<open>With\<close>.\<close>

lemma Logger_Log_fields:
  assumes "Logger_Log env rt lgr logger lvl msg flds = Ret (Some r, flds', lgr')"
  shows "\<exists>g. fieldsAll (prep flt resolve r) = lgFields logger @ map g flds \<and> (g = id \<or> (\<exists>n. g = limit_field env n))"
proof -
  obtain opt st where r: "r = limit_rec env opt (NewLogRec (fst rt) (snd rt) lvl logger msg flds st)"
    using assms by (auto simp: Logger_Log_def bind_outcome_Ret_iff Let_def split: if_splits)
  have "recFields (NewLogRec (fst rt) (snd rt) lvl logger msg flds st) = flds" "recLogger r = logger"
    by (simp_all add: r NewLogRec_def limit_rec_def Let_def)
  then have "fieldsAll (prep flt resolve r) =
      lgFields logger @ map (if maxFieldLen opt > 0 then limit_field env (maxFieldLen opt) else id) flds"
    by (simp add: r limit_rec_def Let_def)
  then show ?thesis
    by (intro exI [of _ "if maxFieldLen opt > 0 then limit_field env (maxFieldLen opt) else id"]) auto
qed

lemma Logger_Log_typed:
  assumes "Logger_Log env rt lgr logger lvl msg flds = Ret (Some r, flds', lgr')"
    and "\<forall>f\<in>set (lgFields logger @ flds). api_field env f"
  shows "\<forall>f\<in>set (fieldsAll (prep flt resolve r)). api_field env f"
  using Logger_Log_fields [OF assms(1), of flt resolve] assms(2)
  by (auto simp del: fieldsAll_prep intro!: api_field.limit)

lemma typed_value_text:
  assumes "api_field env f" "value_errs (Interface f) = {}"
  shows "value_text env sq f \<noteq> None"
proof -
  obtain a where a: "ValueString env f buffer_Write (Some sq) = Ret a"
      "errs_in (writer_errs buffer_Write \<union> value_errs (Interface f)) a"
    using well_typed_renders [OF api_field_well_typed [OF assms(1)]] by blast
  have "writer_errs buffer_Write = {}"
    by (simp add: writer_errs_def buffer_Write_def)
  with a assms(2) have "fst (a []) = None"
    by (simp add: errs_in_def)
  with a(1) show ?thesis
    by (cases "a []") (simp add: value_text_def)
qed

lemma value_errs_limit: "value_errs (Interface f) = {} \<Longrightarrow> value_errs (Interface (limit_field env n f)) = {}"
  by (auto simp: limit_field_def LogWrite_errs_def split: field_type.split option.split)

lemma Logger_Log_no_errs:
  assumes "Logger_Log env rt lgr logger lvl msg flds = Ret (Some r, flds', lgr')"
    and "\<forall>f\<in>set (lgFields logger @ flds). value_errs (Interface f) = {}"
  shows "\<forall>f\<in>set (fieldsAll (prep flt resolve r)). value_errs (Interface f) = {}"
  using Logger_Log_fields [OF assms(1), of flt resolve] assms(2)
  by (auto simp del: fieldsAll_prep simp: value_errs_limit)

lemma typed_record_text:
  assumes "\<forall>f\<in>set (fieldsAll r). api_field env f" "\<forall>f\<in>set (fieldsAll r). value_errs (Interface f) = {}"
  shows "DefaultFormatter_Format env r l (Some b) = Ret (Inr (b @ default_text env r l))"
    and "Plain_Format env p r l (Some b) = Ret (Inr (b @ plain_line env p r l))"
proof -
  have has_text: "\<forall>f\<in>set (fieldsAll r). value_text env shouldQuote f \<noteq> None"
    using assms typed_value_text by blast
  then have "\<forall>f\<in>set (plain_fields p r). value_text env shouldQuote f \<noteq> None"
    by (auto simp: plain_fields_def value_text_StringOf)
  with DefaultFormatter_Format_text [OF has_text, of l "Some b"] Plain_Format_text [of p r env l "Some b"]
  show "DefaultFormatter_Format env r l (Some b) = Ret (Inr (b @ default_text env r l))"
    and "Plain_Format env p r l (Some b) = Ret (Inr (b @ plain_line env p r l))"
    by simp_all
qed

lemma length_quoted_le: "length (quoted sq s) \<le> length s + 2"
  by (simp add: quoted_def Quote_def)

lemma limit_field_key_type [simp]:
  "FType (limit_field env n f) = FType f" "Key (limit_field env n f) = Key f"
  by (simp_all add: limit_field_def split: field_type.split option.split)

lemma limited_value_text:
  assumes "0 < n" "FType f \<in> {StringType, StringerType}" "value_text env sq (limit_field env n f) = Some t"
  shows "int (length t) \<le> n + 5"
proof -
  obtain s where t: "t = quoted sq s" and s: "s = [] \<or> (\<exists>s'. s = LimitString s' n)"
  proof (cases "FType f = StringType")
    case True
    with assms(3) show ?thesis
      by (intro that [of "LimitString (FString f) n"])
         (auto simp: limit_field_def value_text_def ValueString_def writer_simps)
  next
    case False
    with assms(2) have stringer: "FType f = StringerType" by simp
    show ?thesis
    proof (cases "as_Stringer env (Interface f)")
      case None
      with stringer assms(3) show ?thesis
        by (intro that [of "[]"])
           (auto simp: limit_field_def value_text_def ValueString_def fail_io_def writer_simps split: if_splits)
    next
      case (Some s)
      with stringer assms(3) show ?thesis
        by (intro that [of "LimitString s n"])
           (auto simp: limit_field_def value_text_def ValueString_def LimitedStringer_String_def writer_simps)
    qed
  qed
  from s have "int (length s) \<le> n + 3"
    using length_LimitString_le [OF assms(1)] assms(1) by auto
  then show ?thesis
    using length_quoted_le [of sq s] by (simp add: t)
qed

lemma engine_IsLevelEnabled_opts:
  "engine_IsLevelEnabled lgr lvl = Ret (st, lgr') \<Longrightarrow> eOpts lgr' = eOpts lgr"
  by (auto simp: engine_IsLevelEnabled_def ReportError_def bind_outcome_Ret_iff Let_def split: if_splits option.splits prod.splits)

lemma tiny_engine_logs:
  fixes lgr :: "nat engine"
  assumes "engine_New [] opts = Inr lgr"
  shows "\<exists>r flds' lgr'. Logger_Log demo_env rt (lgr\<lparr>eHosts := [tiny_host]\<rparr>) NewLogger Info msg flds = Ret (Some r, flds', lgr')"
proof -
  let ?lgr = "lgr\<lparr>eHosts := [tiny_host]\<rparr>"
  have inv: "engine_inv (\<lambda>_. Info) ?lgr" and up: "\<not> eShutdown ?lgr"
    using engine_New_cache [OF assms] assms
    by (auto simp: engine_inv_def lc_inv_clear lc.coherent_clear engine_New_def Let_def split: sum.splits option.splits if_splits)
  have "lc_covers (eCache ?lgr) (ID Info)"
    by (rule lc_covers_below) (simp add: MaxLevelID_def)
  from Logger_Log_record [OF inv up this refl, of demo_env rt NewLogger msg flds]
  obtain ro flds' lgr' where log: "Logger_Log demo_env rt ?lgr NewLogger Info msg flds = Ret (ro, flds', lgr')"
    and lvls: "map recLevel (case ro of None \<Rightarrow> [] | Some r \<Rightarrow> [r]) =
        filter (\<lambda>l. \<exists>h\<in>set (eHosts ?lgr). enables_level h l) [Info]"
    by blast
  have "enables_level (tiny_host :: nat host) Info"
    by (simp add: enables_level_iff tiny_host_def StdFilter_IsEnabled_def)
  with lvls obtain r where "ro = Some r"
    by (cases ro) auto
  with log show ?thesis by blast
qed



text \<open>
  C27: With a limit of \<open>n\<close> bytes set with \<^verbatim>\<open>MaxFieldLen\<close>, the message of a record has at most \<open>n\<close> bytes
  and an ellipsis, and each string or \<^verbatim>\<open>Stringer\<close> field given to the call is rendered with at most two
  quotes more, however long its value is. The fields of \<^verbatim>\<open>With\<close>, which come first, are not limited.
\<close>

theorem limited_record_bounds:
  assumes "Logger_Log env rt lgr logger lvl msg flds = Ret (Some r, flds', lgr')"
    and "maxFieldLen (eOpts lgr) = n" "0 < n"
  shows "int (length (recMsg r)) \<le> n + 3 \<and>
    (\<exists>limited. fieldsAll (prep flt resolve r) = lgFields logger @ limited \<and> map Key limited = map Key flds \<and>
      (\<forall>f\<in>set limited. \<forall>t. FType f \<in> {StringType, StringerType} \<longrightarrow> value_text env sq f = Some t \<longrightarrow>
        int (length t) \<le> n + 5))"
proof -
  obtain st where "r = limit_rec env (eOpts lgr) (NewLogRec (fst rt) (snd rt) lvl logger msg flds st)"
    using assms(1) by (auto simp: Logger_Log_def bind_outcome_Ret_iff Let_def engine_IsLevelEnabled_opts split: if_splits)
  then have msg: "recMsg r = LimitString msg n"
    and fields: "fieldsAll (prep flt resolve r) = lgFields logger @ map (limit_field env n) flds"
    using assms(2,3) by (simp_all add: limit_rec_def NewLogRec_def Let_def)
  have "\<forall>f\<in>set (map (limit_field env n) flds). \<forall>t. FType f \<in> {StringType, StringerType} \<longrightarrow>
      value_text env sq f = Some t \<longrightarrow> int (length t) \<le> n + 5"
    using limited_value_text [OF assms(3)] by (simp, blast)
  then show ?thesis
    using fields msg length_LimitString_le [OF assms(3)] by (intro conjI exI [of _ "map (limit_field env n) flds"]) (simp_all add: o_def)
qed


theorem limited_record_bounds_witness:
  "\<exists>(lgr :: nat engine) r flds' lgr'. engine_New [] [MaxFieldLen 3] = Inr lgr \<and>
     Logger_Log demo_env (zero_time, []) (lgr\<lparr>eHosts := [tiny_host]\<rparr>) NewLogger Info ''hello world'' [StringOf ''k'' ''a long value''] =
       Ret (Some r, flds', lgr') \<and> length (recMsg r) \<le> 6"
proof -
  obtain lgr :: "nat engine" where lgr: "engine_New [] [MaxFieldLen 3] = Inr lgr"
    by (simp add: engine_New_def MaxFieldLen_def)
  obtain r flds' lgr' where log: "Logger_Log demo_env (zero_time, []) (lgr\<lparr>eHosts := [tiny_host]\<rparr>) NewLogger Info
      ''hello world'' [StringOf ''k'' ''a long value''] = Ret (Some r, flds', lgr')"
    using tiny_engine_logs [OF lgr] by blast
  have "maxFieldLen (eOpts (lgr\<lparr>eHosts := [tiny_host]\<rparr>)) = 3"
    using lgr by (auto simp: engine_New_def MaxFieldLen_def default_options_def)
  from limited_record_bounds [OF log this] lgr log show ?thesis
    by (intro exI conjI) auto
qed

end
