(* ===== verification/TestLogger.thy ===== *)
theory TestLogger
  imports Config FieldTypes
begin

text \<open>
  The logger for unit tests (\<^verbatim>\<open>CreateTestLogger\<close> of \<^verbatim>\<open>targets/testing.go\<close>), put together from the other
  theories as the code does it: an engine with default options, a \<^verbatim>\<open>CustomFilter\<close> with the levels, a
  \<^verbatim>\<open>Plain\<close> formatter that shows the caller, and a \<^verbatim>\<open>Testing\<close> target. It serves as the place where a
  call of \<^verbatim>\<open>Log\<close> is followed from the application to the text a target writes.
\<close>

section \<open>The logger and its shutdown\<close>

definition test_plain :: plain where
  "test_plain = zero_Plain\<lparr>pEnableCaller := True\<rparr>"

definition test_options :: "fmt_env \<Rightarrow> level list \<Rightarrow> host_options" where
  "test_options env lvls =
     \<lparr>optName = ''test'', optFilter = Some (CustomFilter (NewCustomFilter lvls)),
      optFormatter = Some (Plain_iface env test_plain), optMaxQueueSize = 1000, optMetrics = None\<rparr>"

text \<open>
  The logger, the engine, and whether the test was marked as failed. The error of \<^verbatim>\<open>New\<close> is dropped,
  and the nil engine that comes with it panics in \<^verbatim>\<open>AddTarget\<close>.
\<close>

definition CreateTestLogger ::
  "fmt_env \<Rightarrow> string \<Rightarrow> level list \<Rightarrow> testing \<Rightarrow> (logger \<times> testing engine \<times> bool) outcome" where
  "CreateTestLogger env pkgName lvls t =
     (case engine_New pkgName [] of
        Inl e \<Rightarrow> Panics ''invalid memory address or nil pointer dereference''
      | Inr lgr \<Rightarrow>
          bind_outcome (newTargetHost env 0 testing_target t (test_options env lvls)) (\<lambda>(updater, made).
            case AddTarget lgr made of (err, lgr) \<Rightarrow> Ret (NewLogger, lgr, err \<noteq> None)))"

text \<open>
  The function it returns, from the result of \<^verbatim>\<open>Shutdown\<close> and the state of the target then: \<^verbatim>\<open>Error\<close> of
  a nil \<^verbatim>\<open>*testing.T\<close> panics. \<open>sprint\<close> is the text \<^verbatim>\<open>Error\<close> logs for the message and the error.
\<close>

definition test_shutdown ::
  "(string \<Rightarrow> go_error \<Rightarrow> string) \<Rightarrow> go_error option \<Rightarrow> testing \<Rightarrow> (go_error option \<times> testing) outcome" where
  "test_shutdown sprint err tt =
     (case err of
        None \<Rightarrow> Ret (None, tt)
      | Some e \<Rightarrow>
          (case tt of
             None \<Rightarrow> Panics ''invalid memory address or nil pointer dereference''
           | Some log \<Rightarrow> Ret (Some e, Some (log @ [sprint ''error shutting down test logger'' e]))))"

section \<open>From Log to the test's output\<close>

lemma NewCustomFilter_enables:
  "snd (GetEnabledLevel (CustomFilter (NewCustomFilter lvls)) l) \<longleftrightarrow> ID l \<in> ID ` set lvls"
  by (auto simp: NewCustomFilter_def levels_get_Add_None_iff)

lemma CreateTestLogger_host:
  "\<exists>lgr h. CreateTestLogger env pkgName lvls t = Ret (NewLogger, lgr, False) \<and> eHosts lgr = [h] \<and>
     hFilter h = CustomFilter (NewCustomFilter lvls) \<and> hFormatter h = Plain_iface env test_plain \<and>
     hTarget h = testing_target \<and> hState h = t \<and> \<not> eShutdown lgr \<and> (\<forall>us. engine_inv us lgr)"
proof -
  obtain lgr :: "testing engine" where lgr: "engine_New pkgName [] = Inr lgr"
    by (auto simp: engine_New_def Let_def)
  obtain h g where h: "newTargetHost env 0 testing_target t (test_options env lvls) = Ret (g, Inr h)"
    "hFilter h = CustomFilter (NewCustomFilter lvls)" "hFormatter h = Plain_iface env test_plain"
    "hTarget h = testing_target" "hState h = t"
    by (auto simp: newTargetHost_def test_options_def host_initMetrics_def testing_target_def Let_def)
  have "eHosts lgr = []" "\<not> eShutdown lgr"
    using lgr by (auto simp: engine_New_def Let_def split: sum.splits)
  moreover have "engine_inv us (snd (AddTarget lgr (Inr h)))" for us
    using engine_inv_New [OF lgr] by (rule engine_inv_Add)
  ultimately show ?thesis
    using lgr h by (auto simp: CreateTestLogger_def AddTarget_def ResetLevelCache_def)
qed

text \<open>
  C23: A test logger logs exactly the levels it was created with. \<^verbatim>\<open>Log\<close> at another level makes no
  record. At one of its levels it makes one, and when the host writes it, prepared, the output of
  the test grows by one line: the text of \<^verbatim>\<open>Plain\<close>, with the caller, without the space around it;
  provided the fields are made with the constructors and no \<^verbatim>\<open>LogWrite\<close> of a value fails.
\<close>

theorem test_logger_logs:
  assumes "CreateTestLogger env pkgName lvls (Some out) = Ret (logger, lgr, failed)"
    and "ID lvl < MaxLevelID" "\<forall>f\<in>set flds. api_field env f \<and> value_errs (Interface f) = {}"
  shows "\<exists>h ro flds' lgr'. eHosts lgr = [h] \<and> \<not> failed \<and>
    Logger_Log env rt lgr logger lvl msg flds = Ret (ro, flds', lgr') \<and>
    (case ro of
       None \<Rightarrow> ID lvl \<notin> ID ` set lvls
     | Some r0 \<Rightarrow> ID lvl \<in> ID ` set lvls \<and>
         (let r = prep flt resolve r0; shown = fst (GetEnabledLevel (hFilter h) lvl)
          in writeRec h r = (Ret None, Some (out @ [TrimSpace (plain_line env test_plain r shown)]))))"
proof -
  obtain h where h: "logger = NewLogger" "\<not> failed" "eHosts lgr = [h]"
    "hFilter h = CustomFilter (NewCustomFilter lvls)" "hFormatter h = Plain_iface env test_plain"
    "hTarget h = testing_target" "hState h = Some out" "\<not> eShutdown lgr" "\<And>us. engine_inv us lgr"
    using CreateTestLogger_host [of env pkgName lvls "Some out"] assms(1) by auto
  have on: "enables_level h lvl \<longleftrightarrow> ID lvl \<in> ID ` set lvls"
    using NewCustomFilter_enables by (simp add: enables_level_iff h(4))
  from Logger_Log_record [OF h(9) h(8) lc_covers_below [OF assms(2)], of "\<lambda>_. lvl" env rt logger msg flds]
  obtain ro flds' lgr' where log: "Logger_Log env rt lgr logger lvl msg flds = Ret (ro, flds', lgr')"
    and made: "map recLevel (case ro of None \<Rightarrow> [] | Some r \<Rightarrow> [r]) = filter (\<lambda>l. \<exists>h\<in>set (eHosts lgr). enables_level h l) [lvl]"
    by auto
  have "case ro of None \<Rightarrow> ID lvl \<notin> ID ` set lvls
     | Some r0 \<Rightarrow> ID lvl \<in> ID ` set lvls \<and>
         (let r = prep flt resolve r0; shown = fst (GetEnabledLevel (hFilter h) lvl)
          in writeRec h r = (Ret None, Some (out @ [TrimSpace (plain_line env test_plain r shown)])))"
  proof (cases ro)
    case None
    with made on show ?thesis by (auto simp: h(3) split: if_splits)
  next
    case (Some r0)
    with made on have lvl: "recLevel r0 = lvl" "ID lvl \<in> ID ` set lvls"
      by (auto simp: h(3) split: if_splits)
    let ?r = "prep flt resolve r0" and ?shown = "fst (GetEnabledLevel (hFilter h) lvl)"
    have r: "recLevel ?r = lvl"
      by (simp add: lvl(1) prep_def Let_def)
    have shown: "snd (GetEnabledLevel (hFilter h) lvl)"
      using on lvl(2) by (simp add: enables_level_iff)
    have typed: "\<forall>f\<in>set (fieldsAll ?r). api_field env f"
      by (rule Logger_Log_typed [OF log [unfolded Some]]) (use assms(3) in \<open>simp add: h(1) NewLogger_def\<close>)
    have quiet: "\<forall>f\<in>set (fieldsAll ?r). value_errs (Interface f) = {}"
      by (rule Logger_Log_no_errs [OF log [unfolded Some]]) (use assms(3) in \<open>simp add: h(1) NewLogger_def\<close>)
    have line: "Plain_Format env test_plain ?r ?shown (Some []) = Ret (Inr (plain_line env test_plain ?r ?shown))"
      using typed_record_text(2) [OF typed quiet, of test_plain ?shown "[]"] by simp
    show ?thesis
      using Some lvl(2) r shown line
      by (auto simp: writeRec_def Let_def h(5-7) Plain_iface_def testing_target_def Testing_Write_def split: prod.split)
  qed
  with log h(2,3) show ?thesis by blast
qed

theorem test_logger_logs_witness:
  "\<exists>logger (lgr :: testing engine) h r0 flds' lgr'.
     CreateTestLogger demo_env [] [Info] (Some [''before'']) = Ret (logger, lgr, False) \<and> eHosts lgr = [h] \<and>
     Logger_Log demo_env (zero_time, []) lgr logger Info ''hi'' [Bool ''k'' True] = Ret (Some r0, flds', lgr') \<and>
     (\<exists>line. writeRec h (prep {} (\<lambda>pcs. []) r0) = (Ret None, Some [''before'', line]))"
proof -
  obtain lgr :: "testing engine" where made:
      "CreateTestLogger demo_env [] [Info] (Some [''before'']) = Ret (NewLogger, lgr, False)"
    using CreateTestLogger_host [of demo_env "[]" "[Info]" "Some [''before'']"] by blast
  have "ID Info < MaxLevelID" "\<forall>f\<in>set [Bool ''k'' True]. api_field demo_env f \<and> value_errs (Interface f) = {}"
    by (simp_all add: MaxLevelID_def api_field.Bool LogWrite_errs_def) (simp add: field_defs LogWrite_errs_def)
  from test_logger_logs [OF made this, of "(zero_time, [])" "''hi''" "{}" "\<lambda>pcs. []"] made
  show ?thesis
    by (auto simp: Let_def split: option.splits)
qed

text \<open>
  Calling the function twice, or after a shutdown that ended with an error, panics: the target has
  let go of the test by then.
\<close>

lemma test_shutdown_again_panics:
  assumes "hTarget h = testing_target" "host_finish_shutdown h = (err, h')"
  shows "hState h' = None \<and> (\<exists>m. test_shutdown sprint (Some e) (hState h') = Panics m)"
  using assms by (auto simp: host_finish_shutdown_def testing_target_def Testing_Shutdown_def test_shutdown_def
      split: prod.splits)

end
