(* ===== verification/ReadBack.thy ===== *)
theory ReadBack
  imports Formatter
begin

text \<open>
  Reading the key-value pairs of a text record back. \<^verbatim>\<open>quoteString\<close> does not escape quotes, so this is
  possible only for values without them; for such values a simple reader gets all pairs back, from
  what \<^verbatim>\<open>WriteFields\<close> of \<^verbatim>\<open>formatter.go\<close> writes.
\<close>

section \<open>A reader\<close>

text \<open>A value, and what follows it: up to the closing quote if it starts with one, else up to a space.\<close>

fun read_value :: "bytes \<Rightarrow> bytes \<times> bytes" where
  "read_value [] = ([], [])"
| "read_value (c # t) =
     (if c = CHR 0x22 then (takeWhile (\<lambda>d. d \<noteq> CHR 0x22) t, drop 1 (dropWhile (\<lambda>d. d \<noteq> CHR 0x22) t))
      else (takeWhile (\<lambda>d. d \<noteq> CHR '' '') (c # t), dropWhile (\<lambda>d. d \<noteq> CHR '' '') (c # t)))"

lemma read_value_shorter: "length (snd (read_value s)) \<le> length s"
proof (cases s)
  case (Cons c t)
  have "length (dropWhile P t) \<le> length t" for P
    by (rule length_dropWhile_le)
  from this [of "\<lambda>d. d \<noteq> CHR 0x22"] this [of "\<lambda>d. d \<noteq> CHR '' ''"] Cons show ?thesis
    by auto
qed simp

text \<open>The pairs: a key up to the equals sign, a value, and a space before the next pair.\<close>

function read_pairs :: "bytes \<Rightarrow> (bytes \<times> bytes) list" where
  "read_pairs s =
     (if s = [] then []
      else let k = takeWhile (\<lambda>d. d \<noteq> CHR ''='') s;
               (v, rest) = read_value (drop 1 (dropWhile (\<lambda>d. d \<noteq> CHR ''='') s))
           in (k, v) # read_pairs (drop 1 rest))"
  by pat_completeness auto

termination
proof (relation "measure length")
  fix s k x v rest
  assume s: "s \<noteq> []" and x: "x = read_value (drop 1 (dropWhile (\<lambda>d. d \<noteq> CHR ''='') s))" "(v, rest) = x"
  have "length rest \<le> length (dropWhile (\<lambda>d. d \<noteq> CHR ''='') s) - 1"
    using read_value_shorter [of "drop 1 (dropWhile (\<lambda>d. d \<noteq> CHR ''='') s)"] x
    by (metis length_drop snd_conv)
  moreover have "length (dropWhile (\<lambda>d. d \<noteq> CHR ''='') s) \<le> length s"
    by (rule length_dropWhile_le)
  ultimately show "(drop 1 rest, s) \<in> measure length"
    using s by (cases s) auto
qed simp

declare read_pairs.simps [simp del]

section \<open>What it reads\<close>

definition no_quote :: "bytes \<Rightarrow> bool" where
  "no_quote s \<longleftrightarrow> CHR 0x22 \<notin> set s"

lemma cut_at:
  "e \<notin> set s \<Longrightarrow> takeWhile (\<lambda>d. d \<noteq> e) (s @ e # r) = s"
  "e \<notin> set s \<Longrightarrow> dropWhile (\<lambda>d. d \<noteq> e) (s @ e # r) = e # r"
  "e \<notin> set s \<Longrightarrow> takeWhile (\<lambda>d. d \<noteq> e) s = s"
  "e \<notin> set s \<Longrightarrow> dropWhile (\<lambda>d. d \<noteq> e) s = []"
  by (induction s) auto

lemma read_value_quoted:
  assumes "no_quote s" and rest: "rest = [] \<or> (\<exists>r. rest = CHR '' '' # r)"
  shows "read_value (quoted shouldQuote s @ rest) = (s, rest)"
proof (cases "shouldQuote s")
  case True
  then show ?thesis
    using assms(1) by (auto simp: quoted_def Quote_def no_quote_def cut_at)
next
  case False
  then have safe: "\<forall>d\<in>set s. d \<noteq> CHR '' '' \<and> d \<noteq> CHR 0x22"
    by (auto simp: shouldQuote_iff safe_char_def safe_rune_def)
  show ?thesis
  proof (cases s)
    case Nil
    with False rest show ?thesis by (auto simp: quoted_def)
  next
    case (Cons c t)
    have space: "CHR '' '' \<notin> set s"
      using safe by auto
    from rest have "takeWhile (\<lambda>d. d \<noteq> CHR '' '') (s @ rest) = s \<and> dropWhile (\<lambda>d. d \<noteq> CHR '' '') (s @ rest) = rest"
    proof
      assume "\<exists>r. rest = CHR '' '' # r"
      with space show "takeWhile (\<lambda>d. d \<noteq> CHR '' '') (s @ rest) = s \<and>
          dropWhile (\<lambda>d. d \<noteq> CHR '' '') (s @ rest) = rest" by (auto simp: cut_at)
    qed (use space in \<open>simp add: cut_at\<close>)
    with Cons safe False show ?thesis by (simp add: quoted_def)
  qed
qed

lemma read_pairs_Nil [simp]: "read_pairs [] = []"
  by (simp add: read_pairs.simps)

lemma read_pairs_Cons:
  assumes "CHR ''='' \<notin> set k" "no_quote v" "rest = [] \<or> (\<exists>r. rest = CHR '' '' # r)"
  shows "read_pairs (k @ ''='' @ quoted shouldQuote v @ rest) = (k, v) # read_pairs (drop 1 rest)"
proof -
  let ?x = "quoted shouldQuote v @ rest"
  have cut: "takeWhile (\<lambda>d. d \<noteq> CHR ''='') (k @ ''='' @ ?x) = k" "dropWhile (\<lambda>d. d \<noteq> CHR ''='') (k @ ''='' @ ?x) = ''='' @ ?x"
    using assms(1) by (simp_all add: cut_at)
  have "read_value (drop 1 (''='' @ ?x)) = (v, rest)"
    using read_value_quoted [OF assms(2,3)] by simp
  moreover have "k @ ''='' @ ?x \<noteq> []"
    by simp
  ultimately show ?thesis
    by (subst read_pairs.simps) (simp only: cut if_False Let_def prod.case)
qed

text \<open>A field says \<open>s\<close> if its value is written as \<open>s\<close>, in quotes if need be.\<close>

definition says :: "fmt_env \<Rightarrow> field \<Rightarrow> bytes \<Rightarrow> bool" where
  "says env f s \<longleftrightarrow> value_text env shouldQuote f = Some (quoted shouldQuote s)"

lemma says_String [simp]: "says env (StringOf k v) s \<longleftrightarrow> quoted shouldQuote v = quoted shouldQuote s"
  by (simp add: says_def value_text_StringOf)

lemma read_joined:
  "list_all2 (\<lambda>f s. says env f s \<and> CHR ''='' \<notin> set (Key f) \<and> no_quote s) fs vs \<Longrightarrow>
   read_pairs (join Space (map (pair_text env NoColor) fs)) = zip (map Key fs) vs"
proof (induction fs vs rule: list_all2_induct)
  case (Cons f fs s vs)
  define rest where "rest = concat (map (\<lambda>y. Space @ y) (map (pair_text env NoColor) fs))"
  have pair: "pair_text env NoColor f = Key f @ ''='' @ quoted shouldQuote s"
    using Cons.hyps by (simp add: pair_text_def says_def colored_def)
  have rest: "rest = [] \<or> (\<exists>r. rest = CHR '' '' # r)"
    unfolding rest_def by (cases fs) (simp_all add: Space_def)
  have tail: "drop 1 rest = join Space (map (pair_text env NoColor) fs)"
    unfolding rest_def by (cases fs) (simp_all add: Space_def)
  have "join Space (map (pair_text env NoColor) (f # fs)) = Key f @ ''='' @ quoted shouldQuote s @ rest"
    unfolding rest_def by (simp add: pair)
  also have "read_pairs \<dots> = (Key f, s) # read_pairs (drop 1 rest)"
    by (rule read_pairs_Cons) (use Cons.hyps rest in blast)+
  finally show ?case
    unfolding tail Cons.IH by (simp only: list.map zip_Cons_Cons)
qed (simp add: list.map)



end
