(* ===== verification/Rest.thy ===== *)
theory Rest
  imports Progress
begin

text \<open>
  The goroutines of the engine left to themselves: the read loop and the loops of the hosts, while no
  client moves (\<^verbatim>\<open>logr.go\<close>, \<^verbatim>\<open>target.go\<close>). Whatever the scheduler does they come to rest, after a number
  of steps that is known beforehand, and then everything is delivered, or the read loop waits for a
  flush that cannot be served.
\<close>

section \<open>Runs without clients\<close>

definition loop_step :: "'t sys \<Rightarrow> 't sys \<Rightarrow> bool" where
  "loop_step s s' \<longleftrightarrow>
     main_step s s' \<or>
     (\<exists>i h errs. i < length (hosts s) \<and> host_step (hosts s ! i) h errs \<and>
        s' = report errs (set_host i h s)) \<or>
     (\<exists>i h errs. i < length (gone s) \<and> host_step (gone s ! i) h errs \<and>
        s' = report errs (s\<lparr>gone := (gone s)[i := h]\<rparr>))"

definition at_rest :: "'t sys \<Rightarrow> bool" where
  "at_rest s \<longleftrightarrow> (\<forall>s'. \<not> loop_step s s')"

lemma loop_step_sys: "loop_step s s' \<Longrightarrow> sys_step s s'"
  unfolding loop_step_def by (blast intro: sys_step.intros)

lemma loop_stepE [consumes 1, case_names main host gone]:
  assumes "loop_step s s'"
  obtains "main_step s s'"
  | i h errs where "i < length (hosts s)" "host_step (hosts s ! i) h errs" "s' = report errs (set_host i h s)"
  | i h errs where "i < length (gone s)" "host_step (gone s ! i) h errs"
      "s' = report errs (s\<lparr>gone := (gone s)[i := h]\<rparr>)"
  using assms unfolding loop_step_def by blast

lemma loop_steps_reachable: "loop_step\<^sup>*\<^sup>* s s' \<Longrightarrow> reachable s \<Longrightarrow> reachable s'"
  by (induction rule: rtranclp_induct) (blast intro: reachable.step loop_step_sys)+

section \<open>How much there is to do\<close>

text \<open>
  A host: five steps at most for a queued record, fewer for what its loop holds. The read loop, with
  \<open>n\<close> hosts: ten steps at most for each host a record or a flush still has to visit.
\<close>

fun host_pc_work :: "host_pc \<Rightarrow> nat" where
  "host_pc_work HExited = 0"
| "host_pc_work HSelect = 1"
| "host_pc_work (HAck a) = 2"
| "host_pc_work (HFlush a) = 3"
| "host_pc_work (HGot r) = 4"

definition host_work :: "'t host \<Rightarrow> nat" where
  "host_work h = 5 * length (hIn h) + host_pc_work (hPc h)"

fun fan_work :: "nat \<Rightarrow> fan_cont \<Rightarrow> nat" where
  "fan_work n AtSelect = 1"
| "fan_work n (InDrain ch) = 10 * n + 4"

fun log_work :: "nat \<Rightarrow> log_cont \<Rightarrow> nat" where
  "log_work n (LFan c r is) = fan_work n c + 10 * length is + 1"
| "log_work n (LFlush ch is a) = 10 * length is + 4"

fun pc_work :: "nat \<Rightarrow> main_pc \<Rightarrow> nat" where
  "pc_work n MExited = 0"
| "pc_work n MSelect = 1"
| "pc_work n (MNotify ch) = 2"
| "pc_work n (MHosts ch is) = 10 * length is + 3"
| "pc_work n (MAck ch i is a) = 10 * length is + 4"
| "pc_work n (MDrain ch) = 10 * n + 4"
| "pc_work n (MFan c r is lg) = fan_work n c + 10 * length is + 1"
| "pc_work n (MLog k r i) = log_work n k + 8"
| "pc_work n (MBlocked k r i) = log_work n k + 7"
| "pc_work n (MGot r) = 10 * n + 6"

definition hosts_work :: "'t host list \<Rightarrow> nat" where
  "hosts_work hs = sum_list (map host_work hs)"

definition blocked_clients :: "'t sys \<Rightarrow> nat set" where
  "blocked_clients s = {c. \<exists>r k. clients s c = CBlocked r k}"

text \<open>A bound for the steps that are left: also a client that is blocked on a send adds a record.\<close>

definition work :: "'t sys \<Rightarrow> nat" where
  "work s =
     pc_work (length (hosts s)) (mpc s) +
     (10 * length (hosts s) + 6) * (length (qIn s) + card (blocked_clients s)) +
     hosts_work (hosts s) + hosts_work (gone s)"

lemma hosts_work_upd:
  "i < length hs \<Longrightarrow> hosts_work (hs[i := h]) + host_work (hs ! i) = hosts_work hs + host_work h"
  by (induction hs arbitrary: i) (auto simp: hosts_work_def split: nat.split)

lemma hosts_work_le:
  "i < length hs \<Longrightarrow> host_work h \<le> host_work (hs ! i) + k \<Longrightarrow> hosts_work (hs[i := h]) \<le> hosts_work hs + k"
  using hosts_work_upd [of i hs h] by simp

lemma hosts_work_same: "i < length hs \<Longrightarrow> host_work h = host_work (hs ! i) \<Longrightarrow> hosts_work (hs[i := h]) = hosts_work hs"
  using hosts_work_upd [of i hs h] by simp

lemma hosts_work_less: "i < length hs \<Longrightarrow> host_work h < host_work (hs ! i) \<Longrightarrow> hosts_work (hs[i := h]) < hosts_work hs"
  using hosts_work_upd [of i hs h] by simp

lemma host_step_work: "host_step h h' errs \<Longrightarrow> host_work h' < host_work h"
proof (induction rule: host_step.induct)
  case (write_rec h r h' errs)
  then show ?case
    using host_write_fields(2,3) [OF write_rec(3)] by (auto simp: host_work_def)
next
  case (drain_rec h ch r rs h' errs)
  then show ?case
    using host_write_fields(2,3) [OF drain_rec(4)] by (auto simp: host_work_def)
qed (auto simp: host_work_def)

lemma host_work_ops [simp]:
  "host_work (add_offer r ofr h) = host_work h" "host_work (incDroppedCounter h) = host_work h"
  "host_work (incBlockedCounter h) = host_work h"
  by (simp_all add: host_work_def add_offer_def metric_defs)

lemma host_work_send: "host_can_send h \<Longrightarrow> host_work (host_send h r) \<le> host_work h + 5"
  by (auto simp: host_work_def host_send_def host_can_send_def split: if_splits)

lemma hosts_work_skip: "hosts_work (skip_hosts r is hs) = hosts_work hs"
proof (induction r "is" hs rule: skip_hosts.induct)
  case (2 r i "is" hs)
  then show ?case
    by (cases "i < length hs") (auto simp: hosts_work_same list_update_beyond)
qed simp

text \<open>Only finitely many clients ever move.\<close>

definition finite_clients :: "'t sys \<Rightarrow> bool" where
  "finite_clients s \<longleftrightarrow> finite {c. clients s c \<noteq> CIdle}"

lemma finite_clients_upd: "finite {c. f c \<noteq> CIdle} \<Longrightarrow> finite {c. (f(c' := pc)) c \<noteq> CIdle}"
  by (rule finite_subset [of _ "insert c' {c. f c \<noteq> CIdle}"]) auto

lemma client_step_one: "client_step c s s' \<Longrightarrow> \<exists>pc. clients s' = (clients s)(c := pc)"
  by (induction rule: client_step.induct)
    (auto simp: sys_upd_defs after_enq_def q_send_def simp del: fun_upd_apply)

lemma main_step_one: "main_step s s' \<Longrightarrow> clients s' = clients s \<or> (\<exists>c pc. clients s' = (clients s)(c := pc))"
  by (induction rule: main_step.induct)
    (auto simp: log_eqs drain_got_def after_enq_def split: log_cont.splits simp del: fun_upd_apply)

interpretation few: sys_invariant "\<lambda>s. True" finite_clients
  by unfold_locales
    (auto simp: finite_clients_def init_sys_def sys_upd_defs intro: finite_clients_upd
      dest!: client_step_one main_step_one simp del: fun_upd_apply)

lemma few_blocked: "reachable s \<Longrightarrow> finite (blocked_clients s)"
  using few.holds [of s]
  by (auto simp: finite_clients_def blocked_clients_def elim: rev_finite_subset)


text \<open>The work goes down.\<close>

lemma work_same_hosts:
  "length (hosts s') = length (hosts s) \<Longrightarrow> qIn s' = qIn s \<Longrightarrow> clients s' = clients s \<Longrightarrow> gone s' = gone s \<Longrightarrow>
   pc_work (length (hosts s)) (mpc s') + hosts_work (hosts s') < pc_work (length (hosts s)) (mpc s) + hosts_work (hosts s) \<Longrightarrow>
   work s' < work s"
  by (simp add: work_def blocked_clients_def)

lemma after_fan_work [simp]: "pc_work n (after_fan c) = fan_work n c"
  by (cases c) auto

lemma log_done_work:
  assumes "i < length (hosts s)" "host_work h \<le> host_work (hosts s ! i) + k"
  shows "pc_work n (mpc (log_done j i ofr (set_host i h s))) + hosts_work (hosts (log_done j i ofr (set_host i h s))) \<le>
    log_work n j + hosts_work (hosts s) + k"
proof (cases j)
  case (LFan c r js)
  then show ?thesis
    using hosts_work_le [of i "hosts s" "add_offer r ofr h" k] assms by (simp add: sys_upd_defs)
next
  case (LFlush ch js a)
  then show ?thesis
    using hosts_work_le [of i "hosts s" h k] assms by (simp add: sys_upd_defs)
qed

lemma log_done_work_same:
  "i < length (hosts s) \<Longrightarrow> pc_work n (mpc (log_done j i ofr s)) + hosts_work (hosts (log_done j i ofr s)) \<le>
    log_work n j + hosts_work (hosts s)"
  using log_done_work [of i s "hosts s ! i" 0 n j ofr] by (simp add: set_host_def)

lemma log_done_keeps [simp]:
  "length (hosts (log_done k i ofr s)) = length (hosts s)" "qIn (log_done k i ofr s) = qIn s"
  "clients (log_done k i ofr s) = clients s" "gone (log_done k i ofr s) = gone s"
  by (cases k; simp add: sys_upd_defs)+

lemma log_panic_work:
  "pc_work n (mpc (log_panic k i e s)) + hosts_work (hosts (log_panic k i e s)) \<le> log_work n k + hosts_work (hosts s)"
  by (cases k) (simp_all add: sys_upd_defs end_fan_def hosts_work_skip del: skip_hosts.simps)

lemma log_panic_keeps [simp]:
  "length (hosts (log_panic k i e s)) = length (hosts s)" "qIn (log_panic k i e s) = qIn s"
  "clients (log_panic k i e s) = clients s" "gone (log_panic k i e s) = gone s"
  by (cases k; simp add: sys_upd_defs end_fan_def del: skip_hosts.simps)+


lemma drain_got_work:
  "pc_work (length (hosts s)) (mpc s) = 10 * length (hosts s) + 4 \<Longrightarrow>
   work (drain_got ch r s) \<le> work s + 10 * length (hosts s) + 1"
  by (auto simp: drain_got_def work_def blocked_clients_def)

lemma blocked_after_enq:
  "clients s c = CBlocked r k \<Longrightarrow> finite (blocked_clients s) \<Longrightarrow>
   card (blocked_clients s) = Suc (card (blocked_clients (after_enq c k s)))"
proof -
  assume *: "clients s c = CBlocked r k" "finite (blocked_clients s)"
  have "blocked_clients (after_enq c k s) = blocked_clients s - {c}"
    by (auto simp: blocked_clients_def after_enq_def sys_upd_defs split: enq_next.splits)
  moreover have "c \<in> blocked_clients s"
    using *(1) by (simp add: blocked_clients_def)
  ultimately show ?thesis
    using *(2) by (metis card.remove)
qed

lemma main_step_work:
  "main_step s s' \<Longrightarrow> pc_inv s \<Longrightarrow> finite (blocked_clients s) \<Longrightarrow> work s' < work s"
proof (induction rule: main_step.induct)
  case (m_drain s ch r rs)
  let ?s = "s\<lparr>qIn := rs\<rparr>"
  have "work ?s + 10 * length (hosts s) + 6 = work s"
    using m_drain(2) by (simp add: work_def blocked_clients_def)
  moreover have "work (drain_got ch r ?s) \<le> work ?s + 10 * length (hosts s) + 1"
    using drain_got_work [of ?s ch r] m_drain(1) by simp
  ultimately show ?case by simp
next
  case (m_drain_handoff s ch c r k)
  let ?s = "after_enq c k (s\<lparr>accepted := accepted s @ [r]\<rparr>)"
  have "card (blocked_clients s) = Suc (card (blocked_clients ?s))"
    using blocked_after_enq [of "s\<lparr>accepted := accepted s @ [r]\<rparr>" c r k] m_drain_handoff(3,6)
    by (simp add: blocked_clients_def)
  then have "work ?s + 10 * length (hosts s) + 6 = work s"
    by (simp add: work_def after_enq_def sys_upd_defs)
  moreover have "work (drain_got ch r ?s) \<le> work ?s + 10 * length (hosts s) + 1"
    using drain_got_work [of ?s ch r] m_drain_handoff(1) by (simp add: after_enq_def sys_upd_defs)
  ultimately show ?case by simp
next
  case (m_notify s ch c)
  then have "blocked_clients (return_to c None (s\<lparr>mpc := MSelect\<rparr>)) = blocked_clients s"
    by (auto simp: blocked_clients_def sys_upd_defs)
  with m_notify show ?case by (simp add: work_def) (simp add: return_to_def)
next
  case (m_notify_shut s ch c)
  then have "blocked_clients (set_client c CSwap (s\<lparr>mpc := MSelect\<rparr>)) = blocked_clients s"
    by (auto simp: blocked_clients_def sys_upd_defs)
  with m_notify_shut show ?case by (simp add: work_def) (simp add: set_client_def)
next
  case (m_recv s r rs)
  then show ?case by (simp add: work_def blocked_clients_def)
next
  case (m_send s k r i)
  then have "i < length (hosts s)" by (cases k) (auto simp: pc_inv_def)
  with m_send log_done_work [OF this host_work_send [OF m_send(2)], of "length (hosts s)" k OAccepted r]
  show ?case by (intro work_same_hosts) (simp_all add: set_host_def)
next
  case (m_blocked_send s k r i)
  then have "i < length (hosts s)" by (cases k) (auto simp: pc_inv_def)
  with m_blocked_send log_done_work [OF this host_work_send [OF m_blocked_send(2)], of "length (hosts s)" k OAccepted r]
  show ?case by (intro work_same_hosts) (simp_all add: set_host_def)
next
  case (m_full_drop s k r i f)
  then have "i < length (hosts s)" by (cases k) (auto simp: pc_inv_def)
  with m_full_drop log_done_work [OF this, of "incDroppedCounter (hosts s ! i)" 0 "length (hosts s)" k ODropped]
  show ?case by (intro work_same_hosts) (simp_all add: set_host_def)
next
  case (m_full_block s k r i)
  then have "i < length (hosts s)" by (cases k) (auto simp: pc_inv_def)
  with m_full_block show ?case
    by (intro work_same_hosts) (simp_all add: set_host_def hosts_work_same)
next
  case (m_full_panic s k r i f e)
  then show ?case
    using log_panic_work [of "length (hosts s)" k i e s] by (intro work_same_hosts) simp_all
next
  case (m_blocked_timeout s k r i)
  then have "i < length (hosts s)" by (cases k) (auto simp: pc_inv_def)
  with m_blocked_timeout log_done_work_same [of i "report [target_timeout_error s r] s" "length (hosts s)" k OTimedOut]
  show ?case by (intro work_same_hosts) (simp_all add: report_def)
next
  case (m_fan_shut s c r i "is" lg)
  then have "i < length (hosts s)" by (auto simp: pc_inv_def final_upt_Cons)
  with m_fan_shut log_done_work_same [of i s "length (hosts s)" "LFan c r is" OShut]
  show ?case by (intro work_same_hosts) (simp_all del: log_done.simps)
next
  case (m_ack s ch i "is" ack)
  then have "i < length (hosts s)" by (auto simp: pc_inv_def)
  with m_ack hosts_work_le [of i "hosts s" "(hosts s ! i)\<lparr>hPc := HSelect\<rparr>" 0]
  show ?case by (intro work_same_hosts) (simp_all add: set_host_def host_work_def)
qed (auto intro!: work_same_hosts simp: end_fan_def)

lemma loop_step_work:
  assumes "reachable s" "loop_step s s'"
  shows "work s' < work s"
  using assms(2)
proof (cases rule: loop_stepE)
  case main
  then show ?thesis
    using pcs.holds [OF assms(1)] few_blocked [OF assms(1)] by (rule main_step_work)
next
  case (host i h errs)
  then show ?thesis
    using hosts_work_less [OF _ host_step_work] by (simp add: work_def blocked_clients_def sys_upd_defs)
next
  case (gone i h errs)
  then show ?thesis
    using hosts_work_less [OF _ host_step_work] by (simp add: work_def blocked_clients_def sys_upd_defs)
qed


text \<open>
  C8: Without further calls the engine comes to rest, under every schedule: from a reachable state the
  read loop and the loops of the hosts take at most \<open>work s\<close> steps, however these are interleaved,
  also when queues are full, timers expire, handlers and targets fail or panic.
\<close>

theorem loops_come_to_rest:
  assumes "reachable s" "(loop_step ^^ n) s s'"
  shows "n + work s' \<le> work s"
  using assms(2)
proof (induction n arbitrary: s')
  case (Suc n)
  then obtain s1 where s1: "(loop_step ^^ n) s s1" "loop_step s1 s'"
    by auto
  then have "reachable s1"
    using assms(1) loop_steps_reachable relpowp_imp_rtranclp by metis
  from loop_step_work [OF this s1(2)] Suc.IH [OF s1(1)] show ?case by simp
qed simp

theorem loops_come_to_rest_witness:
  "\<exists>(s :: bytes sys) s'. reachable s \<and> length (hosts s) = 1 \<and> mpc s' = MDrain 0 \<and> (loop_step ^^ 1) s s' \<and>
     1 + work s' \<le> work s"
proof -
  obtain s :: "bytes sys" where s: "reachable s" "mpc s = MGot (newFlushLogRec NewLogger 0)" "hosts s = [open_host]"
    by (rule flush_received)
  have "flush (newFlushLogRec NewLogger 0) = Some 0"
    by (simp add: newFlushLogRec_def)
  with s(2) have "main_step s (s\<lparr>mpc := MDrain 0\<rparr>)"
    by (rule main_step.m_flush)
  then have "(loop_step ^^ 1) s (s\<lparr>mpc := MDrain 0\<rparr>)"
    by (auto simp: loop_step_def relcompp_apply)
  from loops_come_to_rest [OF s(1) this] this s(1,3) show ?thesis
    by (intro exI [of _ s] exI [of _ "s\<lparr>mpc := MDrain 0\<rparr>"]) simp
qed

section \<open>At rest\<close>

lemma host_at_rest:
  assumes "\<And>h' errs. \<not> host_step h h' errs"
  shows "hPc h = HSelect \<and> hIn h = [] \<and> \<not> hQuit h \<or> hPc h = HExited \<or> (\<exists>a. hPc h = HAck a)"
proof (cases "hPc h")
  case HSelect
  with assms host_step.recv host_step.quit show ?thesis by (cases "hIn h") blast+
next
  case (HGot r)
  obtain h' errs where "host_write True HSelect h r = (h', errs)" by fastforce
  with HGot assms host_step.write_rec host_step.begin_flush show ?thesis by (cases "flush r") blast+
next
  case (HFlush ch)
  show ?thesis
  proof (cases "hIn h")
    case Nil
    with HFlush assms host_step.drain_end show ?thesis by blast
  next
    case (Cons r rs)
    obtain h' errs where "host_write False (HFlush ch) (h\<lparr>hIn := rs, hTaken := hTaken h @ [r]\<rparr>) r = (h', errs)"
      by fastforce
    with HFlush Cons assms host_step.drain_rec host_step.drain_skip show ?thesis
      by (cases "flush r") blast+
  qed
qed simp_all

lemma Log_goes_on:
  assumes "mpc s = MLog k r i"
  shows "\<exists>s'. main_step s s'"
proof (cases "host_can_send (hosts s ! i)")
  case True
  with assms main_step.m_send show ?thesis by blast
next
  case full: False
  show ?thesis
  proof (cases "onTargetQueueFull (opts s)")
    case None
    with assms full main_step.m_full_block show ?thesis by blast
  next
    case (Some f)
    show ?thesis
    proof (cases "f i r (int (hCap (hosts s ! i)))")
      case (Ret b)
      with main_step.m_full_drop [OF assms full Some] main_step.m_full_block [OF assms full] Some
      show ?thesis by (cases b) auto
    next
      case (Panics e)
      with assms full Some main_step.m_full_panic show ?thesis by blast
    qed
  qed
qed

text \<open>Where the read loop can be when it cannot move, with the lock free.\<close>

lemma main_at_rest:
  assumes rest: "\<And>s'. \<not> main_step s s'" and free: "wlock s = None"
  shows "mpc s = MSelect \<and> qIn s = [] \<and> \<not> quitClosed s \<or> mpc s = MExited \<or>
    (\<exists>ch. mpc s = MNotify ch \<and> (\<forall>c sh. clients s c \<noteq> CWait ch sh)) \<or>
    (\<exists>ch i is a. mpc s = MAck ch i is a \<and> hPc (hosts s ! i) \<noteq> HAck a)"
proof (cases "mpc s")
  case MSelect
  with rest main_step.m_recv main_step.m_quit show ?thesis by (cases "qIn s") blast+
next
  case (MGot r)
  with rest free main_step.m_flush main_step.m_fanout show ?thesis by (cases "flush r") blast+
next
  case (MFan c r js lg)
  then have "\<exists>s'. main_step s s'"
    using main_step.m_fan_end [of s c r lg] main_step.m_fan_disabled [of s c r _ _ lg]
      main_step.m_fan_shut [of s c r _ _ lg] main_step.m_fan_log [of s c r _ _ lg]
    by (cases js) blast+
  with rest show ?thesis by blast
next
  case (MLog k r i)
  with rest Log_goes_on show ?thesis by blast
next
  case (MBlocked k r i)
  with rest main_step.m_blocked_timeout show ?thesis by blast
next
  case (MDrain ch)
  show ?thesis
  proof (cases "qIn s")
    case Nil
    with MDrain rest free main_step.m_drain_end main_step.m_drain_handoff show ?thesis
      unfolding client_blocked_def by blast
  next
    case (Cons r rs)
    with MDrain rest free main_step.m_drain show ?thesis by blast
  qed
next
  case (MHosts ch js)
  then have "\<exists>s'. main_step s s'"
    using main_step.m_hosts_end [of s ch] main_step.m_hosts_shut [of s ch] main_step.m_hosts_log [of s ch]
    by (cases js) blast+
  with rest show ?thesis by blast
next
  case (MAck ch i js a)
  with rest main_step.m_ack show ?thesis by blast
next
  case (MNotify ch)
  have "clients s c \<noteq> CWait ch sh" for c sh
    using rest main_step.m_notify [OF MNotify] main_step.m_notify_shut [OF MNotify] by (cases sh) auto
  with MNotify show ?thesis by blast
qed simp

lemma at_restD:
  assumes "at_rest s"
  shows "\<not> main_step s s'" "i < length (hosts s) \<Longrightarrow> \<not> host_step (hosts s ! i) h errs"
  using assms unfolding at_rest_def loop_step_def by blast+

lemma acks_awaited:
  assumes "reachable s" "i < length (hosts s)" "hPc (hosts s ! i) = HAck a"
  obtains ch js where "mpc s = MAck ch i js a"
proof -
  have "flush_ok (mpc s) i (hosts s ! i)"
    using flushing.holds [OF assms(1)] assms(2) by (simp add: flush_inv_def)
  with assms(3) have "awaited (mpc s) i = [a]"
    by (auto simp: flush_ok_def flushes_def)
  then show thesis
    using that awaited_single by blast
qed

lemma host_rests:
  assumes "reachable s" "at_rest s" "i < length (hosts s)"
  shows "quiet (hosts s ! i) \<or> hPc (hosts s ! i) = HExited"
proof (rule ccontr)
  assume not: "\<not> ?thesis"
  then obtain a where a: "hPc (hosts s ! i) = HAck a"
    using host_at_rest [of "hosts s ! i"] at_restD(2) [OF assms(2,3)] by (auto simp: quiet_def)
  then obtain ch js where "mpc s = MAck ch i js a"
    using acks_awaited [OF assms(1,3)] by blast
  with a at_restD(1) [OF assms(2)] main_step.m_ack show False by blast
qed

lemma select_all_fanned:
  assumes "reachable s" "mpc s = MSelect" "qIn s = []"
  shows "fanned s = map (prepped s) (log_recs (accepted s))"
  using flow.holds [OF assms(1)] assms(2,3) by (simp add: flow_inv_def)

text \<open>
  C9: When the engine has come to rest, with no removal of targets under way, then all that was
  logged is delivered: the queue is empty and what was accepted, with what blocked clients handed over
  meanwhile, has been fanned out; and each host whose loop has not ended has written what it took. The
  only exceptions: the read loop has ended after a shutdown, waits for a client that has given up
  its flush, or waits for a host that has no flush record to serve (as its queue is empty or its loop
  has ended).
\<close>

theorem rest_delivers:
  assumes "reachable s" "loop_step\<^sup>*\<^sup>* s s'" "at_rest s'" "wlock s' = None"
  shows "(mpc s' = MSelect \<and> qIn s' = [] \<and> fanned s' = map (prepped s') (log_recs (accepted s')) \<or>
      mpc s' = MExited \<and> quitClosed s' \<or>
      (\<exists>ch. mpc s' = MNotify ch \<and> (\<forall>c sh. clients s' c \<noteq> CWait ch sh)) \<or>
      (\<exists>ch i is a. mpc s' = MAck ch i is a \<and> (flushes (hosts s' ! i) = [] \<or> hPc (hosts s' ! i) = HExited))) \<and>
    (\<forall>h\<in>set (hosts s'). hPc h = HExited \<or> hIn h = [] \<and> map fst (hLog h) = taken_offers (hOffers h))"
proof
  have s': "reachable s'"
    using assms(2,1) by (rule loop_steps_reachable)
  have "\<forall>ch i js a. mpc s' = MAck ch i js a \<longrightarrow> flushes (hosts s' ! i) = [] \<or> hPc (hosts s' ! i) = HExited"
    using pcs.holds [OF s'] host_rests [OF s' assms(3)] by (fastforce simp: pc_inv_def quiet_def flushes_def)
  with main_at_rest [OF at_restD(1) [OF assms(3)] assms(4)] select_all_fanned [OF s'] shut.holds [OF s']
  show "mpc s' = MSelect \<and> qIn s' = [] \<and> fanned s' = map (prepped s') (log_recs (accepted s')) \<or>
      mpc s' = MExited \<and> quitClosed s' \<or>
      (\<exists>ch. mpc s' = MNotify ch \<and> (\<forall>c sh. clients s' c \<noteq> CWait ch sh)) \<or>
      (\<exists>ch i is a. mpc s' = MAck ch i is a \<and> (flushes (hosts s' ! i) = [] \<or> hPc (hosts s' ! i) = HExited))"
    unfolding shut_inv_def by blast
  have "hPc h = HExited \<or> hIn h = [] \<and> map fst (hLog h) = taken_offers (hOffers h)" if h: "h \<in> set (hosts s')" for h
  proof -
    obtain i where "i < length (hosts s')" "h = hosts s' ! i"
      using h by (auto simp: in_set_conv_nth)
    with host_rests [OF s' assms(3)] have "quiet h \<or> hPc h = HExited" by blast
    with host_quiet reachable_host_ok [OF s', of h] h show ?thesis by blast
  qed
  then show "\<forall>h\<in>set (hosts s'). hPc h = HExited \<or> hIn h = [] \<and> map fst (hLog h) = taken_offers (hOffers h)"
    by blast
qed


lemma idle_at_rest:
  assumes "mpc s = MSelect" "qIn s = []" "\<not> quitClosed s" "gone s = []"
    and "\<forall>h\<in>set (hosts s). hPc h = HSelect \<and> hIn h = [] \<and> \<not> hQuit h"
  shows "at_rest s"
proof -
  have "\<not> main_step s s'" for s'
    using assms(1-3) by (auto elim: main_step.cases)
  moreover have "\<not> host_step h h' errs" if "h \<in> set (hosts s)" for h h' errs
    using assms(5) that by (auto elim: host_step.cases)
  ultimately show ?thesis
    using assms(4) by (auto simp: at_rest_def loop_step_def)
qed

theorem rest_delivers_witness:
  "\<exists>s :: bytes sys. at_rest s \<and> map (recMsg \<circ> fst) (hLog (hosts s ! 0)) = [''one''] \<and>
     map fst (hLog (hosts s ! 0)) = taken_offers (hOffers (hosts s ! 0)) \<and>
     fanned s = map (prepped s) (log_recs (accepted s))"
proof -
  have "ends (flush_run @ [AMain 1]) demo_sys (\<lambda>s. mpc s = MSelect \<and> qIn s = [] \<and> \<not> quitClosed s \<and> gone s = [] \<and>
      wlock s = None \<and> length (hosts s) = 1 \<and> quiet (hosts s ! 0) \<and> \<not> hQuit (hosts s ! 0) \<and> \<not> hDone (hosts s ! 0) \<and>
      map (recMsg \<circ> fst) (hLog (hosts s ! 0)) = [''one''])"
    by code_simp
  then obtain s :: "bytes sys" where s: "reachable s"
      "mpc s = MSelect \<and> qIn s = [] \<and> \<not> quitClosed s \<and> gone s = [] \<and> wlock s = None \<and> length (hosts s) = 1 \<and>
       quiet (hosts s ! 0) \<and> \<not> hQuit (hosts s ! 0) \<and> \<not> hDone (hosts s ! 0) \<and>
       map (recMsg \<circ> fst) (hLog (hosts s ! 0)) = [''one'']"
    by (rule ends_demoE)
  then obtain h where h: "hosts s = [h]"
    by (auto simp: length_Suc_conv)
  then have "hPc h \<noteq> HExited"
    using s(2) reachable_host_ok [OF s(1), of h] by (auto simp: host_ok_def host_inv_def)
  moreover from this have "at_rest s"
    using s(2) h by (intro idle_at_rest) (auto simp: quiet_def)
  ultimately show ?thesis
    using rest_delivers [OF s(1) rtranclp.rtrancl_refl, of] s(2) h by (intro exI [of _ s]) auto
qed

end
