(* ===== verification/FlushLive.thy ===== *)
theory FlushLive
  imports Rest
begin

text \<open>
  A flush is served under every schedule of the read loop and the hosts (\<^verbatim>\<open>logr.go\<close>, \<^verbatim>\<open>target.go\<close>), if its
  hosts are open, their targets do not panic and the waits for room in their queues do not time out.
\<close>

section \<open>A flush under every schedule\<close>

text \<open>A step at which no wait of the read loop for room in a host's queue times out.\<close>

definition patient_step :: "'t sys \<Rightarrow> 't sys \<Rightarrow> bool" where
  "patient_step s s' \<longleftrightarrow>
     loop_step s s' \<and>
     (\<forall>k r i. mpc s = MBlocked k r i \<longrightarrow> s' \<noteq> log_done k i OTimedOut (report [target_timeout_error s r] s))"

definition tended :: "'t sys \<Rightarrow> bool" where
  "tended s \<longleftrightarrow>
     reachable s \<and> wlock s = None \<and> onTargetQueueFull (opts s) = None \<and> list_all ready (hosts s)"

text \<open>The read loop serves the flush of a client that waits, and the host it waits for knows of it.\<close>

definition under_way :: "nat \<Rightarrow> nat \<Rightarrow> 't sys \<Rightarrow> bool" where
  "under_way c ch s \<longleftrightarrow>
     clients s c = CWait ch False \<and> ch \<in> set (serves (mpc s)) \<and>
     (\<forall>i js a. mpc s = MAck ch i js a \<longrightarrow> flushes (hosts s ! i) = [a])"

lemma tended_host:
  assumes "tended s" "i < length (hosts s)"
  shows "host_ok (hosts s ! i)" "ready (hosts s ! i)" "flush_ok (mpc s) i (hosts s ! i)"
  using assms hosts.holds [of s] flushing.holds [of s]
  by (auto simp: tended_def hosts_all_def flush_inv_def list_all_length)

lemma tended_step:
  assumes "loop_step s s'" "tended s"
  shows "tended s'"
proof -
  have "reachable s'"
    using assms by (auto simp: tended_def intro: reachable.step loop_step_sys)
  moreover from assms(1) have "wlock s' = None \<and> opts s' = opts s \<and> list_all ready (hosts s')"
  proof (cases rule: loop_stepE)
    case main
    then show ?thesis
      using main_step_settings main_step_fixed list_all_ready_fixed assms(2) unfolding tended_def by metis
  next
    case (host i h errs)
    then have "ready h"
      using ready_fixed [OF host_step_fixed] tended_host(2) [OF assms(2)] by blast
    with host(3) assms(2) show ?thesis
      by (simp add: tended_def sys_upd_defs list_all_upd)
  qed (use assms(2) in \<open>simp add: tended_def sys_upd_defs\<close>)
  ultimately show ?thesis
    using assms(2) by (simp add: tended_def)
qed

lemma host_step_flushes:
  assumes "host_step h h' errs" "host_ok h" "ready h" "flush_ok pc j h" "flushes h = [a]"
  shows "flushes h' = [a]"
  using assms
proof (induction rule: host_step.induct)
  case (write_rec h r h' errs)
  then show ?case
    using host_write_fields [OF write_rec(3)] by (auto simp: flushes_def)
next
  case (drain_rec h ch r rs h' errs)
  have "never_panics (h\<lparr>hIn := rs, hTaken := hTaken h @ [r]\<rparr>)"
    using drain_rec(6) writeRec_same [of "h\<lparr>hIn := rs, hTaken := hTaken h @ [r], hState := st\<rparr>" "h\<lparr>hState := st\<rparr>" for st]
    by (simp add: ready_def never_panics_def)
  with drain_rec show ?case
    using host_write_fields [OF drain_rec(4)] host_write_drain(1) [OF drain_rec(4)] by (auto simp: flushes_def)
next
  case (quit h)
  then show ?case by (auto simp: host_ok_def host_inv_def ready_def)
qed (auto simp: flushes_def split: option.splits)

lemma under_way_main:
  assumes "main_step s s'" "patient_step s s'" "tended s" "under_way c ch s"
  shows "under_way c ch s' \<and> returns s' = returns s \<or> returns s' = returns s @ [(c, None)]"
  using assms
proof (induction rule: main_step.induct)
  case (m_send s k r i)
  then have "i < length (hosts s)"
    using pcs.holds [of s] by (cases k) (auto simp: tended_def pc_inv_def)
  with m_send show ?case
    using pcs.holds [of s] tended_host(3) [OF m_send(4), of i] flushes_send [OF m_send(2)]
    by (auto simp: under_way_def log_eqs tended_def pc_inv_def flush_ok_def split: log_cont.splits)
next
  case (m_blocked_send s k r i)
  then have "i < length (hosts s)"
    using pcs.holds [of s] by (cases k) (auto simp: tended_def pc_inv_def)
  with m_blocked_send show ?case
    using pcs.holds [of s] tended_host(3) [OF m_blocked_send(4), of i] flushes_send [OF m_blocked_send(2)]
    by (auto simp: under_way_def log_eqs tended_def pc_inv_def flush_ok_def split: log_cont.splits)
next
  case (m_hosts_shut s ch' i "is")
  then have "i < length (hosts s)"
    using pcs.holds [of s] by (auto simp: tended_def pc_inv_def final_upt_Cons)
  with m_hosts_shut tended_host(2) [of s i] show ?case by (simp add: ready_def)
next
  case (m_notify s ch' c')
  then have "c' = c"
    using chan_invD(4) [of s c' c] channels.holds [of s] by (auto simp: under_way_def tended_def)
  then show ?case by (simp add: return_to_def)
next
  case (m_notify_shut s ch' c')
  then show ?case
    using chan_invD(4) [of s c' c] channels.holds [of s]
    by (cases "c' = c") (auto simp: under_way_def tended_def)
qed (auto simp: under_way_def tended_def log_eqs drain_got_def after_enq_def patient_step_def
  split: log_cont.splits fan_cont.splits)


lemma under_way_step:
  assumes step: "patient_step s s'" and tended: "tended s" and flush: "under_way c ch s"
  shows "under_way c ch s' \<and> returns s' = returns s \<or> returns s' = returns s @ [(c, None)]"
proof -
  have "loop_step s s'"
    using step by (simp add: patient_step_def)
  then show ?thesis
  proof (cases rule: loop_stepE)
    case main
    then show ?thesis using assms by (rule under_way_main)
  next
    case (host i h errs)
    have "flushes h = [a]" if "mpc s = MAck ch' i js a" for ch' js a
      using host_step_flushes [OF host(2) tended_host [OF tended host(1)]] flush that
      by (auto simp: under_way_def)
    with host flush show ?thesis
      by (auto simp: under_way_def sys_upd_defs nth_upd)
  next
    case (gone i h errs)
    with flush show ?thesis by (auto simp: under_way_def sys_upd_defs)
  qed
qed

lemma loop_step_returns: "loop_step s s' \<Longrightarrow> \<exists>rest. returns s' = returns s @ rest"
  using main_step_returns [of s s'] unfolding loop_step_def by (auto simp: sys_upd_defs)

lemma under_way_run:
  assumes "patient_step\<^sup>*\<^sup>* s s'" "tended s" "under_way c ch s"
  shows "tended s' \<and> (under_way c ch s' \<and> returns s' = returns s \<or> (\<exists>rest. returns s' = returns s @ (c, None) # rest))"
  using assms(1)
proof (induction rule: rtranclp_induct)
  case base
  with assms(2,3) show ?case by simp
next
  case (step s1 s2)
  then have loop: "loop_step s1 s2" by (simp add: patient_step_def)
  from step.IH show ?case
    using tended_step [OF loop] under_way_step [OF step.hyps(2)] loop_step_returns [OF loop] by fastforce
qed

text \<open>A flush that is under way is not at rest.\<close>

lemma host_step_patient:
  assumes "i < length (hosts s)" "host_step (hosts s ! i) h errs"
  shows "patient_step s (report errs (set_host i h s))"
proof -
  have "mpc (log_done k j OTimedOut (report es s)) \<noteq> MBlocked k' r j'" for k j es k' r j'
    by (cases k) (simp_all add: sys_upd_defs)
  then have "report errs (set_host i h s) \<noteq> log_done k j OTimedOut (report es s)" if "mpc s = MBlocked k' r j'" for k j es k' r j'
    using that by (metis mpc_upd)
  with assms show ?thesis
    unfolding patient_step_def loop_step_def by blast
qed

lemma tended_host_rests:
  assumes "tended s" "\<And>s'. \<not> patient_step s s'" "i < length (hosts s)"
  shows "hPc (hosts s ! i) = HSelect \<and> hIn (hosts s ! i) = [] \<or> (\<exists>ch js a. mpc s = MAck ch i js a \<and> hPc (hosts s ! i) = HAck a)"
proof -
  have "hPc (hosts s ! i) \<noteq> HExited"
    using open_not_exited tended_host [OF assms(1,3)] by blast
  moreover have "\<And>h errs. \<not> host_step (hosts s ! i) h errs"
    using host_step_patient [OF assms(3)] assms(2) by blast
  moreover have "reachable s"
    using assms(1) by (simp add: tended_def)
  ultimately show ?thesis
    using host_at_rest [of "hosts s ! i"] acks_awaited [OF _ assms(3)] by metis
qed

lemma under_way_moves:
  assumes "tended s" "under_way c ch s"
  shows "\<exists>s'. patient_step s s'"
proof (rule ccontr)
  assume "\<not> ?thesis"
  then have rest: "\<And>s'. \<not> patient_step s s'" by blast
  have pc: "pc_ok (length (hosts s)) (enables s) (mpc s)"
    using assms(1) pcs.holds by (auto simp: tended_def pc_inv_def)
  show False
  proof (cases "\<exists>k r i. mpc s = MBlocked k r i")
    case True
    then obtain k r i where blocked: "mpc s = MBlocked k r i" by blast
    then have i: "i < length (hosts s)"
      using pc by (cases k) auto
    then have "host_can_send (hosts s ! i)"
      using tended_host_rests [OF assms(1) rest i] blocked by (auto simp: host_can_send_def)
    with blocked have "main_step s (log_done k i OAccepted (set_host i (host_send (hosts s ! i) r) s))"
      by (rule main_step.m_blocked_send)
    moreover have "log_done k i OAccepted (set_host i h s) \<noteq> log_done k i OTimedOut (report [e] s)" for h e
      by (cases k) (auto simp: sys_upd_defs dest: arg_cong [of _ _ reported])
    ultimately show False
      using rest blocked unfolding patient_step_def loop_step_def by (metis main_pc.inject(4))
  next
    case False
    then have "\<And>s'. \<not> main_step s s'"
      using rest unfolding patient_step_def loop_step_def by blast
    moreover have "wlock s = None"
      using assms(1) by (simp add: tended_def)
    ultimately have "\<exists>ch' i js a. mpc s = MAck ch' i js a \<and> hPc (hosts s ! i) \<noteq> HAck a"
      using main_at_rest [of s] assms(2) by (fastforce simp: under_way_def)
    then obtain ch' i js a where ack: "mpc s = MAck ch' i js a" "hPc (hosts s ! i) \<noteq> HAck a" by blast
    then have "flushes (hosts s ! i) = [a]" "i < length (hosts s)"
      using assms(2) pc by (auto simp: under_way_def)
    then show False
      using tended_host_rests [OF assms(1) rest, of i] ack by (auto simp: flushes_def)
  qed
qed

text \<open>
  C10: A flush is served under every schedule: once the read loop has received its record, then whatever
  the queues hold and however the loops are interleaved, when no loop can go on any more the flush has
  returned nil, as the next call to return - provided that its client still waits, no other client
  moves, no targets are being removed, no host is shut down, no write panics, and a full target queue
  is waited for, without a timeout. (The loops do come to rest.)
\<close>

theorem flush_finishes:
  assumes "reachable s" "mpc s = MGot F" "flush F = Some ch" "clients s c = CWait ch False"
    and "wlock s = None" "onTargetQueueFull (opts s) = None"
    and "\<forall>h\<in>set (hosts s). \<not> hShutdown h \<and> never_panics h"
    and "patient_step\<^sup>*\<^sup>* s s'" "\<forall>s''. \<not> patient_step s' s''"
  shows "\<exists>rest. returns s' = returns s @ (c, None) # rest"
proof -
  have "tended s" "under_way c ch s"
    using assms(1-7) by (auto simp: tended_def under_way_def list_all_iff ready_def)
  from under_way_run [OF assms(8) this] under_way_moves [of s' c ch] assms(9) show ?thesis by blast
qed

text \<open>Such runs exist: every state has one, as the work goes down.\<close>

lemma patient_rests: "reachable s \<Longrightarrow> \<exists>s'. patient_step\<^sup>*\<^sup>* s s' \<and> (\<forall>s''. \<not> patient_step s' s'')"
proof (induction "work s" arbitrary: s rule: less_induct)
  case less
  show ?case
  proof (cases "\<exists>s1. patient_step s s1")
    case True
    then obtain s1 where s1: "patient_step s s1" "loop_step s s1"
      by (auto simp: patient_step_def)
    then have "work s1 < work s" "reachable s1"
      using less.prems by (auto intro: loop_step_work reachable.step loop_step_sys)
    with less.hyps s1(1) show ?thesis by (meson converse_rtranclp_into_rtranclp)
  qed blast
qed

theorem flush_finishes_witness:
  "\<exists>(s :: bytes sys) s' rest. reachable s \<and> length (hosts s) = 1 \<and> returns s = [(0, None)] \<and>
     patient_step\<^sup>*\<^sup>* s s' \<and> returns s' = [(0, None), (1, None)] @ rest"
proof -
  obtain s :: "bytes sys" where s: "reachable s" "mpc s = MGot (newFlushLogRec NewLogger 0)"
      "clients s 1 = CWait 0 False" "wlock s = None" "opts s = default_options"
      "hosts s = [open_host]" "returns s = [(0, None)]"
    by (rule flush_received)
  obtain s' where s': "patient_step\<^sup>*\<^sup>* s s'" "\<forall>s''. \<not> patient_step s' s''"
    using patient_rests [OF s(1)] by blast
  have "\<exists>rest. returns s' = returns s @ (1, None) # rest"
    using open_host_never_panics s(5,6)
    by (intro flush_finishes [OF s(1,2) _ s(3,4) _ _ s'])
      (simp_all add: newFlushLogRec_def default_options_def open_host_def)
  with s(1,6,7) s'(1) show ?thesis
    by (intro exI [of _ s] exI [of _ s']) auto
qed

lemma under_way_finishes:
  "tended s \<Longrightarrow> under_way c ch s \<Longrightarrow> \<exists>s'. sys_step\<^sup>*\<^sup>* s s' \<and> returns s' = returns s @ [(c, None)]"
proof (induction "work s" arbitrary: s rule: less_induct)
  case less
  obtain s1 where s1: "patient_step s s1" "loop_step s s1"
    using under_way_moves [OF less.prems] by (auto simp: patient_step_def)
  then have smaller: "work s1 < work s" and sys: "sys_step s s1"
    using less.prems(1) by (auto simp: tended_def intro: loop_step_work loop_step_sys)
  from under_way_step [OF s1(1) less.prems] show ?case
  proof
    assume "under_way c ch s1 \<and> returns s1 = returns s"
    with less.hyps [OF smaller tended_step [OF s1(2) less.prems(1)]] sys show ?thesis
      by (metis converse_rtranclp_into_rtranclp)
  qed (use sys in blast)
qed

text \<open>
  So a flush is never stuck on the way: whenever the read loop has received a flush record, whatever
  is in the queues and wherever the hosts are, there is a run of the read loop and the hosts alone
  that ends with the flush returning nil, provided that no targets are being removed, no host is shut
  down, no write panics, and a full target queue is waited for.
\<close>

theorem flush_can_finish:
  assumes "reachable s" "mpc s = MGot F" "flush F = Some ch" "clients s c = CWait ch False"
    and "wlock s = None" "onTargetQueueFull (opts s) = None"
    and "\<forall>h\<in>set (hosts s). \<not> hShutdown h \<and> never_panics h"
  shows "\<exists>s'. sys_step\<^sup>*\<^sup>* s s' \<and> returns s' = returns s @ [(c, None)]"
proof -
  have "tended s" "under_way c ch s"
    using assms by (auto simp: tended_def under_way_def list_all_iff ready_def)
  then show ?thesis by (rule under_way_finishes)
qed

theorem flush_can_finish_witness:
  "\<exists>(s :: bytes sys) s'. reachable s \<and> length (hosts s) = 1 \<and> returns s = [(0, None)] \<and>
     sys_step\<^sup>*\<^sup>* s s' \<and> returns s' = [(0, None), (1, None)]"
proof -
  obtain s :: "bytes sys" where s: "reachable s" "mpc s = MGot (newFlushLogRec NewLogger 0)"
      "clients s 1 = CWait 0 False" "wlock s = None" "opts s = default_options"
      "hosts s = [open_host]" "returns s = [(0, None)]"
    by (rule flush_received)
  then have "\<exists>s'. sys_step\<^sup>*\<^sup>* s s' \<and> returns s' = returns s @ [(1, None)]"
    using open_host_never_panics
    by (intro flush_can_finish [OF s(1,2) _ s(3,4)])
      (simp_all add: newFlushLogRec_def default_options_def open_host_def)
  with s(1,6,7) show ?thesis by auto
qed

end
