(* ===== verification/TcpEnd.thy ===== *)
theory TcpEnd
  imports Tcp
begin

text \<open>
  How the TCP target (\<^verbatim>\<open>targets/tcp.go\<close>) stops: \<^verbatim>\<open>Write\<close> tries again until its bytes are sent, and ends
  within a bounded number of steps once the target is shut down.
\<close>

section \<open>A call of Write after a shutdown\<close>

text \<open>
  Runs with \<open>n\<close> steps of the goroutine that is in \<^verbatim>\<open>Write\<close> and any steps of the others in between; no
  new call of \<^verbatim>\<open>Write\<close> begins.
\<close>

definition own_step :: "tcp \<Rightarrow> tcp \<Rightarrow> bool" where
  "own_step s s' \<longleftrightarrow> wpc s \<noteq> WIdle \<and> (write_step s s' \<or> conn_step s s')"

definition other_step :: "tcp \<Rightarrow> tcp \<Rightarrow> bool" where
  "other_step s s' \<longleftrightarrow> shut_step s s' \<or> dial_step s s' \<or> monitor_step s s'"

inductive write_run :: "tcp \<Rightarrow> nat \<Rightarrow> tcp \<Rightarrow> bool" where
  run_start: "write_run s 0 s"
| run_own: "write_run s n s1 \<Longrightarrow> own_step s1 s' \<Longrightarrow> write_run s (Suc n) s'"
| run_other: "write_run s n s1 \<Longrightarrow> other_step s1 s' \<Longrightarrow> write_run s n s'"

text \<open>How many steps are left once \<^verbatim>\<open>shutdown\<close> is closed: the loop is not entered again.\<close>

fun steps_left :: "write_pc \<Rightarrow> nat" where
  "steps_left WIdle = 0"
| "steps_left (WTop p b) = 1"
| "steps_left (WSleep p b) = 2"
| "steps_left (WClose p b) = 3"
| "steps_left (WNoConn p b e) = 3"
| "steps_left (WSend p b c) = 4"
| "steps_left (WHave p b c) = 5"
| "steps_left (WDial p b k) = 6"
| "steps_left (WGetConn p b) = 7"

lemma steps_left_le: "steps_left pc \<le> 7"
  by (cases pc) simp_all

lemma own_step_left:
  assumes "own_step s s'" "tShutdown s"
  shows "tShutdown s' \<and> steps_left (wpc s') < steps_left (wpc s)"
proof -
  from assms(1) consider "wpc s \<noteq> WIdle" "write_step s s'" | "conn_step s s'"
    by (auto simp: own_step_def)
  then show ?thesis
  proof cases
    case 1
    from 1(2,1) assms(2) show ?thesis
      by (induction rule: write_step.induct) auto
  next
    case 2
    then show ?thesis
      using assms(2) by (induction rule: conn_step.induct) auto
  qed
qed

lemma other_step_left:
  assumes "other_step s s'" "tShutdown s"
  shows "tShutdown s' \<and> wpc s' = wpc s"
  using assms unfolding other_step_def
  by (auto elim!: shut_step.cases dial_step.cases monitor_step.cases)

lemma write_run_left:
  "write_run s n s' \<Longrightarrow> tShutdown s \<Longrightarrow> tShutdown s' \<and> n + steps_left (wpc s') \<le> steps_left (wpc s)"
  by (induction rule: write_run.induct) (auto dest: own_step_left other_step_left)

lemma shut_write_goes_on:
  assumes "tShutdown s" "wpc s \<noteq> WIdle"
  shows "\<exists>s'. own_step s s'"
proof -
  have "\<exists>s'. write_step s s' \<or> conn_step s s'"
  proof (cases "wpc s")
    case (WGetConn p b)
    then show ?thesis by (cases "tConn s") (blast intro: c_have c_dial)+
  next
    case (WSend p b c)
    then show ?thesis using w_err [of s p b c 0] by auto
  qed (use assms in \<open>blast intro: w_shut w_no_conn w_deadline w_close w_sleep c_dial_shut\<close>)+
  with assms(2) show ?thesis by (simp add: own_step_def)
qed

text \<open>
  C37: A shutdown ends a call of \<^verbatim>\<open>Write\<close>, which otherwise tries for ever. Once \<^verbatim>\<open>shutdown\<close> is closed, the
  call takes at most seven steps more, whatever the network, the goroutines that dial and the monitors
  do meanwhile, and until it has returned it can always take one, even if nothing else ever happens.
\<close>

theorem tcp_shutdown_ends_write:
  assumes "tShutdown s" "write_run s n s'"
  shows "n \<le> 7 \<and> (wpc s' = WIdle \<or> (\<exists>s''. own_step s' s''))"
  using write_run_left [OF assms(2,1)] steps_left_le [of "wpc s"] shut_write_goes_on [of s'] by auto

theorem tcp_shutdown_ends_write_witness:
  "\<exists>s s'. tShutdown s \<and> wpc s = WSleep ''x'' 100 \<and> write_run s 2 s' \<and> wpc s' = WIdle \<and> written s' = [(''x'', 0)]"
proof -
  define s where "s = (NewTcpTarget demo_tcp)\<lparr>tShutdown := True, spc := SDone, wpc := WSleep ''x'' 100\<rparr>"
  define s1 where "s1 = s\<lparr>wpc := WTop ''x'' (next_backoff 100)\<rparr>"
  define s2 where "s2 = s1\<lparr>wpc := WIdle, written := written s1 @ [(''x'', 0)]\<rparr>"
  have "write_step s s1" "wpc s \<noteq> WIdle"
    unfolding s1_def by (rule w_sleep, simp_all add: s_def)
  moreover have "write_step s1 s2" "wpc s1 \<noteq> WIdle"
    unfolding s2_def by (rule w_shut, simp_all add: s_def s1_def)
  ultimately have "own_step s s1" "own_step s1 s2"
    by (simp_all add: own_step_def)
  then have "write_run s (Suc (Suc 0)) s2"
    by (blast intro: write_run.intros)
  then have run: "write_run s 2 s2"
    by (simp add: numeral_2_eq_2)
  have "tShutdown s"
    by (simp add: s_def)
  from tcp_shutdown_ends_write [OF this run] this run show ?thesis
    by (intro exI [of _ s] exI [of _ s2]) (auto simp: s_def s1_def s2_def NewTcpTarget_def)
qed

end
