(* ===== verification/Spec2Isabelle.thy ===== *)
theory Spec2Isabelle
  imports Pipeline Progress Multicast Coherence JsonFormatters Sugar Metrics Tcp Targets Config
    FieldTypes TestLogger ReadBack FlushLive TcpEnd
begin

text \<open>
  A model of \<^bold>\<open>logr\<close>, an asynchronous logging library in Go, with its correctness properties. File
  and function names are those under \<^verbatim>\<open>src/\<close>.

  \<^bold>\<open>The program.\<close> A \<^verbatim>\<open>Logr\<close> (the engine) owns a queue of log records and a list of targets. A
  \<^verbatim>\<open>Logger\<close> carries fields and the engine; its methods make a record and enqueue it. One goroutine, the
  read loop \<^verbatim>\<open>start\<close>, takes records from the queue, completes them (\<^verbatim>\<open>prep\<close>: stack frames, caller) and
  fans them out: every target has a \<^verbatim>\<open>TargetHost\<close> with a filter, a formatter, a queue and a goroutine
  of its own that formats records and calls the target's \<^verbatim>\<open>Write\<close>. \<^verbatim>\<open>Flush\<close> sends a record with a
  channel through the queue; the read loop drains its queue, flushes each host in the same way, and
  notifies the channel. \<^verbatim>\<open>Shutdown\<close> flushes, stops the read loop, and shuts every host down. Whether
  a level is enabled anywhere is kept in a cache that is cleared when targets change.

  \<^bold>\<open>The theories\<close>, in the order of their imports:

  \<^item> \<open>Prelude\<close>: machine integers, strings as bytes, errors, calls that may panic, generic facts.
  \<^item> \<open>GoStrings\<close>: what the program uses of Go's strings: decimal numbers, UTF-8 runes, paths, spaces.
  \<^item> \<open>Levels\<close> (\<^verbatim>\<open>level.go\<close>, \<^verbatim>\<open>filter*.go\<close>): levels, the two filters, the interface \<^verbatim>\<open>Filter\<close>.
  \<^item> \<open>LevelCache\<close> (\<^verbatim>\<open>levelcache.go\<close>): both caches behind one interface, as a locale whose laws both
    implementations meet; the memo step of \<^verbatim>\<open>IsLevelEnabled\<close>.
  \<^item> \<open>Writers\<close> (\<^verbatim>\<open>formatter.go\<close>, \<^verbatim>\<open>field.go\<close>, \<^verbatim>\<open>buffer.go\<close>): writing to an \<^verbatim>\<open>io.Writer\<close> that may fail,
    quoting, limits, colors, stack traces.
  \<^item> \<open>LogFields\<close> (\<^verbatim>\<open>field.go\<close>, \<^verbatim>\<open>fieldapi.go\<close>): the fields, their constructors, \<^verbatim>\<open>ValueString\<close>.
  \<^item> \<open>LogRecs\<close> (\<^verbatim>\<open>logrec.go\<close>, \<^verbatim>\<open>pkg.go\<close>): records and how they are completed.
  \<^item> \<open>Formatter\<close> (\<^verbatim>\<open>formatter.go\<close>): \<^verbatim>\<open>WriteFields\<close> and \<^verbatim>\<open>DefaultFormatter\<close>.
  \<^item> \<open>Plain\<close>, \<open>JsonFormatters\<close> (\<^verbatim>\<open>formatters/\<close>): the plain, JSON and GELF formatters; the last two as
    the calls they make on the encoder.
  \<^item> \<open>Options\<close> (\<^verbatim>\<open>options.go\<close>): the functional options of \<^verbatim>\<open>New\<close>.
  \<^item> \<open>Host\<close> (\<^verbatim>\<open>target.go\<close>): the host of a target; its goroutine is the relation \<open>host_step\<close>.
  \<^item> \<open>System\<close> (\<^verbatim>\<open>logr.go\<close> with \<^verbatim>\<open>target.go\<close>): the engine with all its goroutines, as the step relation
    \<open>sys_step\<close> between states, and the states that are \<open>reachable\<close>.
  \<^item> \<open>SystemInv\<close>: the invariants of the system, each an instance of the locale \<open>sys_invariant\<close>; those
    that speak of each host alone, of \<open>host_predicate\<close>.
  \<^item> \<open>Schedule\<close>: an executable scheduler, sound for \<open>sys_step\<close>, with which the examples are run.
  \<^item> \<open>Delivery\<close>: what the invariants give for a flush, and flushes that are never notified.
  \<^item> \<open>Engine\<close> (\<^verbatim>\<open>logr.go\<close>, \<^verbatim>\<open>logger.go\<close>, \<^verbatim>\<open>timeout.go\<close>): the calls that need no interleaving:
    \<^verbatim>\<open>New\<close>, \<^verbatim>\<open>IsLevelEnabled\<close>, the list of targets, \<^verbatim>\<open>Log\<close>, \<^verbatim>\<open>LogM\<close>, the pool of buffers.
  \<^item> \<open>Coherence\<close> (\<^verbatim>\<open>logr.go\<close>, \<^verbatim>\<open>levelcache.go\<close>): \<^verbatim>\<open>IsLevelEnabled\<close> and the calls that change the targets or
    reset the level cache, cut into the steps that interleave.
  \<^item> \<open>Sugar\<close> (\<^verbatim>\<open>sugar.go\<close>, \<^verbatim>\<open>stdlogger.go\<close>): printf-like logging, key/value pairs, the \<^verbatim>\<open>log\<close> package.
  \<^item> \<open>Metrics\<close> (\<^verbatim>\<open>metrics.go\<close>): the engine's counters and the goroutine that updates its gauge.
  \<^item> \<open>Targets\<close>, \<open>Tcp\<close>, \<open>TcpEnd\<close> (\<^verbatim>\<open>targets/\<close>): the targets; the one for TCP with its four kinds of
    goroutine, and how a shutdown ends its \<^verbatim>\<open>Write\<close>.
  \<^item> \<open>Config\<close> (\<^verbatim>\<open>config/config.go\<close>): targets made from a configuration.
  \<^item> \<open>FieldTypes\<close> (\<^verbatim>\<open>fieldapi.go\<close>, \<^verbatim>\<open>field.go\<close>): which payload a field's type tag names, and that all fields
    made with the constructors keep to it on their way to a formatter; how long a limited one gets.
  \<^item> \<open>ReadBack\<close> (\<^verbatim>\<open>formatter.go\<close>): a reader of text records, and when it gets the fields back.
  \<^item> \<open>TestLogger\<close> (\<^verbatim>\<open>targets/testing.go\<close>): the logger for unit tests, and a record's way through it.
  \<^item> \<open>Pipeline\<close>: from the queue to the bytes of a target.
  \<^item> \<open>Multicast\<close>: an abstract specification of the engine, without queues and goroutines, and the proof
    that every step of the system is one of the specification.
  \<^item> \<open>Progress\<close>: hosts that can serve a flush; and how the read loop gets stuck when a host refuses it.
  \<^item> \<open>Rest\<close>: without calls the loops come to rest within a known number of steps, with all delivered.
  \<^item> \<open>FlushLive\<close>: a flush that the read loop has received ends, under every schedule.

  \<^bold>\<open>How state and code correspond.\<close> A struct is a record with the same fields; an interface is a
  record of functions (\<open>target_iface\<close>, \<open>formatter_iface\<close>) or a datatype of the implementations with one
  case for those of the user (\<open>filter_obj\<close>, \<open>cache_obj\<close>). A function that may panic returns an
  \<open>outcome\<close>; one that returns an error an \<open>option\<close> or a sum. A goroutine is a program counter, with one
  constructor for each place where it can be interrupted or can wait. A step is one operation on shared
  state; a critical section that does not wait is one step. \<^verbatim>\<open>select\<close> may take any case that is ready,
  and a timer may expire at any moment, so no property depends on time. A channel is a list with a
  capacity; without capacity, a send is a step of sender and receiver together. Fields called ghosts
  record history: what was accepted, taken, written, offered, reported. No step reads them.

  \<^bold>\<open>What the lemmas show.\<close> The queue of the engine and of each host is first-in first-out and bounded;
  every record is accounted for, at every host, in every reachable state; a flush that returns nil has
  written everything before it, and the engine leaves a target as direct calls would have. Whatever the
  scheduler does, the loops come to rest when no calls are made, with everything delivered, and a flush
  that has begun ends. The engine refines a multicast of its queue. Locks exclude
  each other and no channel is closed twice. The cache of levels never gives an outdated answer as long
  as levels are known by their IDs and filters do not change: whatever calls overlap, an answer is one
  for the targets at some moment of the call; either of its two implementations will do, but for the
  largest ID. Fields made with the constructors are well typed, so that
  rendering them neither panics nor fails on its own. The formatters write exactly the text, or make exactly the calls,
  that a short function of the record says, on any writer. Configuration adds exactly the hosts
  described. Other properties show what goes wrong: a flush that times out, or that a host does not
  take, stops the engine for good, a second flush in the queue is lost, shutdown may lose records,
  a target may be added after it, a reset of the level cache may be lost to a query under way, quoting
  is ambiguous, JSON keys may collide, a shutdown waits for a dial, a metrics updater may
  never end.

  \<^bold>\<open>Bounds and termination.\<close> Integers are 64 bit words where the code's arithmetic may wrap (level IDs,
  field values, durations, the backoff); lengths and sizes that cannot are \<open>nat\<close> or \<open>int\<close>. No
  definition uses fuel: loops are recursions on lists or with a measure (the prefix of a JSON key ends
  because the reserved keys are finitely many). The goroutines loop for ever, but \<open>Rest\<close> bounds the
  steps they take between calls: ten for each host a record has yet to visit, and a few more. Runs in examples are lists of steps.

  \<^bold>\<open>Parameters.\<close> Not part of the program and therefore arguments of the definitions: the rendering of
  floats, times, durations and of values by \<^verbatim>\<open>fmt\<close> (\<open>fmt_env\<close>), the resolution of program counters, the
  text of a multi-error, the JSON encoder (\<open>json_env\<close>) and decoder (\<open>unmarshal_env\<close>), the network, TLS and
  certificates (\<open>net_env\<close>, \<open>cert_env\<close>), the rotating file writer, the syslog client, the collector of
  metrics, the handlers and filters of the user.

  \<^bold>\<open>Not modelled.\<close> The memory model of Go below the level of steps: data races, such as that of the
  dialling goroutine which sets fields of the target while \<^verbatim>\<open>close\<close> may run, are interleavings of whole
  steps here. The contents of the sync.Pool beyond what a borrowed buffer holds. The test programs under
  \<^verbatim>\<open>test/\<close>, which only set things up.
\<close>

section \<open>Delivery of records\<close>

text \<open>
  C1: When a call of \<^verbatim>\<open>Flush\<close> returns nil, every record that the engine's queue accepted before
  the flush record has been prepared and fanned out, in order, and every target host has an
  empty queue, has written every record it took, and was offered exactly the records it
  enables of those fanned out since it was added.
\<close>

theorem flush_delivers:
  assumes "reachable s" "sys_step s s'"
    and "clients s c = CWait ch False" "returns s' = returns s @ [(c, None)]"
  shows "(\<exists>pre F post rest. accepted s = pre @ F # post \<and> flush F = Some ch \<and>
      fanned s = map (prepped s) (log_recs pre) @ rest) \<and>
    (\<forall>h\<in>set (hosts s). hIn h = [] \<and> map fst (hLog h) = taken_offers (hOffers h) \<and>
      map fst (hOffers h) = filter (host_enabled h) (drop (hBorn h) (fanned s)))"
proof -
  have "mpc s = MNotify ch"
    using assms(2-4) by (rule flush_returns_nil)
  with assms(1) notify_before notify_quiet show ?thesis by metis
qed

text \<open>The run of the example: one record, written before the flush is notified.\<close>

lemma flush_run_ends:
  obtains s :: "bytes sys" where "reachable s" "mpc s = MNotify 0" "clients s 1 = CWait 0 False"
    "length (hosts s) = 1" "map (recMsg \<circ> fst) (hLog (hosts s ! 0)) = [''one'']"
    "clients s 0 = CIdle" "\<not> lgrShutdown s"
proof -
  have "ends flush_run demo_sys (\<lambda>s. mpc s = MNotify 0 \<and> waits_on (clients s 1) = Some 0 \<and>
      length (hosts s) = 1 \<and> map (recMsg \<circ> fst) (hLog (hosts s ! 0)) = [''one''] \<and>
      is_idle (clients s 0) \<and> \<not> lgrShutdown s)"
    by code_simp
  then show thesis
    using that by (elim ends_demoE) (simp add: waits_on_iff is_idle_iff)
qed

theorem flush_delivers_witness:
  "\<exists>(s :: bytes sys) h. h \<in> set (hosts s) \<and> map (recMsg \<circ> fst) (hLog h) = [''one''] \<and>
     map fst (hLog h) = taken_offers (hOffers h) \<and> clients s 1 = CWait 0 False"
proof -
  obtain s :: "bytes sys" where s: "reachable s" "mpc s = MNotify 0" "clients s 1 = CWait 0 False"
      "length (hosts s) = 1" "map (recMsg \<circ> fst) (hLog (hosts s ! 0)) = [''one'']"
    by (rule flush_run_ends)
  have "sys_step s (return_to 1 None (s\<lparr>mpc := MSelect\<rparr>))"
    using s(2,3) by (intro sys_step.main main_step.m_notify)
  moreover have "hosts s ! 0 \<in> set (hosts s)"
    using s(4) by simp
  ultimately have "map fst (hLog (hosts s ! 0)) = taken_offers (hOffers (hosts s ! 0))"
    using flush_delivers [OF s(1) _ s(3)] by (simp add: return_to_def)
  with s show ?thesis
    by (intro exI [of _ s] exI [of _ "hosts s ! 0"]) simp
qed

text \<open>
  C4: Nothing is lost in silence: a host was offered, in order, exactly the records it enables
  among those fanned out since it was added (and the one being fanned out, once the loop has
  passed the host), and those it took are the ones it has written, holds, or has queued.
\<close>

theorem every_record_accounted:
  assumes "reachable s" "i < length (hosts s)" "h = hosts s ! i"
  shows "map fst (hOffers h) =
      filter (host_enabled h) (drop (hBorn h) (fanned s) @ visited (mpc s) i) \<and>
    map fst (hLog h) @ host_holds (hPc h) @ log_recs (hIn h) = taken_offers (hOffers h)"
proof -
  have "acct h (fanned s) (visited (mpc s) i)"
    using accts.holds [OF assms(1)] assms(2,3) by (simp add: acct_inv_def)
  moreover have "host_ok h"
    using reachable_host_ok [OF assms(1), of h] assms(2,3) by simp
  ultimately show ?thesis
    by (simp add: acct_def host_ok_conserves)
qed

theorem every_record_accounted_witness:
  "\<exists>s :: bytes sys. map fst (hLog (hosts s ! 0)) @ host_holds (hPc (hosts s ! 0)) @
     log_recs (hIn (hosts s ! 0)) = taken_offers (hOffers (hosts s ! 0)) \<and>
     map (recMsg \<circ> fst) (hLog (hosts s ! 0)) = [''one'']"
proof -
  obtain s :: "bytes sys" where "reachable s" "length (hosts s) = 1"
      "map (recMsg \<circ> fst) (hLog (hosts s ! 0)) = [''one'']"
    by (rule flush_run_ends)
  with every_record_accounted [of s 0 "hosts s ! 0"] show ?thesis
    by (intro exI [of _ s]) simp
qed

text \<open>
  C7: The engine's queue is first-in first-out and never longer than its capacity; what was
  taken from it is fanned out in this order, each log record once, but for the one in hand.
\<close>

theorem engine_queue_fifo:
  assumes "reachable s"
  shows "accepted s = taken s @ qIn s \<and> length (qIn s) \<le> qCap s \<and>
    map (prepped s) (log_recs (taken s)) = fanned s @ in_hand (prepped s) (mpc s)"
  using flow.holds [OF assms] by (simp add: flow_inv_def)

theorem engine_queue_fifo_witness:
  "\<exists>s :: bytes sys. accepted s = taken s @ qIn s \<and> map recMsg (log_recs (taken s)) = [''one'']"
proof -
  have "ends flush_run demo_sys (\<lambda>s. map recMsg (log_recs (taken s)) = [''one''])"
    by code_simp
  then obtain s :: "bytes sys" where "reachable s" "map recMsg (log_recs (taken s)) = [''one'']"
    by (rule ends_demoE)
  with engine_queue_fifo [of s] show ?thesis by (intro exI [of _ s]) simp
qed

text \<open>
  C6: A target never sees a record twice or out of order: what a host has written, of a target
  in use or removed, is a subsequence of the log records the engine took from its queue.
\<close>

theorem written_in_order:
  assumes "reachable s" "h \<in> set (hosts s) \<union> set (gone s)"
  shows "subseq (map fst (hLog h)) (map (prepped s) (log_recs (taken s)))"
proof -
  have "prefix (map fst (hLog h)) (taken_offers (hOffers h))"
    using host_ok_conserves [OF reachable_host_ok [OF assms]] by (metis prefixI)
  then show ?thesis
    using taken_offers_subseq offers_subseq [OF assms] by (meson prefix_imp_subseq subseq_order.trans)
qed

theorem written_in_order_witness:
  "\<exists>s :: bytes sys. subseq (map fst (hLog (hosts s ! 0))) (map (prepped s) (log_recs (taken s))) \<and>
     map (recMsg \<circ> fst) (hLog (hosts s ! 0)) = [''one'']"
proof -
  obtain s :: "bytes sys" where "reachable s" "length (hosts s) = 1"
      "map (recMsg \<circ> fst) (hLog (hosts s ! 0)) = [''one'']"
    by (rule flush_run_ends)
  with written_in_order [of s "hosts s ! 0"] show ?thesis by (intro exI [of _ s]) simp
qed



section \<open>Flushing\<close>

text \<open>
  C13: A flush that times out stops the engine for good. Once its caller has given up, the read
  loop that is about to notify it stays there, whatever the clients and the hosts do: no record
  is taken from the queue any more, and no target can be added or removed, since the read loop
  keeps the lock.
\<close>

theorem flush_timeout_wedges:
  assumes "reachable s" "mpc s = MNotify ch" "\<forall>c. ch \<notin> set (owns (clients s c))"
    and "sys_step\<^sup>*\<^sup>* s s'"
  shows "mpc s' = MNotify ch \<and> taken s' = taken s \<and> fanned s' = fanned s \<and> \<not> can_lock s'"
proof -
  have "ch \<in> set (chans (accepted s))"
    using serve.holds [OF assms(1)] flow.holds [OF assms(1)] assms(2)
    by (simp add: serve_inv_def flow_inv_def)
  then have "ch < nextCh s"
    using channels.holds [OF assms(1)] by (simp add: chan_inv_def)
  then have "wedged ch s"
    using assms(2,3) by (simp add: wedged_def)
  with wedged_steps [OF assms(4), of ch] show ?thesis
    by (simp add: wedged_def can_lock_def)
qed

theorem flush_timeout_wedges_witness:
  "\<exists>(s :: bytes sys) (s' :: bytes sys). mpc s = MNotify 0 \<and> clients s 0 = CIdle \<and> mpc s' = MNotify 0 \<and>
     taken s' = taken s \<and> clients s' 0 = CEnq (demo_rec ''two'') NLog"
proof -
  obtain s :: "bytes sys" where s: "reachable s" "mpc s = MNotify 0" "clients s 1 = CWait 0 False"
      "length (hosts s) = 1" "map (recMsg \<circ> fst) (hLog (hosts s ! 0)) = [''one'']"
      "clients s 0 = CIdle" "\<not> lgrShutdown s"
    by (rule flush_run_ends)
  define s1 where "s1 = return_to 1 (Some flush_timeout) s"
  define s2 where "s2 = set_client 0 (CEnq (demo_rec ''two'') NLog) s1"
  have step1: "sys_step s s1"
    unfolding s1_def by (rule sys_step.client [OF client_step.c_wait_timeout [OF s(3)]])
  have "client_step 0 s1 s2"
    unfolding s2_def using s(6,7)
    by (intro client_step.c_log) (simp_all add: s1_def return_to_def demo_rec_def)
  then have "sys_step s1 s2"
    by (rule sys_step.client)
  moreover have "0 \<notin> set (owns (clients s1 c))" for c
    using chan_invD(4) [OF channels.holds [OF s(1)], of c 1] s(3)
    by (auto simp: s1_def return_to_def)
  moreover have "mpc s1 = MNotify 0" "clients s1 0 = CIdle"
    using s(2,6) by (simp_all add: s1_def return_to_def)
  ultimately show ?thesis
    using flush_timeout_wedges [of s1 0 s2] reachable.step [OF s(1) step1]
    by (intro exI [of _ s1] exI [of _ s2]) (auto simp: s2_def set_client_def)
qed

text \<open>
  C14: Of two calls of \<^verbatim>\<open>Flush\<close> at the same time one may be lost. When the flush record was taken
  from the queue and the read loop does not serve its channel, because it ignored the record as
  redundant while draining for another flush, no step will ever make the call return nil: it
  can only time out.
\<close>

theorem concurrent_flush_lost:
  assumes "reachable s" "ch \<in> set (chans (taken s))" "ch \<notin> set (serves (mpc s))"
    and "sys_step\<^sup>*\<^sup>* s s1" "sys_step s1 s2" "clients s1 c = CWait ch False"
  shows "returns s2 \<noteq> returns s1 @ [(c, None)]"
proof
  assume "returns s2 = returns s1 @ [(c, None)]"
  then have "mpc s1 = MNotify ch"
    using assms(5,6) by (intro flush_returns_nil)
  moreover have "lost ch s1"
    using lost_steps [OF assms(4)] taken_unserved_lost [OF assms(1-3)] by blast
  ultimately show False by (simp add: lost_def)
qed

theorem concurrent_flush_lost_witness:
  "\<exists>(s :: bytes sys) (s2 :: bytes sys). clients s 2 = CWait 1 False \<and> returns s2 \<noteq> returns s @ [(2, None)] \<and>
     returns s2 = returns s @ [(2, Some flush_timeout)]"
proof -
  have "ends [AAdd 0 demo_target [] demo_host_options, AClient 0, AFlush 1 False, AClient 1,
      AFlush 2 False, AClient 2, AMain 0, AMain 0, AMain 0] demo_sys
     (\<lambda>s. 1 \<in> set (chans (taken s)) \<and> mpc s = MDrain 0 \<and> waits_on (clients s 2) = Some 1)"
    by code_simp
  then obtain s :: "bytes sys" where s: "reachable s"
      "1 \<in> set (chans (taken s)) \<and> mpc s = MDrain 0 \<and> waits_on (clients s 2) = Some 1"
    by (rule ends_demoE)
  then have "clients s 2 = CWait 1 False"
    by (simp add: waits_on_iff)
  then have "sys_step s (return_to 2 (Some flush_timeout) s)"
    by (rule sys_step.client [OF client_step.c_wait_timeout])
  with s \<open>clients s 2 = CWait 1 False\<close>
  have "returns (return_to 2 (Some flush_timeout) s) \<noteq> returns s @ [(2, None)]"
    by (intro concurrent_flush_lost [of s 1]) auto
  moreover have "returns (return_to 2 (Some flush_timeout) s) = returns s @ [(2, Some flush_timeout)]"
    by (simp add: return_to_def)
  ultimately show ?thesis
    using \<open>clients s 2 = CWait 1 False\<close> by blast
qed

text \<open>
  C15: A target host has at most one flush to serve at a time, so the branch of
  \<^verbatim>\<open>TargetHost.flush\<close> for redundant flush records is never taken; and a host acknowledges only
  the flush the read loop waits for, with an empty queue.
\<close>

theorem host_serves_one_flush:
  assumes "reachable s" "j < length (hosts s)"
  shows "(hPc (hosts s ! j) = HFlush a \<longrightarrow> log_recs (hIn (hosts s ! j)) = hIn (hosts s ! j)) \<and>
    (hPc (hosts s ! j) = HAck a \<longrightarrow>
       hIn (hosts s ! j) = [] \<and> (\<exists>ch is. mpc s = MAck ch j is a))"
proof -
  have ok: "flush_ok (mpc s) j (hosts s ! j)"
    using flushing.holds [OF assms(1)] assms(2) by (simp add: flush_inv_def)
  show ?thesis
  proof (intro conjI impI)
    assume "hPc (hosts s ! j) = HFlush a"
    with ok show "log_recs (hIn (hosts s ! j)) = hIn (hosts s ! j)"
      by (auto simp: flush_ok_def flushes_def simp flip: chans_Nil dest: awaited_Cons)
  next
    assume "hPc (hosts s ! j) = HAck a"
    with ok show "hIn (hosts s ! j) = []" "\<exists>ch is. mpc s = MAck ch j is a"
      by (auto simp: flush_ok_def flushes_def dest: awaited_single [OF sym])
  qed
qed

theorem host_serves_one_flush_witness:
  "\<exists>s :: bytes sys. hPc (hosts s ! 0) = HAck 1 \<and> hIn (hosts s ! 0) = [] \<and>
     (\<exists>ch is. mpc s = MAck ch 0 is 1)"
proof -
  have "ends (take 21 flush_run) demo_sys (\<lambda>s. length (hosts s) = 1 \<and> hPc (hosts s ! 0) = HAck 1)"
    by code_simp
  then obtain s :: "bytes sys" where "reachable s" "length (hosts s) = 1 \<and> hPc (hosts s ! 0) = HAck 1"
    by (rule ends_demoE)
  with host_serves_one_flush [of s 0 1] show ?thesis by (intro exI [of _ s]) simp
qed

section \<open>Locks and channels\<close>

text \<open>
  The writer that holds the lock of the list of targets, in \<^verbatim>\<open>RemoveTargets\<close>, excludes every
  reader and every other writer.
\<close>

theorem writer_excludes_readers:
  assumes "reachable s" "wlock s = Some c"
  shows "removing (clients s c) \<and> \<not> main_rlocked (mpc s) \<and>
    (\<forall>c'. \<not> client_rlocked (clients s c')) \<and> (\<forall>c'. removing (clients s c') \<longrightarrow> c' = c)"
  using lock.holds [OF assms(1)] assms(2) by (simp add: lock_inv_def)

theorem writer_excludes_readers_witness:
  "\<exists>s :: bytes sys. wlock s = Some 3 \<and> removing (clients s 3) \<and> \<not> main_rlocked (mpc s)"
proof -
  define s where "s = set_client 3 (CRemove [] [] (\<lambda>ti. True) []) (demo_sys\<lparr>wlock := Some 3\<rparr>)"
  have "client_step 3 demo_sys (set_client 3 (CRemove [0..<length (hosts demo_sys)] [] (\<lambda>ti. True) [])
      (demo_sys\<lparr>wlock := Some 3\<rparr>))"
    by (rule client_step.c_remove) (simp_all add: demo_sys_def init_sys_def can_lock_def)
  then have "client_step 3 demo_sys s"
    by (simp add: s_def demo_sys_def init_sys_def)
  then have "reachable s"
    by (rule reachable.step [OF reachable_demo sys_step.client])
  with writer_excludes_readers [of s 3] show ?thesis
    by (intro exI [of _ s]) (simp add: s_def set_client_def)
qed



text \<open>
  C16: A shutdown can lose records: in a reachable state a target's loop has ended and its queue
  still holds a record that the engine and the host accepted, since the loop may see that \<^verbatim>\<open>quit\<close>
  is closed before it has emptied the queue.
\<close>

theorem shutdown_loses_records:
  "\<exists>s :: bytes sys. reachable s \<and> (\<exists>h\<in>set (hosts s). hDone h \<and> hPc h = HExited \<and>
     map recMsg (hIn h) = [''two''] \<and> map (recMsg \<circ> fst) (hLog h) = [''one''])"
proof -
  have "ends (flush_run @ [AMain 1, AFlush 1 True, AClient 1] @ replicate 5 (AMain 1) @
      replicate 3 (AHost 0) @ replicate 3 (AMain 1) @
      [ALog 0 (demo_rec ''two''), AClient 0] @ replicate 5 (AMain 0) @
      [AClient 1, AClient 1, AMainQuit, AClient 1, AClient 1, AHostQuit 0]) demo_sys
     (\<lambda>s. length (hosts s) = 1 \<and> hDone (hosts s ! 0) \<and> hPc (hosts s ! 0) = HExited \<and>
        map recMsg (hIn (hosts s ! 0)) = [''two''] \<and>
        map (recMsg \<circ> fst) (hLog (hosts s ! 0)) = [''one''])"
    by code_simp
  then obtain s :: "bytes sys" where "reachable s"
      "length (hosts s) = 1 \<and> hDone (hosts s ! 0) \<and> hPc (hosts s ! 0) = HExited \<and>
        map recMsg (hIn (hosts s ! 0)) = [''two''] \<and>
        map (recMsg \<circ> fst) (hLog (hosts s ! 0)) = [''one'']"
    by (rule ends_demoE)
  then show ?thesis
    by (intro exI [of _ s] conjI bexI [of _ "hosts s ! 0"]) simp_all
qed


end
